(* ===== verification/Prelude.thy ===== *)
theory Prelude
  imports Main "HOL-Library.Word"
begin

text \<open>
  Shared vocabulary of the development: bytes, the errors a JavaScript function can throw, the
  result type with its sequencing operation, JavaScript's slicing and indexing conventions, and
  positional notation (the arithmetic behind base58, hexadecimal, decimal and byte encodings).
  Positional notation is stated once, in the locale \<open>positional\<close>, and interpreted at every base
  the program uses.
\<close>

section \<open>Bytes, errors and results\<close>

type_synonym byte = "8 word"
type_synonym bytes = "byte list"

text \<open>
  What a call can throw. \<open>JsError m\<close> is \<open>new Error(m)\<close>; \<open>GatewayErr c m\<close> is the class
  \<open>GatewayError\<close> of gateway.js with its code and message; the other constructors are the
  built-in errors the language raises by itself.
\<close>

datatype js_error =
    JsError string
  | GatewayErr string string
  | TypeErr string
  | RangeErr string
  | SyntaxErr string

type_synonym 'a res = "js_error + 'a"

definition bindE :: "'a res \<Rightarrow> ('a \<Rightarrow> 'b res) \<Rightarrow> 'b res" where
  "bindE m f = (case m of Inl e \<Rightarrow> Inl e | Inr x \<Rightarrow> f x)"

named_theorems res_simps \<open>evaluation of results\<close>
named_theorems wire_simps \<open>byte layouts\<close>

lemma bindE_Inl [simp, res_simps]: "bindE (Inl e) f = Inl e"
  by (simp add: bindE_def)

lemma bindE_Inr [simp, res_simps]: "bindE (Inr x) f = f x"
  by (simp add: bindE_def)

lemma bindE_assoc: "bindE (bindE m f) g = bindE m (\<lambda>x. bindE (f x) g)"
  by (cases m) simp_all

lemma bindE_eq_Inr: "bindE m f = Inr y \<longleftrightarrow> (\<exists>x. m = Inr x \<and> f x = Inr y)"
  by (cases m) simp_all

lemma bindE_eq_Inl: "bindE m f = Inl e \<longleftrightarrow> m = Inl e \<or> (\<exists>x. m = Inr x \<and> f x = Inl e)"
  by (cases m) simp_all

text \<open>\<open>Array.prototype.map\<close> with a callback that may throw: the first throw wins.\<close>

fun mapE :: "('a \<Rightarrow> 'b res) \<Rightarrow> 'a list \<Rightarrow> 'b list res" where
  "mapE f [] = Inr []"
| "mapE f (x # xs) = bindE (f x) (\<lambda>y. bindE (mapE f xs) (\<lambda>ys. Inr (y # ys)))"

lemma mapE_Inr: "(\<And>x. x \<in> set xs \<Longrightarrow> f x = Inr (g x)) \<Longrightarrow> mapE f xs = Inr (map g xs)"
  by (induction xs) simp_all

lemma mapE_length: "mapE f xs = Inr ys \<Longrightarrow> length ys = length xs"
  by (induction xs arbitrary: ys) (auto simp: bindE_eq_Inr)

lemma mapE_nth: "mapE f xs = Inr ys \<Longrightarrow> i < length xs \<Longrightarrow> f (xs ! i) = Inr (ys ! i)"
proof (induction xs arbitrary: ys i)
  case (Cons x xs)
  then show ?case by (cases i) (auto simp: bindE_eq_Inr)
qed simp

section \<open>JavaScript's sequence conventions\<close>

text \<open>
  \<open>slice(a, b)\<close> on strings and arrays: a negative index counts from the end, and both are
  clamped to the sequence. \<open>slice(a)\<close> is \<open>js_slice_from\<close>.
\<close>

definition js_index :: "nat \<Rightarrow> int \<Rightarrow> nat" where
  "js_index n i = (if i < 0 then nat (max 0 (int n + i)) else min n (nat i))"

definition js_slice :: "'a list \<Rightarrow> int \<Rightarrow> int \<Rightarrow> 'a list" where
  "js_slice xs a b =
     (let i = js_index (length xs) a; j = js_index (length xs) b in take (j - i) (drop i xs))"

definition js_slice_from :: "'a list \<Rightarrow> int \<Rightarrow> 'a list" where
  "js_slice_from xs a = drop (js_index (length xs) a) xs"

text \<open>\<open>xs[i]\<close>: \<open>undefined\<close> out of range.\<close>

definition js_get :: "'a list \<Rightarrow> nat \<Rightarrow> 'a option" where
  "js_get xs i = (if i < length xs then Some (xs ! i) else None)"

text \<open>\<open>indexOf\<close> of one element, \<open>-1\<close> when it does not occur.\<close>

fun indexOf_from :: "int \<Rightarrow> 'a \<Rightarrow> 'a list \<Rightarrow> int" where
  "indexOf_from i x [] = -1"
| "indexOf_from i x (y # ys) = (if x = y then i else indexOf_from (i + 1) x ys)"

definition indexOf :: "'a list \<Rightarrow> 'a \<Rightarrow> int" where
  "indexOf xs x = indexOf_from 0 x xs"

lemma js_slice_nonneg: "0 \<le> a \<Longrightarrow> a \<le> b \<Longrightarrow> js_slice xs a b = take (nat b - nat a) (drop (nat a) xs)"
  by (auto simp: js_slice_def js_index_def Let_def min_def)

lemma js_slice_prefix: "0 \<le> b \<Longrightarrow> js_slice xs 0 b = take (nat b) xs"
  by (simp add: js_slice_nonneg)

lemma js_slice_from_nonneg: "0 \<le> a \<Longrightarrow> js_slice_from xs a = drop (nat a) xs"
  by (auto simp: js_slice_from_def js_index_def min_def)

lemma js_slice_from_neg: "a < 0 \<Longrightarrow> js_slice_from xs a = drop (nat (int (length xs) + a)) xs"
  by (cases "0 \<le> int (length xs) + a") (simp_all add: js_slice_from_def js_index_def)

lemma js_slice_init:
  "k \<le> length xs \<Longrightarrow> js_slice xs 0 (int (length xs) - int k) = take (length xs - k) xs"
  by (simp add: js_slice_prefix nat_diff_distrib')

lemma js_slice_drop_last:
  "0 < k \<Longrightarrow> i \<le> length xs \<Longrightarrow>
     js_slice xs (int i) (- int k) = take (length xs - k - i) (drop i xs)"
  by (auto simp: js_slice_def js_index_def Let_def nat_diff_distrib' max_def split: if_splits)

lemma js_get_simps [simp]:
  "js_get (x # xs) 0 = Some x" "js_get (x # xs) (Suc i) = js_get xs i" "js_get [] i = None"
  by (simp_all add: js_get_def)

lemma indexOf_from_bounds:
  "indexOf_from i x xs = -1 \<or> i \<le> indexOf_from i x xs \<and> indexOf_from i x xs < i + int (length xs)"
  by (induction i x xs rule: indexOf_from.induct) auto

lemma indexOf_from_notin: "0 \<le> i \<Longrightarrow> (indexOf_from i x xs = -1) = (x \<notin> set xs)"
proof (induction i x xs rule: indexOf_from.induct)
  case (2 i x y ys)
  then show ?case by (cases "x = y") auto
qed simp

lemma indexOf_from_nth:
  "distinct xs \<Longrightarrow> k < length xs \<Longrightarrow> indexOf_from i (xs ! k) xs = i + int k"
proof (induction xs arbitrary: i k)
  case (Cons y ys)
  then show ?case
  proof (cases k)
    case (Suc k')
    with Cons.prems have "ys ! k' \<noteq> y" by (auto simp: in_set_conv_nth)
    with Cons Suc show ?thesis by simp
  qed simp
qed simp

lemma indexOf_from_found:
  "0 \<le> i \<Longrightarrow> indexOf_from i x xs = r \<Longrightarrow> r \<noteq> -1 \<Longrightarrow> xs ! nat (r - i) = x"
proof (induction i x xs arbitrary: r rule: indexOf_from.induct)
  case (2 i x y ys)
  show ?case
  proof (cases "x = y")
    case False
    then have r: "indexOf_from (i + 1) x ys = r" using "2.prems" by simp
    then have "ys ! nat (r - (i + 1)) = x" using 2 False by simp
    moreover have "i + 1 \<le> r" using indexOf_from_bounds [of "i + 1" x ys] r "2.prems" by auto
    then have "nat (r - i) = Suc (nat (r - (i + 1)))" by simp
    ultimately show ?thesis by simp
  qed (use 2 in simp)
qed simp

lemma indexOf_notin [simp]: "(indexOf xs x = -1) = (x \<notin> set xs)"
  by (simp add: indexOf_def indexOf_from_notin)

lemma indexOf_neg: "(indexOf xs x < 0) = (x \<notin> set xs)"
  using indexOf_from_bounds [of 0 x xs] indexOf_from_notin [of 0 x xs]
  by (auto simp: indexOf_def)

lemma indexOf_nth: "distinct xs \<Longrightarrow> k < length xs \<Longrightarrow> indexOf xs (xs ! k) = int k"
  by (simp add: indexOf_def indexOf_from_nth)

lemma nth_indexOf: "x \<in> set xs \<Longrightarrow> xs ! nat (indexOf xs x) = x"
  using indexOf_from_found [of 0 x xs "indexOf_from 0 x xs"] indexOf_from_notin [of 0 x xs]
  by (simp add: indexOf_def)

lemma indexOf_less: "x \<in> set xs \<Longrightarrow> nat (indexOf xs x) < length xs"
  using indexOf_from_bounds [of 0 x xs] indexOf_from_notin [of 0 x xs]
  by (auto simp: indexOf_def)

section \<open>Positional notation\<close>

text \<open>
  \<open>to_digits b n acc\<close> is the loop \<open>while (n > 0) { acc.unshift(n % b); n /= b }\<close>;
  \<open>from_digits b\<close> is the loop \<open>for (d of ds) n = n * b + d\<close>.
\<close>

fun to_digits :: "nat \<Rightarrow> nat \<Rightarrow> nat list \<Rightarrow> nat list" where
  "to_digits b n acc =
     (if 0 < n \<and> 1 < b then to_digits b (n div b) (n mod b # acc) else acc)"

declare to_digits.simps [simp del]

definition from_digits :: "nat \<Rightarrow> nat list \<Rightarrow> nat" where
  "from_digits b ds = foldl (\<lambda>n d. n * b + d) 0 ds"

locale positional =
  fixes base :: nat
  assumes base_gt_1: "1 < base"
begin

lemma to_digits_acc: "to_digits base n acc = to_digits base n [] @ acc"
proof (induction n arbitrary: acc rule: less_induct)
  case (less n)
  show ?case
  proof (cases "n = 0")
    case False
    then have lt: "n div base < n" using base_gt_1 by simp
    have "to_digits base n acc = to_digits base (n div base) (n mod base # acc)"
      using False base_gt_1 by (simp add: to_digits.simps [of base n])
    also have "\<dots> = to_digits base (n div base) [] @ n mod base # acc"
      by (rule less.IH [OF lt])
    also have "\<dots> = to_digits base (n div base) [n mod base] @ acc"
      using less.IH [OF lt, of "[n mod base]"] by simp
    also have "to_digits base (n div base) [n mod base] = to_digits base n []"
      using False base_gt_1 by (simp add: to_digits.simps [of base n])
    finally show ?thesis .
  qed (simp add: to_digits.simps)
qed

lemma to_digits_0 [simp]: "to_digits base 0 acc = acc"
  by (simp add: to_digits.simps)

lemma to_digits_pos:
  "0 < n \<Longrightarrow> to_digits base n [] = to_digits base (n div base) [] @ [n mod base]"
  using base_gt_1 to_digits_acc [of "n div base" "[n mod base]"]
  by (simp add: to_digits.simps [of base n])

lemma from_digits_snoc: "from_digits base (ds @ [d]) = from_digits base ds * base + d"
  by (simp add: from_digits_def)

lemma from_digits_Nil [simp]: "from_digits base [] = 0"
  by (simp add: from_digits_def)

lemma from_to_digits: "from_digits base (to_digits base n []) = n"
proof (induction n rule: less_induct)
  case (less n)
  then show ?case
    using base_gt_1 by (cases "n = 0") (simp_all add: to_digits_pos from_digits_snoc)
qed

lemma to_digits_less: "d \<in> set (to_digits base n []) \<Longrightarrow> d < base"
proof (induction n rule: less_induct)
  case (less n)
  show ?case
  proof (cases "n = 0")
    case False
    with less.prems have "d \<in> set (to_digits base (n div base) []) \<or> d = n mod base"
      by (auto simp: to_digits_pos)
    moreover have "n div base < n" "n mod base < base" using False base_gt_1 by simp_all
    ultimately show ?thesis using less.IH by blast
  qed (use less.prems in simp)
qed

lemma to_digits_hd: "0 < n \<Longrightarrow> to_digits base n [] \<noteq> [] \<and> hd (to_digits base n []) \<noteq> 0"
proof (induction n rule: less_induct)
  case (less n)
  show ?case
  proof (cases "n div base = 0")
    case True
    then have "n < base" using base_gt_1 by (simp add: div_eq_0_iff)
    with less.prems True show ?thesis by (simp add: to_digits_pos)
  next
    case False
    with less base_gt_1 have "to_digits base (n div base) [] \<noteq> [] \<and> hd (to_digits base (n div base) []) \<noteq> 0"
      by simp
    with less.prems show ?thesis by (simp add: to_digits_pos)
  qed
qed

lemma to_from_digits:
  "(\<And>d. d \<in> set ds \<Longrightarrow> d < base) \<Longrightarrow>
     to_digits base (from_digits base ds) [] = dropWhile (\<lambda>d. d = 0) ds"
proof (induction ds rule: rev_induct)
  case (snoc d ds)
  then have IH: "to_digits base (from_digits base ds) [] = dropWhile (\<lambda>d. d = 0) ds"
    and d: "d < base" by auto
  show ?case
  proof (cases "from_digits base (ds @ [d]) = 0")
    case True
    then have z: "from_digits base ds = 0" "d = 0"
      using base_gt_1 by (auto simp: from_digits_snoc)
    with IH have "dropWhile (\<lambda>d. d = 0) ds = []" by simp
    then have "\<forall>x\<in>set ds. x = 0" by (simp add: dropWhile_eq_Nil_conv)
    with True z(2) show ?thesis by (simp add: dropWhile_append)
  next
    case False
    then have "to_digits base (from_digits base (ds @ [d])) []
        = to_digits base (from_digits base ds) [] @ [d]"
      using d by (simp add: to_digits_pos from_digits_snoc)
    also have "\<dots> = dropWhile (\<lambda>d. d = 0) (ds @ [d])"
    proof (cases "from_digits base ds = 0")
      case True
      with IH have nil: "dropWhile (\<lambda>d. d = 0) ds = []" by simp
      from True False have "d \<noteq> 0" by (auto simp: from_digits_snoc)
      with IH nil show ?thesis by (simp add: dropWhile_append dropWhile_eq_Nil_conv)
    next
      case False
      with IH to_digits_hd [of "from_digits base ds"] have "dropWhile (\<lambda>d. d = 0) ds \<noteq> []" by auto
      then have "\<exists>x\<in>set ds. x \<noteq> 0" by (simp add: dropWhile_eq_Nil_conv)
      with IH show ?thesis by (auto simp: dropWhile_append1)
    qed
    finally show ?thesis .
  qed
qed simp

lemma from_digits_append:
  "from_digits base (xs @ ys) = from_digits base xs * base ^ length ys + from_digits base ys"
proof (induction ys rule: rev_induct)
  case (snoc y ys)
  have "from_digits base (xs @ ys @ [y]) = from_digits base (xs @ ys) * base + y"
    using from_digits_snoc [of "xs @ ys" y] by simp
  then show ?case using snoc.IH by (simp add: from_digits_snoc algebra_simps)
qed simp

lemma from_digits_bound:
  "(\<And>d. d \<in> set ds \<Longrightarrow> d < base) \<Longrightarrow> from_digits base ds < base ^ length ds"
proof (induction ds rule: rev_induct)
  case (snoc d ds)
  then have "from_digits base ds < base ^ length ds" "d < base" by auto
  then have "from_digits base ds * base + d < (from_digits base ds + 1) * base" by simp
  also have "\<dots> \<le> base ^ length ds * base"
    using \<open>from_digits base ds < base ^ length ds\<close> by (intro mult_right_mono) auto
  finally show ?case by (simp add: from_digits_snoc mult.commute)
qed simp

lemma from_digits_replicate_0: "from_digits base (replicate k 0 @ ds) = from_digits base ds"
proof -
  have "from_digits base (replicate k 0) = 0"
    by (induction k) (simp_all add: from_digits_def)
  then show ?thesis by (simp add: from_digits_append)
qed

lemma from_digits_inj:
  assumes "length xs = length ys" "from_digits base xs = from_digits base ys"
    and "\<And>d. d \<in> set xs \<Longrightarrow> d < base" "\<And>d. d \<in> set ys \<Longrightarrow> d < base"
  shows "xs = ys"
  using assms
proof (induction xs arbitrary: ys rule: rev_induct)
  case (snoc x xs)
  then obtain y zs where ys: "ys = zs @ [y]" by (metis length_0_conv rev_exhaust snoc_eq_iff_butlast)
  have lt: "x < base" "y < base" using snoc.prems ys by auto
  have eq: "from_digits base xs * base + x = from_digits base zs * base + y"
    using snoc.prems(2) ys by (simp add: from_digits_snoc)
  from arg_cong [OF eq, of "\<lambda>n. n mod base"] lt have "x = y" by simp
  moreover from this eq base_gt_1 have "from_digits base xs = from_digits base zs" by simp
  ultimately show ?case using snoc ys by auto
qed simp

lemma to_digits_inj: "to_digits base m [] = to_digits base n [] \<Longrightarrow> m = n"
  by (metis from_to_digits)

lemma to_digits_split:
  "0 < n div base ^ k \<Longrightarrow>
     \<exists>ds. length ds = k \<and> (\<forall>d\<in>set ds. d < base) \<and> to_digits base n [] = to_digits base (n div base ^ k) [] @ ds"
proof (induction k arbitrary: n)
  case (Suc k)
  have q: "n div base div base ^ k = n div base ^ Suc k" by (simp add: div_mult2_eq)
  have n: "0 < n" using Suc.prems by (cases n) simp_all
  obtain ds where "length ds = k" "\<forall>d\<in>set ds. d < base"
    "to_digits base (n div base) [] = to_digits base (n div base ^ Suc k) [] @ ds"
    using Suc.IH [of "n div base"] Suc.prems q by auto
  then show ?case
    using n base_gt_1 by (intro exI [of _ "ds @ [n mod base]"]) (auto simp: to_digits_pos)
qed simp

lemma to_digits_length:
  assumes "n < base ^ k"
  shows "length (to_digits base n []) \<le> k"
  using assms
proof (induction k arbitrary: n)
  case 0
  then show ?case by simp
next
  case (Suc k)
  show ?case
  proof (cases "n = 0")
    case False
    have "n div base < base ^ k"
      using Suc.prems base_gt_1 by (simp add: less_mult_imp_div_less mult.commute)
    then have "length (to_digits base (n div base) []) \<le> k" by (rule Suc.IH)
    with False show ?thesis by (simp add: to_digits_pos)
  qed simp
qed

end

interpretation base2: positional 2 by unfold_locales simp
interpretation base10: positional 10 by unfold_locales simp
interpretation base16: positional 16 by unfold_locales simp
interpretation base58: positional 58 by unfold_locales simp
interpretation base256: positional 256 by unfold_locales simp

section \<open>Words\<close>

lemma unat_byte_less [simp]: "unat (b :: byte) < 256"
  using unsigned_less [of b] by simp

lemma of_nat_unat_byte [simp]: "(of_nat (unat b) :: byte) = b"
  by simp

lemma unat_of_nat_byte: "n < 256 \<Longrightarrow> unat (of_nat n :: byte) = n"
  by (simp add: unat_of_nat take_bit_eq_mod)

lemma map_unat_inj: "map unat (xs :: bytes) = map unat ys \<Longrightarrow> xs = ys"
  by (metis list.inj_map_strong word_unat_eq_iff)

lemma of_nat_map_unat [simp]: "map ((of_nat :: nat \<Rightarrow> byte) \<circ> unat) bs = bs"
  by (intro map_idI) simp

end
