(* ===== verification/JsString.thy ===== *)
theory JsString
  imports Prelude
begin

text \<open>
  The string operations of JavaScript the program uses, and the two hexadecimal helpers that
  crypto.js and storage.js share. A JavaScript string is a sequence of UTF-16 code units; the
  model's \<open>string\<close> holds code units below 256 (Latin-1), which covers every literal, address,
  key, hexadecimal and base64 text of the program. Text a user types outside that range is out
  of the model.
\<close>

section \<open>Characters\<close>

definition code_unit :: "char \<Rightarrow> nat" where
  "code_unit c = of_char c"

text \<open>White space and line terminators of the ECMAScript grammar, below 256.\<close>

definition is_space :: "char \<Rightarrow> bool" where
  "is_space c \<longleftrightarrow> code_unit c \<in> {9, 10, 11, 12, 13, 32, 160}"

definition trim :: "string \<Rightarrow> string" where
  "trim s = rev (dropWhile is_space (rev (dropWhile is_space s)))"

text \<open>\<open>toLowerCase\<close>: ASCII letters and the Latin-1 capitals except the multiplication sign.\<close>

definition lower_char :: "char \<Rightarrow> char" where
  "lower_char c =
     (let n = code_unit c
      in if 65 \<le> n \<and> n \<le> 90 \<or> 192 \<le> n \<and> n \<le> 222 \<and> n \<noteq> 215 then char_of (n + 32) else c)"

definition toLowerCase :: "string \<Rightarrow> string" where
  "toLowerCase s = map lower_char s"

definition startsWith :: "string \<Rightarrow> string \<Rightarrow> bool" where
  "startsWith s p \<longleftrightarrow> take (length p) s = p"

fun js_includes :: "'a list \<Rightarrow> 'a list \<Rightarrow> bool" where
  "js_includes [] p = (p = [])"
| "js_includes (x # xs) p = (take (length p) (x # xs) = p \<or> js_includes xs p)"

text \<open>\<open>lastIndexOf\<close> of a one-character string.\<close>

definition lastIndexOf :: "string \<Rightarrow> char \<Rightarrow> int" where
  "lastIndexOf s c =
     (if c \<in> set s then int (length s) - 1 - indexOf (rev s) c else -1)"

definition padStart :: "string \<Rightarrow> nat \<Rightarrow> char \<Rightarrow> string" where
  "padStart s n c = replicate (n - length s) c @ s"

text \<open>\<open>split\<close> at a one-character separator, and \<open>join\<close>.\<close>

fun js_split_acc :: "char \<Rightarrow> string \<Rightarrow> string \<Rightarrow> string list" where
  "js_split_acc c acc [] = [rev acc]"
| "js_split_acc c acc (x # xs) = (if x = c then rev acc # js_split_acc c [] xs else js_split_acc c (x # acc) xs)"

definition js_split :: "char \<Rightarrow> string \<Rightarrow> string list" where
  "js_split c s = js_split_acc c [] s"

fun js_join :: "string \<Rightarrow> string list \<Rightarrow> string" where
  "js_join sep [] = []"
| "js_join sep [x] = x"
| "js_join sep (x # y # ys) = x @ sep @ js_join sep (y # ys)"

section \<open>Numbers as text\<close>

definition digit_char :: "nat \<Rightarrow> char" where
  "digit_char d = ''0123456789abcdef'' ! d"

text \<open>\<open>n.toString(radix)\<close> and \<open>String(n)\<close> of a natural number.\<close>

definition toString_radix :: "nat \<Rightarrow> nat \<Rightarrow> string" where
  "toString_radix r n = (if n = 0 then ''0'' else map digit_char (to_digits r n []))"

definition dec :: "nat \<Rightarrow> string" where
  "dec n = toString_radix 10 n"

definition dec_int :: "int \<Rightarrow> string" where
  "dec_int i = (if i < 0 then CHR ''-'' # dec (nat (- i)) else dec (nat i))"

definition digit_val :: "char \<Rightarrow> nat option" where
  "digit_val c =
     (let n = code_unit c
      in if 48 \<le> n \<and> n \<le> 57 then Some (n - 48)
         else if 97 \<le> n \<and> n \<le> 122 then Some (n - 87)
         else if 65 \<le> n \<and> n \<le> 90 then Some (n - 55)
         else None)"

definition is_digit :: "nat \<Rightarrow> char \<Rightarrow> bool" where
  "is_digit r c \<longleftrightarrow> (case digit_val c of None \<Rightarrow> False | Some d \<Rightarrow> d < r)"

text \<open>
  \<open>parseInt(s, radix)\<close>: leading white space, a sign, \<open>0x\<close> for radix 16, then the longest run
  of digits; \<open>None\<close> is NaN.
\<close>

definition strip_sign :: "string \<Rightarrow> int \<times> string" where
  "strip_sign s =
     (case s of [] \<Rightarrow> (1, [])
      | c # cs \<Rightarrow> if c = CHR ''-'' then (-1, cs) else if c = CHR ''+'' then (1, cs) else (1, s))"

definition strip_0x :: "nat \<Rightarrow> string \<Rightarrow> string" where
  "strip_0x r s =
     (if r = 16 \<and> (take 2 s = ''0x'' \<or> take 2 s = ''0X'') then drop 2 s else s)"

definition parseInt :: "nat \<Rightarrow> string \<Rightarrow> int option" where
  "parseInt r s =
     (let (sg, t) = strip_sign (dropWhile is_space s);
          ds = takeWhile (is_digit r) (strip_0x r t)
      in if ds = [] then None
         else Some (sg * int (from_digits r (map (\<lambda>c. the (digit_val c)) ds))))"

section \<open>Hexadecimal\<close>

text \<open>\<open>bytesToHex\<close> (crypto.js and, repeated, storage.js).\<close>

definition byteToHex :: "byte \<Rightarrow> string" where
  "byteToHex b = padStart (toString_radix 16 (unat b)) 2 (CHR ''0'')"

definition bytesToHex :: "bytes \<Rightarrow> string" where
  "bytesToHex bs = concat (map byteToHex bs)"

text \<open>
  \<open>hexToBytes\<close>: a typed array of \<open>hex.length / 2\<close> elements (truncated), element \<open>i\<close> the
  two-character substring at \<open>2 i\<close> through \<open>parseInt\<close>; storing NaN in a Uint8Array writes 0,
  any other number is reduced modulo 256.
\<close>

definition uint8_of :: "int option \<Rightarrow> byte" where
  "uint8_of v = (case v of None \<Rightarrow> 0 | Some i \<Rightarrow> word_of_int i)"

definition hexToBytes :: "string \<Rightarrow> bytes" where
  "hexToBytes hex =
     map (\<lambda>i. uint8_of (parseInt 16 (take 2 (drop (2 * i) hex)))) [0..<length hex div 2]"

subsection \<open>Lemmas\<close>

lemma code_unit_less: "code_unit c < 256"
  by (simp add: code_unit_def)

lemma digit_val_char: "d < 16 \<Longrightarrow> digit_val (digit_char d) = Some d"
proof -
  have "\<forall>d<16. digit_val (digit_char d) = Some d" by code_simp
  then show "d < 16 \<Longrightarrow> digit_val (digit_char d) = Some d" by blast
qed

lemma digit_char_inj: "a < 16 \<Longrightarrow> b < 16 \<Longrightarrow> digit_char a = digit_char b \<Longrightarrow> a = b"
  by (metis digit_val_char option.inject)

lemma is_digit_char: "d < r \<Longrightarrow> d < 16 \<Longrightarrow> is_digit r (digit_char d)"
  by (simp add: is_digit_def digit_val_char)

lemma digit_char_props:
  "d < 16 \<Longrightarrow> \<not> is_space (digit_char d) \<and> digit_char d \<noteq> CHR ''-'' \<and> digit_char d \<noteq> CHR ''+''
     \<and> digit_char d \<noteq> CHR ''x'' \<and> digit_char d \<noteq> CHR ''X''"
proof -
  have "\<forall>d<16. \<not> is_space (digit_char d) \<and> digit_char d \<noteq> CHR ''-'' \<and> digit_char d \<noteq> CHR ''+''
     \<and> digit_char d \<noteq> CHR ''x'' \<and> digit_char d \<noteq> CHR ''X''" by code_simp
  then show "d < 16 \<Longrightarrow> ?thesis" by blast
qed

lemma byteToHex_eq: "byteToHex b = [digit_char (unat b div 16), digit_char (unat b mod 16)]"
proof -
  define n where "n = unat b"
  have n: "n < 256" by (simp add: n_def)
  have "padStart (toString_radix 16 n) 2 (CHR ''0'') = [digit_char (n div 16), digit_char (n mod 16)]"
  proof (cases "n < 16")
    case True
    then have "n div 16 = 0" "n mod 16 = n" by simp_all
    then show ?thesis using True base16.to_digits_pos [of n]
      by (cases "n = 0") (simp_all add: padStart_def toString_radix_def digit_char_def)
  next
    case False
    then have "0 < n div 16" "n div 16 div 16 = 0" "n div 16 mod 16 = n div 16" using n by auto
    then have "to_digits 16 n [] = [n div 16, n mod 16]"
      using False base16.to_digits_pos [of n] base16.to_digits_pos [of "n div 16"] by simp
    then show ?thesis using False by (simp add: padStart_def toString_radix_def)
  qed
  then show ?thesis by (simp add: byteToHex_def n_def)
qed

lemma bytesToHex_Nil [simp]: "bytesToHex [] = []"
  by (simp add: bytesToHex_def)

lemma bytesToHex_Cons [simp]: "bytesToHex (b # bs) = byteToHex b @ bytesToHex bs"
  by (simp add: bytesToHex_def)

lemma bytesToHex_append: "bytesToHex (xs @ ys) = bytesToHex xs @ bytesToHex ys"
  by (simp add: bytesToHex_def)

lemma byteToHex_length [simp]: "length (byteToHex b) = 2"
  by (simp add: byteToHex_eq)

lemma bytesToHex_length [simp]: "length (bytesToHex bs) = 2 * length bs"
  by (induction bs) simp_all

lemma parseInt_two_digits:
  assumes "a < 16" "c < 16"
  shows "parseInt 16 [digit_char a, digit_char c] = Some (int (16 * a + c))"
proof -
  note pa = digit_char_props [OF assms(1)] and pc = digit_char_props [OF assms(2)]
  show ?thesis using pa pc assms
    by (simp add: parseInt_def strip_sign_def strip_0x_def is_digit_char digit_val_char
        from_digits_def Let_def)
qed

lemma hexToBytes_Nil [simp]: "hexToBytes [] = []"
  by (simp add: hexToBytes_def)

lemma hexToBytes_Cons2 [simp]:
  "hexToBytes (x # y # hs) = uint8_of (parseInt 16 [x, y]) # hexToBytes hs"
  by (simp add: hexToBytes_def upt_conv_Cons map_Suc_upt [symmetric] comp_def del: upt_Suc)

lemma hexToBytes_length [simp]: "length (hexToBytes h) = length h div 2"
  by (simp add: hexToBytes_def)

lemma hexToBytes_byteToHex: "hexToBytes (byteToHex b @ hs) = b # hexToBytes hs"
proof -
  have "unat b div 16 < 16" "unat b mod 16 < 16" using unat_byte_less [of b] by (auto simp del: unat_byte_less)
  then have "parseInt 16 [digit_char (unat b div 16), digit_char (unat b mod 16)]
      = Some (int (16 * (unat b div 16) + unat b mod 16))"
    by (rule parseInt_two_digits)
  then show ?thesis by (simp add: byteToHex_eq uint8_of_def mult_div_mod_eq)
qed

lemma hexToBytes_bytesToHex [simp]: "hexToBytes (bytesToHex bs) = bs"
  by (induction bs) (simp_all add: hexToBytes_byteToHex)

lemma bytesToHex_inj: "bytesToHex xs = bytesToHex ys \<Longrightarrow> xs = ys"
  by (metis hexToBytes_bytesToHex)

lemma bytesToHex_inject [simp]: "bytesToHex xs = bytesToHex ys \<longleftrightarrow> xs = ys"
  using bytesToHex_inj by blast

lemma bytesToHex_chars: "c \<in> set (bytesToHex bs) \<Longrightarrow> \<exists>d<16. c = digit_char d"
proof (induction bs)
  case (Cons b bs)
  have "unat b div 16 < 16" using unat_byte_less [of b] by (auto simp del: unat_byte_less)
  moreover have "unat b mod 16 < 16" by simp
  moreover have "c = digit_char (unat b div 16) \<or> c = digit_char (unat b mod 16) \<or> c \<in> set (bytesToHex bs)"
    using Cons.prems by (simp add: byteToHex_eq)
  ultimately show ?case using Cons.IH by blast
qed simp

lemma startsWith_Cons:
  "startsWith s (p # ps) \<longleftrightarrow> (\<exists>cs. s = p # cs \<and> startsWith cs ps)"
  by (cases s) (auto simp: startsWith_def)

lemma startsWith_Nil [simp]: "startsWith s []"
  by (simp add: startsWith_def)

lemma startsWith_append: "startsWith (p @ s) p"
  by (simp add: startsWith_def)

lemma toLowerCase_Cons [simp]: "toLowerCase (c # cs) = lower_char c # toLowerCase cs"
  by (simp add: toLowerCase_def)

lemma toLowerCase_append: "toLowerCase (a @ b) = toLowerCase a @ toLowerCase b"
  by (simp add: toLowerCase_def)

lemma lower_char_one: "lower_char c = CHR ''1'' \<Longrightarrow> c = CHR ''1''"
proof -
  assume l: "lower_char c = CHR ''1''"
  show ?thesis
  proof (rule ccontr)
    assume "c \<noteq> CHR ''1''"
    with l have c: "65 \<le> code_unit c" "code_unit c \<le> 222" "lower_char c = char_of (code_unit c + 32)"
      by (auto simp: lower_char_def Let_def split: if_splits)
    then have "of_char (lower_char c) = code_unit c + 32" by simp
    then show False using l c(1) by simp
  qed
qed

lemma indexOf_from_le: "k < length xs \<Longrightarrow> indexOf_from i (xs ! k) xs \<le> i + int k"
proof (induction xs arbitrary: i k)
  case (Cons y ys)
  show ?case
  proof (cases k)
    case (Suc k')
    then show ?thesis using Cons.IH [of k' "i + 1"] Cons.prems by simp
  qed simp
qed simp

lemma lastIndexOf_ge:
  assumes "k < length s" "s ! k = c"
  shows "int k \<le> lastIndexOf s c"
proof -
  have "rev s ! (length s - Suc k) = c" using assms by (simp add: rev_nth)
  moreover have "length s - Suc k < length (rev s)" using assms by simp
  ultimately have "indexOf_from 0 c (rev s) \<le> int (length s - Suc k)"
    using indexOf_from_le [of "length s - Suc k" "rev s" 0] by simp
  moreover have "c \<in> set s" using assms nth_mem by blast
  ultimately show ?thesis using assms by (simp add: lastIndexOf_def indexOf_def of_nat_diff)
qed

lemma includes_append: "js_includes (xs @ p @ ys) p"
proof (induction xs)
  case Nil
  show ?case
  proof (cases "p @ ys")
    case (Cons a zs)
    then have "take (length p) (a # zs) = p" by (metis append_eq_conv_conj)
    with Cons show ?thesis by simp
  qed simp
qed simp

lemma includes_iff: "js_includes s p \<longleftrightarrow> (\<exists>xs ys. s = xs @ p @ ys)"
proof
  assume "js_includes s p"
  then show "\<exists>xs ys. s = xs @ p @ ys"
  proof (induction s)
    case (Cons x s)
    then consider "take (length p) (x # s) = p" | "js_includes s p" by auto
    then show ?case
    proof cases
      case 1
      then have "x # s = [] @ p @ drop (length p) (x # s)" by (metis append_Nil append_take_drop_id)
      then show ?thesis by blast
    next
      case 2
      then obtain xs ys where "s = xs @ p @ ys" using Cons.IH by blast
      then have "x # s = (x # xs) @ p @ ys" by simp
      then show ?thesis by blast
    qed
  qed simp
qed (auto simp: includes_append)

lemma dec_inj: "dec a = dec b \<Longrightarrow> a = b"
proof -
  assume eq: "dec a = dec b"
  have *: "to_digits 10 n [] \<noteq> [0]" if "0 < n" for n
    using base10.to_digits_hd [OF that] by auto
  have lt: "d < 16" if "d \<in> set (to_digits 10 n [])" for d n
    using base10.to_digits_less [OF that] by simp
  have inj: "map digit_char xs = map digit_char ys \<Longrightarrow> (\<forall>d\<in>set xs. d < 16) \<Longrightarrow> (\<forall>d\<in>set ys. d < 16) \<Longrightarrow> xs = ys" for xs ys
    by (induction xs arbitrary: ys) (auto intro: digit_char_inj)
  have val: "dec n = map digit_char (if n = 0 then [0] else to_digits 10 n [])" for n
    by (simp add: dec_def toString_radix_def digit_char_def)
  have "(if a = 0 then [0] else to_digits 10 a []) = (if b = 0 then [0] else to_digits 10 b [])"
    using eq lt by (intro inj) (auto simp: val)
  then show "a = b" using * base10.to_digits_inj [of a b] by (auto split: if_splits)
qed

lemma dec_chars: "c \<in> set (dec n) \<Longrightarrow> \<exists>d<10. c = digit_char d"
proof (cases "n = 0")
  case True
  moreover assume "c \<in> set (dec n)"
  ultimately have "c = digit_char 0" by (simp add: dec_def toString_radix_def digit_char_def)
  then show ?thesis by (intro exI [of _ 0]) simp
next
  case False
  moreover assume "c \<in> set (dec n)"
  ultimately obtain d where "d \<in> set (to_digits 10 n [])" "c = digit_char d"
    by (auto simp: dec_def toString_radix_def)
  then show ?thesis using base10.to_digits_less by blast
qed

lemma dec_nonempty [simp]: "dec n \<noteq> []"
  using base10.to_digits_hd [of n] by (auto simp: dec_def toString_radix_def)

end
