(* ===== verification/Base58.thy ===== *)
theory Base58
  imports JsString
begin

text \<open>
  Base58Check of web-wallet/crypto.js: \<open>base58checkEncode\<close> and \<open>base58checkDecode\<close>, with the
  hash function as a parameter. The properties are the two round trips: encoding is inverted by
  decoding, and a string that decodes is the only encoding of its payload.
\<close>

section \<open>Definitions\<close>

definition B58_ALPHABET :: string where
  "B58_ALPHABET = ''123456789ABCDEFGHJKLMNPQRSTUVWXYZabcdefghijkmnopqrstuvwxyz''"

definition doubleSha256 :: "(bytes \<Rightarrow> bytes) \<Rightarrow> bytes \<Rightarrow> bytes" where
  "doubleSha256 sha256 bs = sha256 (sha256 bs)"

text \<open>\<open>while (num > 0n) { rem = num % 58n; num /= 58n; out = B58_ALPHABET[rem] + out }\<close>\<close>

fun b58_chars :: "nat \<Rightarrow> string \<Rightarrow> string" where
  "b58_chars num out =
     (if 0 < num then b58_chars (num div 58) (B58_ALPHABET ! (num mod 58) # out) else out)"

declare b58_chars.simps [simp del]

text \<open>The payload and four bytes of checksum in a zero-filled array of \<open>payload.length + 4\<close>.\<close>

definition with_checksum :: "(bytes \<Rightarrow> bytes) \<Rightarrow> bytes \<Rightarrow> bytes" where
  "with_checksum sha256 payload =
     (let checksum = take 4 (doubleSha256 sha256 payload)
      in payload @ checksum @ replicate (4 - length checksum) 0)"

definition base58checkEncode :: "(bytes \<Rightarrow> bytes) \<Rightarrow> bytes \<Rightarrow> string" where
  "base58checkEncode sha256 payload =
     (let full = with_checksum sha256 payload;
          leadingZeros = length (takeWhile (\<lambda>b. b = 0) full);
          num = foldl (\<lambda>num b. num * 256 + unat b) 0 full
      in replicate leadingZeros (CHR ''1'') @ b58_chars num [])"

text \<open>\<open>for (const ch of str) \<dots> num = num * 58n + BigInt(idx)\<close>\<close>

fun b58_num :: "nat \<Rightarrow> string \<Rightarrow> nat res" where
  "b58_num num [] = Inr num"
| "b58_num num (ch # chs) =
     (let idx = indexOf B58_ALPHABET ch
      in if idx < 0 then Inl (JsError ''Invalid base58 character'')
         else b58_num (num * 58 + nat idx) chs)"

definition base58checkDecode :: "(bytes \<Rightarrow> bytes) \<Rightarrow> string \<Rightarrow> bytes res" where
  "base58checkDecode sha256 str =
     bindE (b58_num 0 str) (\<lambda>num.
       let bs = map of_nat (to_digits 256 num []);
           leadingZeros = length (takeWhile (\<lambda>c. c = CHR ''1'') str);
           full = replicate leadingZeros 0 @ bs;
           payload = js_slice full 0 (int (length full) - 4);
           checksum = js_slice_from full (int (length full) - 4);
           expected = take 4 (doubleSha256 sha256 payload)
       in if list_all (\<lambda>(b, i). js_get checksum i = Some b) (zip expected [0..<length expected])
          then Inr payload
          else Inl (JsError ''Bad checksum''))"

section \<open>The digits of both alphabets\<close>

lemma B58_length [simp]: "length B58_ALPHABET = 58"
  by (simp add: B58_ALPHABET_def)

lemma B58_distinct [simp]: "distinct B58_ALPHABET"
  by code_simp

definition b58_char :: "nat \<Rightarrow> char" where
  "b58_char d = B58_ALPHABET ! d"

definition b58_digit :: "char \<Rightarrow> nat" where
  "b58_digit c = nat (indexOf B58_ALPHABET c)"

lemma b58_digit_char [simp]: "d < 58 \<Longrightarrow> b58_digit (b58_char d) = d"
  by (simp add: b58_digit_def b58_char_def indexOf_nth)

lemma b58_char_digit [simp]: "c \<in> set B58_ALPHABET \<Longrightarrow> b58_char (b58_digit c) = c"
  by (simp add: b58_digit_def b58_char_def nth_indexOf)

lemma b58_char_mem [simp]: "d < 58 \<Longrightarrow> b58_char d \<in> set B58_ALPHABET"
  by (metis B58_length b58_char_def nth_mem)

lemma b58_digit_less: "c \<in> set B58_ALPHABET \<Longrightarrow> b58_digit c < 58"
  using indexOf_less [of c B58_ALPHABET] by (simp add: b58_digit_def)

lemma b58_char_0: "b58_char 0 = CHR ''1''"
  by (simp add: b58_char_def B58_ALPHABET_def)

lemma b58_char_one_iff: "d < 58 \<Longrightarrow> b58_char d = CHR ''1'' \<longleftrightarrow> d = 0"
  by (metis b58_char_0 b58_digit_char zero_less_numeral)

lemma b58_digit_zero_iff: "c \<in> set B58_ALPHABET \<Longrightarrow> b58_digit c = 0 \<longleftrightarrow> c = CHR ''1''"
  by (metis b58_char_0 b58_char_digit b58_digit_char zero_less_numeral)

lemma b58_digit_one: "b58_digit (CHR ''1'') = 0"
  by (metis b58_char_0 b58_digit_char zero_less_numeral)

lemma b58_chars_eq: "b58_chars num out = map b58_char (to_digits 58 num []) @ out"
proof (induction num arbitrary: out rule: less_induct)
  case (less num)
  show ?case
  proof (cases "num = 0")
    case False
    then have "num div 58 < num" by simp
    then show ?thesis
      using False less.IH [of "num div 58" "b58_char (num mod 58) # out"] base58.to_digits_pos [of num]
      by (simp add: b58_chars.simps [of num] b58_char_def)
  qed (simp add: b58_chars.simps)
qed

lemma b58_num_eq:
  "b58_num num s =
     (if set s \<subseteq> set B58_ALPHABET then Inr (foldl (\<lambda>n c. n * 58 + b58_digit c) num s)
      else Inl (JsError ''Invalid base58 character''))"
  by (induction num s rule: b58_num.induct) (auto simp: indexOf_neg b58_digit_def Let_def)

lemma b58_num_digits:
  "set s \<subseteq> set B58_ALPHABET \<Longrightarrow> b58_num 0 s = Inr (from_digits 58 (map b58_digit s))"
  by (simp add: b58_num_eq from_digits_def foldl_map)

lemma bytes_num: "foldl (\<lambda>num b. num * 256 + unat b) 0 (bs :: bytes) = from_digits 256 (map unat bs)"
  by (simp add: from_digits_def foldl_map)

text \<open>Splitting a digit list at its leading zeros.\<close>

lemma leading_zeros_split:
  "xs = replicate (length (takeWhile (\<lambda>d. d = z) xs)) z @ dropWhile (\<lambda>d. d = z) xs"
proof -
  have "takeWhile (\<lambda>d. d = z) xs = replicate (length (takeWhile (\<lambda>d. d = z) xs)) z"
    by (intro replicate_eqI) (auto dest: set_takeWhileD)
  then show ?thesis by (metis takeWhile_dropWhile_id)
qed

lemma takeWhile_replicate_hd:
  "xs = [] \<or> hd xs \<noteq> z \<Longrightarrow> length (takeWhile (\<lambda>d. d = z) (replicate k z @ xs)) = k"
  by (induction k) (auto simp: takeWhile_eq_Nil_iff)

lemma map_unat_zero: "dropWhile (\<lambda>d. d = 0) (map unat (bs :: bytes)) = map unat (dropWhile (\<lambda>b. b = 0) bs)"
  by (induction bs) (auto simp: unat_eq_zero)

section \<open>Base58 without the checksum\<close>

text \<open>The two halves of the routines: bytes to text and text to bytes.\<close>

definition b58_text :: "bytes \<Rightarrow> string" where
  "b58_text full =
     replicate (length (takeWhile (\<lambda>b. b = 0) full)) (CHR ''1'')
       @ map b58_char (to_digits 58 (from_digits 256 (map unat full)) [])"

definition b58_bytes :: "string \<Rightarrow> bytes" where
  "b58_bytes s =
     replicate (length (takeWhile (\<lambda>c. c = CHR ''1'') s)) 0
       @ map of_nat (to_digits 256 (from_digits 58 (map b58_digit s)) [])"

lemma b58_text_chars: "set (b58_text full) \<subseteq> set B58_ALPHABET"
  using base58.to_digits_less b58_char_mem [of 0]
  by (auto simp: b58_text_def b58_char_0 simp del: b58_char_mem intro: b58_char_mem)

lemma b58_bytes_text: "b58_bytes (b58_text full) = full"
proof -
  define n where "n = from_digits 256 (map unat full)"
  define k where "k = length (takeWhile (\<lambda>b. b = 0) full)"
  have "b58_digit (b58_char d) = d" if "d \<in> set (to_digits 58 n [])" for d
    using base58.to_digits_less [OF that] by simp
  then have dig: "map (b58_digit \<circ> b58_char) (to_digits 58 n []) = to_digits 58 n []"
    by (intro map_idI) simp
  have "map b58_digit (b58_text full) = replicate k 0 @ to_digits 58 n []"
    using dig by (simp add: b58_text_def n_def k_def b58_digit_one)
  then have num: "from_digits 58 (map b58_digit (b58_text full)) = n"
    by (simp only: base58.from_digits_replicate_0 base58.from_to_digits)
  have hd: "map b58_char (to_digits 58 n []) = [] \<or> hd (map b58_char (to_digits 58 n [])) \<noteq> CHR ''1''"
  proof (cases "n = 0")
    case False
    then have ne: "to_digits 58 n [] \<noteq> []" and "hd (to_digits 58 n []) \<noteq> 0"
      using base58.to_digits_hd [of n] by auto
    moreover have "hd (to_digits 58 n []) < 58" using ne base58.to_digits_less hd_in_set by blast
    ultimately show ?thesis by (simp add: hd_map b58_char_one_iff)
  qed simp
  have lead: "length (takeWhile (\<lambda>c. c = CHR ''1'') (b58_text full)) = k"
    unfolding b58_text_def n_def [symmetric] k_def [symmetric] by (rule takeWhile_replicate_hd [OF hd])
  have "to_digits 256 n [] = map unat (dropWhile (\<lambda>b. b = 0) full)"
    unfolding n_def map_unat_zero [symmetric] by (rule base256.to_from_digits) auto
  then have "map of_nat (to_digits 256 n []) = dropWhile (\<lambda>b. b = 0) full" by simp
  then show ?thesis
    using leading_zeros_split [of full 0] by (simp add: b58_bytes_def lead num k_def)
qed

lemma b58_text_bytes:
  assumes "set s \<subseteq> set B58_ALPHABET"
  shows "b58_text (b58_bytes s) = s"
proof -
  define n where "n = from_digits 58 (map b58_digit s)"
  define k where "k = length (takeWhile (\<lambda>c. c = CHR ''1'') s)"
  have "unat (of_nat d :: byte) = d" if "d \<in> set (to_digits 256 n [])" for d
    using base256.to_digits_less [OF that] by (rule unat_of_nat_byte)
  then have un: "map (unat \<circ> (of_nat :: nat \<Rightarrow> byte)) (to_digits 256 n []) = to_digits 256 n []"
    by (intro map_idI) simp
  have hd: "(map of_nat (to_digits 256 n []) :: bytes) = []
      \<or> hd (map of_nat (to_digits 256 n []) :: bytes) \<noteq> 0"
  proof (cases "n = 0")
    case False
    then have ne: "to_digits 256 n [] \<noteq> []" and nz: "hd (to_digits 256 n []) \<noteq> 0"
      using base256.to_digits_hd [of n] by auto
    moreover have "hd (to_digits 256 n []) < 256" using ne base256.to_digits_less hd_in_set by blast
    ultimately have "unat (of_nat (hd (to_digits 256 n [])) :: byte) \<noteq> 0"
      by (simp add: unat_of_nat_byte)
    then show ?thesis using ne by (auto simp: hd_map)
  qed simp
  have lead: "length (takeWhile (\<lambda>b. b = 0) (b58_bytes s)) = k"
    unfolding b58_bytes_def n_def [symmetric] k_def [symmetric] by (rule takeWhile_replicate_hd [OF hd])
  have "map unat (b58_bytes s) = replicate k 0 @ to_digits 256 n []"
    using un by (simp add: b58_bytes_def n_def k_def)
  then have num: "from_digits 256 (map unat (b58_bytes s)) = n"
    by (simp only: base256.from_digits_replicate_0 base256.from_to_digits)
  have "to_digits 58 n [] = dropWhile (\<lambda>d. d = 0) (map b58_digit s)"
    unfolding n_def by (rule base58.to_from_digits) (use assms b58_digit_less in auto)
  also have "\<dots> = map b58_digit (dropWhile (\<lambda>c. c = CHR ''1'') s)"
    using assms by (induction s) (auto simp: b58_digit_zero_iff)
  finally have "map b58_char (to_digits 58 n []) = map (\<lambda>c. b58_char (b58_digit c)) (dropWhile (\<lambda>c. c = CHR ''1'') s)"
    by simp
  also have "\<dots> = dropWhile (\<lambda>c. c = CHR ''1'') s"
    using assms by (intro map_idI b58_char_digit) (auto dest: set_dropWhileD)
  finally show ?thesis
    using leading_zeros_split [of s "CHR ''1''"] by (simp add: b58_text_def lead num k_def)
qed

lemma base58checkEncode_text: "base58checkEncode sha p = b58_text (with_checksum sha p)"
  by (simp add: base58checkEncode_def b58_text_def b58_chars_eq bytes_num Let_def)

section \<open>The checksum\<close>

lemma every_eq:
  "list_all (\<lambda>(b, i). js_get cs i = Some b) (zip ex [0..<length ex]) \<longleftrightarrow> take (length ex) cs = ex"
proof (induction ex arbitrary: cs)
  case (Cons e ex)
  have shift: "zip ex [1..<Suc (length ex)] = map (\<lambda>(b, i). (b, Suc i)) (zip ex [0..<length ex])"
    by (simp add: map_Suc_upt [symmetric] zip_map2 del: upt_Suc)
  show ?case
  proof (cases cs)
    case (Cons c cs')
    then show ?thesis
      using Cons.IH [of cs'] shift
      by (auto simp: upt_conv_Cons list_all_iff split: prod.splits simp del: upt_Suc)
  qed (auto simp: upt_conv_Cons simp del: upt_Suc)
qed simp

lemma base58checkDecode_eq:
  assumes "set s \<subseteq> set B58_ALPHABET"
  shows "base58checkDecode sha s =
    (let full = b58_bytes s;
         payload = js_slice full 0 (int (length full) - 4);
         expected = take 4 (doubleSha256 sha payload)
     in if take (length expected) (js_slice_from full (int (length full) - 4)) = expected
        then Inr payload else Inl (JsError ''Bad checksum''))"
  using assms by (simp add: base58checkDecode_def b58_num_digits b58_bytes_def every_eq Let_def)

lemma with_checksum_long:
  "4 \<le> length (doubleSha256 sha p) \<Longrightarrow> with_checksum sha p = p @ take 4 (doubleSha256 sha p)"
  by (simp add: with_checksum_def Let_def)

lemma base58check_decode_encode:
  assumes "\<And>m. length (sha m) = 32"
  shows "base58checkDecode sha (base58checkEncode sha p) = Inr p"
proof -
  have "4 \<le> length (doubleSha256 sha p)" by (simp add: assms doubleSha256_def)
  then show ?thesis
    using b58_text_chars [of "with_checksum sha p"]
    by (simp add: base58checkEncode_text base58checkDecode_eq b58_bytes_text with_checksum_long
        js_slice_prefix js_slice_from_nonneg Let_def)
qed

lemma base58check_decode_full:
  assumes sha: "\<And>m. length (sha m) = 32" and dec: "base58checkDecode sha s = Inr p"
  shows "set s \<subseteq> set B58_ALPHABET \<and> b58_bytes s = with_checksum sha p"
proof -
  have s: "set s \<subseteq> set B58_ALPHABET"
    using dec by (auto simp: base58checkDecode_def b58_num_eq split: if_splits)
  define full where "full = b58_bytes s"
  define payload where "payload = js_slice full 0 (int (length full) - 4)"
  define cs where "cs = js_slice_from full (int (length full) - 4)"
  have len: "4 \<le> length (doubleSha256 sha payload)" by (simp add: sha doubleSha256_def)
  have eq: "take 4 cs = take 4 (doubleSha256 sha payload)" and p: "payload = p"
    using dec s len
    by (auto simp: base58checkDecode_eq Let_def full_def [symmetric] payload_def [symmetric]
        cs_def [symmetric] min_absorb2 split: if_splits)
  then have "4 \<le> length cs" using len by (metis length_take min.absorb2 min.cobounded1)
  moreover have "length cs \<le> length full" by (simp add: cs_def js_slice_from_def)
  ultimately have four: "4 \<le> length full" by simp
  then have "payload = take (length full - 4) full" "cs = drop (length full - 4) full"
    by (simp_all add: payload_def cs_def js_slice_prefix js_slice_from_nonneg nat_diff_distrib')
  then have "full = payload @ cs" "length cs = 4" using four by simp_all
  then show ?thesis using s eq p len by (simp add: full_def with_checksum_long)
qed

lemma base58check_encode_decode:
  assumes "\<And>m. length (sha m) = 32" and "base58checkDecode sha s = Inr p"
  shows "base58checkEncode sha p = s"
  using base58check_decode_full [OF assms] by (metis b58_text_bytes base58checkEncode_text)

section \<open>Properties\<close>

text \<open>
  C39: Base58Check round trip. For every payload, leading zero bytes included, decoding the
  encoding gives the payload back.
\<close>

theorem base58check_roundtrip:
  assumes "\<And>m. length (sha256 m) = 32"
  shows "base58checkDecode sha256 (base58checkEncode sha256 payload) = Inr payload"
  using assms by (rule base58check_decode_encode)

theorem base58check_roundtrip_witness:
  "base58checkDecode (\<lambda>m. replicate 32 7) (base58checkEncode (\<lambda>m. replicate 32 7) [0, 0, 28, 255])
     = Inr [0, 0, 28, 255]"
  by (rule base58check_roundtrip) simp

text \<open>
  Base58Check is not malleable. A string that decodes is exactly the encoding of the
  payload it decodes to, so no two strings decode to the same payload.
\<close>

theorem base58check_canonical:
  assumes "\<And>m. length (sha256 m) = 32" and "base58checkDecode sha256 str = Inr payload"
  shows "base58checkEncode sha256 payload = str"
  using assms by (rule base58check_encode_decode)

theorem base58check_canonical_witness:
  "base58checkDecode (\<lambda>m. replicate 32 0) ''11111'' = Inr [0]
     \<and> base58checkEncode (\<lambda>m. replicate 32 0) [0] = ''11111''"
proof -
  have d: "base58checkDecode (\<lambda>m. replicate 32 0) ''11111'' = Inr [0]" by code_simp
  show ?thesis using d base58check_canonical [OF _ d] by simp
qed

end
