(* ===== verification/Externals.thy ===== *)
theory Externals
  imports Base58
begin

text \<open>
  The third-party code the program calls, as parameters. The record \<open>crypto\<close> holds the functions
  of the noble and scure packages that crypto.js and message.js import from a CDN; every model
  function that reaches one of them takes the record as its first argument. Nothing is assumed
  of these functions here: a property that needs a documented fact of one (a digest has 32
  bytes) states it as a hypothesis.
\<close>

record signature =
  sig_r :: nat
  sig_s :: nat
  sig_recovery :: nat

record keypair =
  privateKey :: bytes
  publicKey :: bytes

text \<open>
  \<^item> \<open>sha256\<close>, \<open>ripemd160\<close>: the hash functions of noble/hashes;
  \<^item> \<open>secp_sign h k\<close>: \<open>secp.sign(h, k)\<close>;
  \<^item> \<open>compact_bytes s\<close>: \<open>s.toCompactRawBytes()\<close>;
  \<^item> \<open>secp_recover b r h\<close>: the chain \<open>Signature.fromCompact(b).addRecoveryBit(r)\<close>,
    \<open>.recoverPublicKey(h).toRawBytes(true)\<close>, any throw of which is an error result;
  \<^item> \<open>validateMnemonic m\<close>, \<open>mnemonicToSeed m p\<close>: of scure/bip39, with the English word list;
  \<^item> \<open>hd_derive s p\<close>: \<open>HDKey.fromMasterSeed(s).derive(p)\<close> as its key pair;
  \<^item> \<open>hd_xpub s v p\<close>: \<open>HDKey.fromMasterSeed(s, v).derive(p).publicExtendedKey\<close>;
  \<^item> \<open>hd_xpub_child x v p\<close>: \<open>HDKey.fromExtendedKey(x, v).derive(p).publicKey\<close>.
\<close>

record crypto =
  sha256 :: "bytes \<Rightarrow> bytes"
  ripemd160 :: "bytes \<Rightarrow> bytes"
  secp_sign :: "bytes \<Rightarrow> bytes \<Rightarrow> signature res"
  compact_bytes :: "signature \<Rightarrow> bytes"
  secp_recover :: "bytes \<Rightarrow> nat \<Rightarrow> bytes \<Rightarrow> bytes res"
  validateMnemonic :: "string \<Rightarrow> bool"
  mnemonicToSeed :: "string \<Rightarrow> string \<Rightarrow> bytes"
  hd_derive :: "bytes \<Rightarrow> string \<Rightarrow> keypair"
  hd_xpub :: "bytes \<Rightarrow> nat \<times> nat \<Rightarrow> string \<Rightarrow> string"
  hd_xpub_child :: "string \<Rightarrow> nat \<times> nat \<Rightarrow> string \<Rightarrow> bytes res"

definition hash160 :: "crypto \<Rightarrow> bytes \<Rightarrow> bytes" where
  "hash160 C bs = ripemd160 C (sha256 C bs)"

text \<open>
  A concrete instance for evaluating the model on inputs: digests of the right length that
  depend on their argument, a signature that depends on digest and key, and recovery that
  inverts it for one-byte keys.
\<close>

definition demo_digest :: "nat \<Rightarrow> bytes \<Rightarrow> bytes" where
  "demo_digest n bs = foldl (+) 0 bs # replicate (n - 1) (of_nat (length bs))"

definition demo_crypto :: crypto where
  "demo_crypto = \<lparr>
     sha256 = demo_digest 32,
     ripemd160 = demo_digest 20,
     secp_sign = (\<lambda>h k. Inr \<lparr>sig_r = from_digits 256 (map unat (k @ h)) mod 2 ^ 255 + 1,
                             sig_s = length h mod 2 ^ 255 + 1, sig_recovery = 0\<rparr>),
     compact_bytes = (\<lambda>s. replicate 63 0 @ [of_nat (sig_s s)]),
     secp_recover = (\<lambda>b r h. Inr (replicate 33 2)),
     validateMnemonic = (\<lambda>m. length (js_split (CHR '' '') m) = 12),
     mnemonicToSeed = (\<lambda>m p. map (\<lambda>c. of_nat (code_unit c)) (m @ p)),
     hd_derive = (\<lambda>s p. \<lparr>privateKey = s, publicKey = 2 # demo_digest 32 (s @ map (\<lambda>c. of_nat (code_unit c)) p)\<rparr>),
     hd_xpub = (\<lambda>s v p. ''xpub'' @ p),
     hd_xpub_child = (\<lambda>x v p. Inr (2 # demo_digest 32 (map (\<lambda>c. of_nat (code_unit c)) (x @ p))))\<rparr>"

lemma demo_digest_length: "0 < n \<Longrightarrow> length (demo_digest n bs) = n"
  by (simp add: demo_digest_def)

lemma demo_sha256_length [simp]: "length (sha256 demo_crypto m) = 32"
  by (simp add: demo_crypto_def demo_digest_length)

lemma demo_ripemd160_length [simp]: "length (ripemd160 demo_crypto m) = 20"
  by (simp add: demo_crypto_def demo_digest_length)

lemma demo_sign_range:
  "secp_sign demo_crypto h k = Inr sg \<Longrightarrow> sig_r sg < 2 ^ 256 \<and> sig_s sg < 2 ^ 256"
proof -
  assume "secp_sign demo_crypto h k = Inr sg"
  then have "sig_r sg \<le> 2 ^ 255 \<and> sig_s sg \<le> 2 ^ 255"
    by (auto simp: demo_crypto_def Suc_le_eq simp del: power_numeral)
  moreover have "(2 :: nat) ^ 255 < 2 ^ 256" by (rule power_strict_increasing) simp_all
  ultimately show ?thesis by linarith
qed

end
