(* ===== verification/Bech32.thy ===== *)
theory Bech32
  imports JsString
begin

text \<open>
  The bech32 code of web-wallet/crypto.js: the checksum polynomial, the regrouping of bits and
  the text form. JavaScript's bit operators work on 32-bit integers, so the accumulators are
  \<open>32 word\<close>s; the accumulator of \<open>convertBits\<close> is never masked and does overflow 32 bits on a
  20-byte program, and the properties show that the result is nevertheless that of exact
  arithmetic. Numbers in arrays are \<open>int\<close>, since \<open>indexOf\<close> puts \<open>-1\<close> there for a bad character.
\<close>

unbundle bit_operations_syntax

section \<open>Definitions\<close>

type_synonym u32 = "32 word"

definition BECH32_CHARSET :: string where
  "BECH32_CHARSET = ''qpzry9x8gf2tvdw0s3jn54khce6mua7l''"

definition GEN :: "u32 list" where
  "GEN = [0x3b6a57b2, 0x26508e6d, 0x1ea119fa, 0x3d4233dd, 0x2a1462b3]"

definition polymod_step :: "u32 \<Rightarrow> u32 \<Rightarrow> u32" where
  "polymod_step chk v =
     (let top = drop_bit 25 chk;
          chk1 = push_bit 5 (chk AND 0x1ffffff) XOR v
      in foldl (\<lambda>c i. if drop_bit i top AND 1 \<noteq> 0 then c XOR GEN ! i else c) chk1 [0, 1, 2, 3, 4])"

definition bech32Polymod :: "u32 list \<Rightarrow> u32" where
  "bech32Polymod values = foldl polymod_step 1 values"

definition bech32HrpExpand :: "string \<Rightarrow> int list" where
  "bech32HrpExpand hrp =
     map (\<lambda>c. int (code_unit c div 32)) hrp @ [0] @ map (\<lambda>c. int (code_unit c mod 32)) hrp"

definition bech32CreateChecksum :: "string \<Rightarrow> int list \<Rightarrow> int list" where
  "bech32CreateChecksum hrp data =
     (let values = bech32HrpExpand hrp @ data @ [0, 0, 0, 0, 0, 0];
          md = bech32Polymod (map word_of_int values) XOR 1
      in map (\<lambda>p. uint (drop_bit (5 * (5 - p)) md AND 31)) [0, 1, 2, 3, 4, 5])"

text \<open>\<open><<\<close> and \<open>>>>\<close> take their shift count modulo 32.\<close>

definition shl32 :: "u32 \<Rightarrow> nat \<Rightarrow> u32" where
  "shl32 x n = push_bit (n mod 32) x"

definition shr32 :: "u32 \<Rightarrow> nat \<Rightarrow> u32" where
  "shr32 x n = drop_bit (n mod 32) x"

text \<open>
  The inner loop \<open>while (bits >= toBits)\<close>; every call has \<open>toBits\<close> 5 or 8, and the guard
  \<open>0 < toBits\<close> only makes the recursion well-founded.
\<close>

fun emit :: "nat \<Rightarrow> u32 \<Rightarrow> nat \<Rightarrow> int list \<Rightarrow> nat \<times> int list" where
  "emit toBits acc bits ret =
     (if toBits \<le> bits \<and> 0 < toBits
      then emit toBits acc (bits - toBits)
             (ret @ [uint (shr32 acc (bits - toBits) AND (shl32 1 toBits - 1))])
      else (bits, ret))"

declare emit.simps [simp del]

fun convertBits_loop :: "nat \<Rightarrow> nat \<Rightarrow> u32 \<Rightarrow> nat \<Rightarrow> int list \<Rightarrow> int list \<Rightarrow> (u32 \<times> nat \<times> int list) res" where
  "convertBits_loop fromBits toBits acc bits ret [] = Inr (acc, bits, ret)"
| "convertBits_loop fromBits toBits acc bits ret (value # vs) =
     (if value < 0 \<or> signed_drop_bit fromBits (word_of_int value :: u32) \<noteq> 0
      then Inl (JsError ''Invalid data for bit conversion'')
      else let acc' = shl32 acc fromBits OR word_of_int value;
               (bits', ret') = emit toBits acc' (bits + fromBits) ret
           in convertBits_loop fromBits toBits acc' bits' ret' vs)"

definition convertBits :: "int list \<Rightarrow> nat \<Rightarrow> nat \<Rightarrow> bool \<Rightarrow> int list res" where
  "convertBits data fromBits toBits pad =
     bindE (convertBits_loop fromBits toBits 0 0 [] data) (\<lambda>(acc, bits, ret).
       let maxv = shl32 1 toBits - 1;
           rest = shl32 acc (toBits - bits) AND maxv
       in if pad then (if 0 < bits then Inr (ret @ [uint rest]) else Inr ret)
          else if fromBits \<le> bits \<or> rest \<noteq> 0
               then Inl (JsError ''Invalid padding in bit conversion'')
               else Inr ret)"

text \<open>\<open>BECH32_CHARSET[d]\<close>, joined: an undefined element joins as the empty string.\<close>

definition charset_at :: "int \<Rightarrow> string" where
  "charset_at d =
     (if 0 \<le> d then (case js_get BECH32_CHARSET (nat d) of None \<Rightarrow> [] | Some c \<Rightarrow> [c]) else [])"

definition bech32Encode :: "string \<Rightarrow> int list \<Rightarrow> string" where
  "bech32Encode hrp data =
     (let combined = data @ bech32CreateChecksum hrp data
      in hrp @ ''1'' @ concat (map charset_at combined))"

definition bech32Decode :: "string \<Rightarrow> string \<times> int list" where
  "bech32Decode bech =
     (let pos = lastIndexOf bech (CHR ''1'');
          hrp = js_slice bech 0 pos;
          data = map (indexOf BECH32_CHARSET) (js_slice bech (pos + 1) (-6))
      in (hrp, data))"

section \<open>The checksum polynomial is affine\<close>

text \<open>\<open>polymod_step chk v\<close> is a linear map of \<open>chk\<close>, XORed with \<open>v\<close>.\<close>

definition gen_mask :: "u32 \<Rightarrow> u32" where
  "gen_mask t = foldl (\<lambda>c i. if drop_bit i t AND 1 \<noteq> 0 then c XOR GEN ! i else c) 0 [0, 1, 2, 3, 4]"

lemma foldl_xor_shift:
  "foldl (\<lambda>c i. if P i then c XOR g i else c) (a XOR (b :: u32)) is
     = foldl (\<lambda>c i. if P i then c XOR g i else c) a is XOR b"
proof (induction "is" arbitrary: a)
  case (Cons i "is")
  have "(a XOR b) XOR g i = (a XOR g i) XOR b" by (simp add: ac_simps)
  then show ?case using Cons.IH [of "a XOR g i"] Cons.IH [of a] by simp
qed simp

lemma polymod_step_eq:
  "polymod_step chk v = push_bit 5 (chk AND 0x1ffffff) XOR gen_mask (drop_bit 25 chk) XOR v"
proof -
  have "polymod_step chk v = foldl (\<lambda>c i. if drop_bit i (drop_bit 25 chk) AND 1 \<noteq> 0 then c XOR GEN ! i else c)
      (0 XOR (push_bit 5 (chk AND 0x1ffffff) XOR v)) [0, 1, 2, 3, 4]"
    by (simp only: polymod_step_def Let_def xor.left_neutral)
  also have "\<dots> = gen_mask (drop_bit 25 chk) XOR (push_bit 5 (chk AND 0x1ffffff) XOR v)"
    by (simp only: foldl_xor_shift gen_mask_def)
  finally show ?thesis by (simp add: ac_simps)
qed

lemma polymod_step_xor:
  assumes "take_bit 25 d = d"
  shows "polymod_step (chk XOR d) (v XOR w) = polymod_step chk v XOR (push_bit 5 d XOR w)"
proof -
  have "drop_bit 25 d = drop_bit 25 (take_bit 25 d)" by (simp only: assms)
  also have "\<dots> = 0" by (simp add: drop_bit_take_bit)
  finally have top: "drop_bit 25 d = 0" .
  have m: "(0x1ffffff :: u32) = mask 25" by (simp add: mask_eq_exp_minus_1)
  have "(chk XOR d) AND 0x1ffffff = (chk AND 0x1ffffff) XOR d"
    using assms by (simp only: m take_bit_eq_mask [symmetric] take_bit_xor)
  then show ?thesis by (simp add: polymod_step_eq top push_bit_xor ac_simps)
qed

text \<open>Values below \<open>2^30\<close>: the working range of the checksum, far from the sign bit.\<close>

lemma take_bit_30_GEN: "i < 5 \<Longrightarrow> take_bit 30 (GEN ! i) = GEN ! i"
proof -
  have "\<forall>i<5. take_bit 30 (GEN ! i) = GEN ! i" by code_simp
  then show "i < 5 \<Longrightarrow> take_bit 30 (GEN ! i) = GEN ! i" by blast
qed

lemma take_bit_30_gen_mask: "take_bit 30 (gen_mask t) = gen_mask t"
  by (simp add: gen_mask_def take_bit_xor take_bit_30_GEN)

lemma polymod_step_range:
  assumes "take_bit 30 v = v"
  shows "take_bit 30 (polymod_step chk v) = polymod_step chk v"
proof -
  have m: "(0x1ffffff :: u32) = mask 25" by (simp add: mask_eq_exp_minus_1)
  have "take_bit 30 (push_bit 5 (chk AND 0x1ffffff)) = push_bit 5 (chk AND 0x1ffffff)"
    by (simp only: m take_bit_eq_mask [symmetric] take_bit_push_bit) simp
  then show ?thesis
    using assms by (simp add: polymod_step_eq take_bit_xor take_bit_30_gen_mask)
qed

lemma polymod_range:
  assumes "\<And>v. v \<in> set vs \<Longrightarrow> take_bit 30 v = v"
  shows "take_bit 30 (bech32Polymod vs) = bech32Polymod vs"
  using assms
proof (induction vs rule: rev_induct)
  case Nil
  have "take_bit 30 (1 :: u32) = 1" by code_simp
  then show ?case by (simp add: bech32Polymod_def)
next
  case (snoc v vs)
  then show ?case by (simp add: bech32Polymod_def polymod_step_range)
qed

section \<open>Created checksums verify\<close>

lemma regroup5: "push_bit 5 (drop_bit 5 x) XOR (x AND 31) = (x :: u32)"
proof -
  have m: "(31 :: u32) = mask 5" by (simp add: mask_eq_exp_minus_1)
  show ?thesis
    by (rule bit_eqI) (auto simp: m bit_simps)
qed

lemma polymod_regroup_step:
  assumes "take_bit 25 (drop_bit (n + 5) md) = drop_bit (n + 5) md"
  shows "polymod_step (s XOR drop_bit (n + 5) md) (drop_bit n md AND 31)
           = polymod_step s 0 XOR drop_bit n (md :: u32)"
proof -
  have "polymod_step (s XOR drop_bit (n + 5) md) (0 XOR (drop_bit n md AND 31))
      = polymod_step s 0 XOR (push_bit 5 (drop_bit 5 (drop_bit n md)) XOR (drop_bit n md AND 31))"
    using polymod_step_xor [OF assms, of s 0 "drop_bit n md AND 31"] by (simp add: add.commute)
  then show ?thesis by (simp only: regroup5 xor.left_neutral)
qed

lemma take_bit_drop_bit_30:
  assumes "take_bit 30 (md :: u32) = md" "5 \<le> n"
  shows "take_bit 25 (drop_bit n md) = drop_bit n md"
proof -
  have "bit md m \<longleftrightarrow> m < 30 \<and> bit md m" for m
    using assms(1) by (metis bit_take_bit_iff)
  then have *: "bit md m \<Longrightarrow> m < 30" for m by blast
  show ?thesis
    by (rule bit_eqI) (use assms(2) in \<open>auto simp: bit_simps dest: *\<close>)
qed

lemma polymod_checksum:
  assumes range: "take_bit 30 (foldl polymod_step s [0, 0, 0, 0, 0, 0]) = foldl polymod_step s [0, 0, 0, 0, 0, 0]"
    and md: "md = foldl polymod_step s [0, 0, 0, 0, 0, 0] XOR 1"
  shows "foldl polymod_step s (map (\<lambda>p. drop_bit (5 * (5 - p)) md AND 31) [0, 1, 2, 3, 4, 5]) = 1"
proof -
  have r: "take_bit 30 md = md"
  proof -
    have "take_bit 30 (1 :: u32) = 1" by code_simp
    with range show ?thesis by (simp only: md take_bit_xor)
  qed
  have z: "drop_bit 30 md = 0"
    by (metis drop_bit_take_bit r take_bit_0 diff_self_eq_0)
  note st = polymod_regroup_step [OF take_bit_drop_bit_30 [OF r]]
  define s1 where "s1 = polymod_step s 0"
  define s2 where "s2 = polymod_step s1 0"
  define s3 where "s3 = polymod_step s2 0"
  define s4 where "s4 = polymod_step s3 0"
  define s5 where "s5 = polymod_step s4 0"
  define s6 where "s6 = polymod_step s5 0"
  have "polymod_step s (drop_bit 25 md AND 31) = s1 XOR drop_bit 25 md"
    using st [of 25 s] z by (simp add: s1_def)
  moreover have "polymod_step (s1 XOR drop_bit 25 md) (drop_bit 20 md AND 31) = s2 XOR drop_bit 20 md"
    using st [of 20 s1] by (simp add: s2_def)
  moreover have "polymod_step (s2 XOR drop_bit 20 md) (drop_bit 15 md AND 31) = s3 XOR drop_bit 15 md"
    using st [of 15 s2] by (simp add: s3_def)
  moreover have "polymod_step (s3 XOR drop_bit 15 md) (drop_bit 10 md AND 31) = s4 XOR drop_bit 10 md"
    using st [of 10 s3] by (simp add: s4_def)
  moreover have "polymod_step (s4 XOR drop_bit 10 md) (drop_bit 5 md AND 31) = s5 XOR drop_bit 5 md"
    using st [of 5 s4] by (simp add: s5_def)
  moreover have "polymod_step (s5 XOR drop_bit 5 md) (md AND 31) = s6 XOR md"
    using st [of 0 s5] by (simp add: s6_def)
  moreover have "md = s6 XOR 1"
    by (simp add: md s1_def s2_def s3_def s4_def s5_def s6_def)
  ultimately show ?thesis by (simp add: xor.assoc [symmetric])
qed

section \<open>Regrouping bits\<close>

text \<open>
  The accumulator is the exact number modulo \<open>2^32\<close>, and a group is read while it still lies
  within the low 32 bits; so the groups are the digits of the exact number.
\<close>

definition digits_ok :: "nat \<Rightarrow> int list \<Rightarrow> bool" where
  "digits_ok w ds \<longleftrightarrow> (\<forall>d\<in>set ds. 0 \<le> d \<and> d < 2 ^ w)"

definition num_of :: "nat \<Rightarrow> int list \<Rightarrow> nat" where
  "num_of w ds = from_digits (2 ^ w) (map nat ds)"

lemma digits_ok_simps [simp]:
  "digits_ok w []" "digits_ok w (d # ds) \<longleftrightarrow> 0 \<le> d \<and> d < 2 ^ w \<and> digits_ok w ds"
  "digits_ok w (xs @ ys) \<longleftrightarrow> digits_ok w xs \<and> digits_ok w ys"
  by (auto simp: digits_ok_def)

lemma num_of_Nil [simp]: "num_of w [] = 0"
  by (simp add: num_of_def from_digits_def)

lemma num_of_snoc: "num_of w (ds @ [d]) = num_of w ds * 2 ^ w + nat d"
  by (simp add: num_of_def from_digits_def)

lemma num_of_foldl: "num_of w ds = foldl (\<lambda>n d. n * 2 ^ w + nat d) 0 ds"
  by (simp add: num_of_def from_digits_def foldl_map)

lemma num_of_inj:
  assumes "0 < w" "length xs = length ys" "digits_ok w xs" "digits_ok w ys" "num_of w xs = num_of w ys"
  shows "xs = ys"
proof -
  have "positional (2 ^ w)" using one_less_power [of "2 :: nat" w] assms(1) by unfold_locales simp
  then have "map nat xs = map nat ys"
    by (rule positional.from_digits_inj)
       (use assms in \<open>auto simp: num_of_def digits_ok_def nat_less_iff\<close>)
  then have "map (int \<circ> nat) xs = map (int \<circ> nat) ys" by (metis map_map)
  moreover have "map (int \<circ> nat) zs = zs" if "digits_ok w zs" for zs
    using that by (intro map_idI) (simp add: digits_ok_def)
  ultimately show ?thesis using assms(3,4) by metis
qed

lemma acc_step:
  assumes "0 \<le> v" "v < 2 ^ f" "f < 32"
  shows "shl32 (of_nat N) f OR word_of_int v = of_nat (N * 2 ^ f + nat v)"
proof -
  have nv: "word_of_int v = (of_nat (nat v) :: u32)" using assms(1) by (metis int_nat_eq of_int_of_nat_eq)
  have tb: "take_bit f (nat v) = nat v"
    using assms by (simp add: take_bit_nat_eq_self_iff nat_less_iff)
  have "push_bit f (of_nat N :: u32) AND of_nat (nat v) = 0"
  proof (rule bit_eqI)
    fix i
    have "bit (nat v) i \<Longrightarrow> i < f" using tb by (metis bit_take_bit_iff)
    then show "bit (push_bit f (of_nat N :: u32) AND of_nat (nat v)) i = bit (0 :: u32) i"
      by (auto simp: bit_simps)
  qed
  then have "push_bit f (of_nat N :: u32) OR of_nat (nat v) = push_bit f (of_nat N) + of_nat (nat v)"
    by (simp add: disjunctive_add_eq_or)
  then show ?thesis using assms(3) by (simp add: shl32_def nv push_bit_eq_mult)
qed

lemma value_check:
  assumes "0 \<le> v" "v < 2 ^ f" "f < 32"
  shows "signed_drop_bit f (word_of_int v :: u32) = 0"
proof -
  have "(2 :: int) ^ f \<le> 2 ^ 31" by (rule power_increasing) (use assms(3) in simp_all)
  then have "v < 2 ^ 31" using assms(2) by simp
  then have "sint (word_of_int v :: u32) = v"
    using assms(1) by (simp add: sint_sbintrunc' signed_take_bit_int_eq_self)
  moreover have "drop_bit f v = 0" using assms by (simp add: drop_bit_eq_div)
  ultimately have "sint (signed_drop_bit f (word_of_int v :: u32)) = 0"
    by (simp add: sint_signed_drop_bit_eq)
  then show ?thesis by (metis signed_eq_0_iff)
qed

lemma mask_shl: "0 < t \<Longrightarrow> t < 32 \<Longrightarrow> shl32 1 t - 1 = mask t"
  by (simp add: shl32_def mask_eq_exp_minus_1 push_bit_eq_mult)

lemma group_value:
  assumes "0 < t" "t < 32" "k + t \<le> 32"
  shows "uint (shr32 (of_nat N) k AND (shl32 1 t - 1)) = int (N div 2 ^ k mod 2 ^ t)"
proof -
  have k: "k mod 32 = k" using assms by simp
  have "uint (drop_bit k (of_nat N :: u32) AND mask t) = take_bit t (drop_bit k (int N))"
    by (rule bit_eqI) (use assms in \<open>auto simp: bit_simps\<close>)
  also have "\<dots> = int (N div 2 ^ k mod 2 ^ t)"
    by (simp add: take_bit_eq_mod drop_bit_eq_div zdiv_int zmod_int)
  finally show ?thesis using assms by (simp add: shr32_def k mask_shl)
qed

lemma emit_spec:
  assumes "0 < t" "t < 32" "p \<le> 32" "digits_ok t ret" "num_of t ret = N div 2 ^ p"
  shows "\<exists>ret'. emit t (of_nat N) p ret = (p mod t, ret') \<and> digits_ok t ret'
           \<and> length ret' = length ret + p div t \<and> num_of t ret' = N div 2 ^ (p mod t)"
  using assms
proof (induction p arbitrary: ret rule: less_induct)
  case (less p)
  show ?case
  proof (cases "t \<le> p")
    case False
    then show ?thesis using less.prems by (simp add: emit.simps)
  next
    case True
    define d where "d = uint (shr32 (of_nat N) (p - t) AND (shl32 1 t - 1))"
    have d: "d = int (N div 2 ^ (p - t) mod 2 ^ t)"
      using less.prems True by (simp add: d_def group_value)
    have "N div 2 ^ p * 2 ^ t + N div 2 ^ (p - t) mod 2 ^ t = N div 2 ^ (p - t)"
    proof -
      have "N div 2 ^ p = N div 2 ^ (p - t) div 2 ^ t"
        using True by (simp add: div_mult2_eq [symmetric] power_add [symmetric])
      then show ?thesis by (simp add: div_mult_mod_eq)
    qed
    then have "num_of t (ret @ [d]) = N div 2 ^ (p - t)"
      using less.prems by (simp add: num_of_snoc d nat_int)
    moreover have "digits_ok t (ret @ [d])" using less.prems by (simp add: d zmod_int)
    moreover have "p - t < p" using less.prems True by simp
    ultimately obtain ret' where "emit t (of_nat N) (p - t) (ret @ [d]) = ((p - t) mod t, ret')"
      "digits_ok t ret'" "length ret' = length (ret @ [d]) + (p - t) div t"
      "num_of t ret' = N div 2 ^ ((p - t) mod t)"
      using less.IH [of "p - t" "ret @ [d]"] less.prems by auto
    moreover have "(p - t) mod t = p mod t" "p div t = Suc ((p - t) div t)"
      using True less.prems by (simp_all add: le_mod_geq le_div_geq)
    ultimately show ?thesis
      using True less.prems by (simp add: emit.simps [of t _ p] d_def [symmetric])
  qed
qed

lemma convertBits_loop_spec:
  assumes "0 < t" "t < 32" "f < 32" "t + f \<le> 32" "bits < t"
    and "digits_ok f vs" "digits_ok t ret" "num_of t ret = N div 2 ^ bits"
  shows "\<exists>ret'. convertBits_loop f t (of_nat N) bits ret vs
             = Inr (of_nat (foldl (\<lambda>n v. n * 2 ^ f + nat v) N vs), (bits + f * length vs) mod t, ret')
           \<and> digits_ok t ret' \<and> length ret' = length ret + (bits + f * length vs) div t
           \<and> num_of t ret' = foldl (\<lambda>n v. n * 2 ^ f + nat v) N vs div 2 ^ ((bits + f * length vs) mod t)"
  using assms
proof (induction vs arbitrary: N bits ret)
  case Nil
  then show ?case by simp
next
  case (Cons v vs)
  define N' where "N' = N * 2 ^ f + nat v"
  have v: "0 \<le> v" "v < 2 ^ f" using Cons.prems by simp_all
  have acc: "shl32 (of_nat N) f OR word_of_int v = of_nat N'"
    using acc_step [OF v] Cons.prems by (simp add: N'_def)
  have nv: "nat v < 2 ^ f" using v by (simp add: nat_less_iff)
  have "(2 :: nat) ^ (bits + f) = 2 ^ f * 2 ^ bits" by (simp add: power_add)
  then have "N' div 2 ^ (bits + f) = (N * 2 ^ f + nat v) div 2 ^ f div 2 ^ bits"
    by (simp only: N'_def div_mult2_eq)
  also have "\<dots> = N div 2 ^ bits" using nv by simp
  finally have "num_of t ret = N' div 2 ^ (bits + f)" using Cons.prems by simp
  moreover have "bits + f \<le> 32" using Cons.prems by simp
  ultimately obtain ret1 where r1: "emit t (of_nat N') (bits + f) ret = ((bits + f) mod t, ret1)"
      "digits_ok t ret1" "length ret1 = length ret + (bits + f) div t"
      "num_of t ret1 = N' div 2 ^ ((bits + f) mod t)"
    using emit_spec [of t "bits + f" ret N'] Cons.prems by auto
  have lt: "(bits + f) mod t < t" using Cons.prems by simp
  obtain ret' where r': "convertBits_loop f t (of_nat N') ((bits + f) mod t) ret1 vs
      = Inr (of_nat (foldl (\<lambda>n v. n * 2 ^ f + nat v) N' vs), ((bits + f) mod t + f * length vs) mod t, ret')"
      "digits_ok t ret'" "length ret' = length ret1 + ((bits + f) mod t + f * length vs) div t"
      "num_of t ret' = foldl (\<lambda>n v. n * 2 ^ f + nat v) N' vs div 2 ^ (((bits + f) mod t + f * length vs) mod t)"
    using Cons.IH [OF Cons.prems(1-4) lt _ r1(2,4)] Cons.prems(6) by auto
  have "((bits + f) mod t + f * length vs) mod t = (bits + f * length (v # vs)) mod t"
    by (simp add: mod_add_left_eq add.assoc)
  moreover have "(bits + f) div t + ((bits + f) mod t + f * length vs) div t = (bits + f * length (v # vs)) div t"
  proof -
    define X q where "X = (bits + f) mod t + f * length vs" and "q = (bits + f) div t"
    have "bits + f * length (v # vs) = X + q * t"
      using div_mult_mod_eq [of "bits + f" t] by (simp add: X_def q_def)
    then have "(bits + f * length (v # vs)) div t = (X + q * t) div t" by (rule arg_cong)
    also have "\<dots> = q + X div t" using Cons.prems(1) by simp
    finally show ?thesis by (simp add: X_def q_def)
  qed
  ultimately show ?case
    using r' r1 v acc value_check [OF v] Cons.prems by (simp add: N'_def Let_def)
qed

lemma rest_value:
  assumes "0 < t" "t < 32" "r < t"
  shows "uint (shl32 (of_nat N) (t - r) AND (shl32 1 t - 1)) = int (N mod 2 ^ r * 2 ^ (t - r))"
proof -
  have k: "(t - r) mod 32 = t - r" using assms by simp
  have "uint (push_bit (t - r) (of_nat N :: u32) AND mask t) = take_bit t (push_bit (t - r) (int N))"
    by (rule bit_eqI) (use assms in \<open>auto simp: bit_simps\<close>)
  also have "\<dots> = push_bit (t - r) (take_bit r (int N))"
    using assms by (simp add: take_bit_push_bit)
  also have "\<dots> = int (N mod 2 ^ r * 2 ^ (t - r))"
    by (simp add: take_bit_eq_mod push_bit_eq_mult zmod_int)
  finally show ?thesis
    unfolding mask_shl [OF assms(1,2)] by (simp only: shl32_def k)
qed

lemma convertBits_loop_start:
  assumes "0 < t" "t < 32" "f < 32" "t + f \<le> 32" "digits_ok f vs"
  obtains ret where
    "convertBits_loop f t 0 0 [] vs = Inr (of_nat (num_of f vs), f * length vs mod t, ret)"
    "digits_ok t ret" "length ret = f * length vs div t"
    "num_of t ret = num_of f vs div 2 ^ (f * length vs mod t)"
  using convertBits_loop_spec [of t f 0 vs "[]" 0] assms by (auto simp: num_of_foldl)

lemma convertBits_pad:
  assumes "0 < t" "t < 32" "f < 32" "t + f \<le> 32" "digits_ok f vs"
    and r: "r = f * length vs mod t" and pad: "pad = (if r = 0 then 0 else t - r)"
  obtains ret where "convertBits vs f t True = Inr ret" "digits_ok t ret"
    "t * length ret = f * length vs + pad" "num_of t ret = num_of f vs * 2 ^ pad"
proof -
  define N where "N = num_of f vs"
  obtain ret where ret: "convertBits_loop f t 0 0 [] vs = Inr (of_nat N, r, ret)"
    "digits_ok t ret" "length ret = f * length vs div t" "num_of t ret = N div 2 ^ r"
    using convertBits_loop_start [OF assms(1-5)] r N_def by metis
  have B: "t * (f * length vs div t) + r = f * length vs" by (simp add: r)
  show thesis
  proof (cases "r = 0")
    case True
    show thesis
      by (rule that [of ret]) (use ret B True pad N_def in \<open>simp_all add: convertBits_def\<close>)
  next
    case False
    have rt: "r < t" using assms(1) by (simp add: r)
    define d where "d = N mod 2 ^ r * 2 ^ (t - r)"
    have "N mod 2 ^ r < 2 ^ r" by simp
    then have "d < 2 ^ r * 2 ^ (t - r)" by (simp add: d_def del: mod_less_divisor)
    also have "(2 :: nat) ^ r * 2 ^ (t - r) = 2 ^ t" using rt by (simp add: power_add [symmetric])
    finally have d: "d < 2 ^ t" .
    have "N div 2 ^ r * 2 ^ t + d = (N div 2 ^ r * 2 ^ r + N mod 2 ^ r) * 2 ^ (t - r)"
      using rt by (simp add: d_def distrib_right mult.assoc power_add [symmetric])
    then have num: "num_of t (ret @ [int d]) = N * 2 ^ (t - r)"
      using ret by (simp add: num_of_snoc div_mult_mod_eq)
    have "convertBits vs f t True = Inr (ret @ [int d])"
      using ret(1) False rt assms(1,2) by (simp add: convertBits_def rest_value d_def)
    moreover have "digits_ok t (ret @ [int d])"
      using ret d by (simp add: of_nat_less_iff [symmetric] del: of_nat_less_iff)
    moreover have "t * length (ret @ [int d]) = f * length vs + pad"
      using ret B False pad rt by (simp add: distrib_left)
    ultimately show thesis using that num False pad N_def by simp
  qed
qed

lemma convertBits_nopad:
  assumes "0 < t" "t < 32" "f < 32" "t + f \<le> 32" "digits_ok f vs"
    and r: "r = f * length vs mod t"
  obtains ret where
    "convertBits vs f t False =
       (if f \<le> r \<or> num_of f vs mod 2 ^ r \<noteq> 0
        then Inl (JsError ''Invalid padding in bit conversion'') else Inr ret)"
    "digits_ok t ret" "length ret = f * length vs div t" "num_of t ret = num_of f vs div 2 ^ r"
proof -
  obtain ret where ret: "convertBits_loop f t 0 0 [] vs = Inr (of_nat (num_of f vs), r, ret)"
    "digits_ok t ret" "length ret = f * length vs div t" "num_of t ret = num_of f vs div 2 ^ r"
    using convertBits_loop_start [OF assms(1-5)] r by metis
  have rt: "r < t" using assms(1) by (simp add: r)
  define w where "w = shl32 (of_nat (num_of f vs)) (t - r) AND (shl32 1 t - 1)"
  have "uint w = int (num_of f vs mod 2 ^ r * 2 ^ (t - r))"
    unfolding w_def by (rule rest_value [OF assms(1,2) rt])
  then have "w = 0 \<longleftrightarrow> num_of f vs mod 2 ^ r = 0" by (auto simp: uint_0_iff [symmetric] simp del: uint_0_iff)
  then show thesis
    using that ret by (simp add: convertBits_def w_def [symmetric])
qed

section \<open>The text form\<close>

lemma CHARSET_length [simp]: "length BECH32_CHARSET = 32"
  by (simp add: BECH32_CHARSET_def)

lemma CHARSET_distinct [simp]: "distinct BECH32_CHARSET"
  by code_simp

lemma CHARSET_no_one: "CHR ''1'' \<notin> set BECH32_CHARSET"
  by (simp add: BECH32_CHARSET_def)

lemma charset_text:
  "digits_ok 5 ds \<Longrightarrow> concat (map charset_at ds) = map (\<lambda>d. BECH32_CHARSET ! nat d) ds"
  by (induction ds) (auto simp: charset_at_def js_get_def)

lemma charset_text_no_one: "digits_ok 5 ds \<Longrightarrow> CHR ''1'' \<notin> set (map (\<lambda>d. BECH32_CHARSET ! nat d) ds)"
proof (induction ds)
  case (Cons d ds)
  then have "nat d < length BECH32_CHARSET" by (simp add: nat_less_iff)
  then have "BECH32_CHARSET ! nat d \<in> set BECH32_CHARSET" by (rule nth_mem)
  then show ?case using Cons CHARSET_no_one by auto
qed simp

lemma charset_index: "digits_ok 5 ds \<Longrightarrow> map (indexOf BECH32_CHARSET) (map (\<lambda>d. BECH32_CHARSET ! nat d) ds) = ds"
  by (induction ds) (simp_all add: indexOf_nth nat_less_iff)

lemma indexOf_from_append:
  "x \<notin> set ys \<Longrightarrow> indexOf_from i x (ys @ x # zs) = i + int (length ys)"
  by (induction ys arbitrary: i) auto

lemma lastIndexOf_sep: "c \<notin> set ys \<Longrightarrow> lastIndexOf (xs @ c # ys) c = int (length xs)"
  using indexOf_from_append [of c "rev ys" 0 "rev xs"]
  by (simp add: lastIndexOf_def indexOf_def)

lemma bech32Decode_parts:
  assumes "CHR ''1'' \<notin> set body" "length chk = 6" "CHR ''1'' \<notin> set chk"
  shows "bech32Decode (hrp @ ''1'' @ body @ chk) = (hrp, map (indexOf BECH32_CHARSET) body)"
proof -
  have pos: "lastIndexOf (hrp @ CHR ''1'' # body @ chk) (CHR ''1'') = int (length hrp)"
    by (rule lastIndexOf_sep) (use assms in simp)
  have "js_slice (hrp @ CHR ''1'' # body @ chk) (int (Suc (length hrp))) (- int 6)
      = take (length body) (body @ chk)"
    by (subst js_slice_drop_last) (simp_all add: assms)
  then show ?thesis
    using pos by (simp add: bech32Decode_def js_slice_prefix Let_def add.commute)
qed

lemma bech32CreateChecksum_ok:
  "length (bech32CreateChecksum hrp data) = 6 \<and> digits_ok 5 (bech32CreateChecksum hrp data)"
proof -
  have "uint (x AND 31 :: u32) < 32" for x
  proof -
    have "x AND 31 \<le> (31 :: u32)" by (simp add: word_and_le1)
    then have "uint (x AND 31) \<le> uint (31 :: u32)" by (simp only: word_le_def)
    then show ?thesis by simp
  qed
  then show ?thesis by (simp add: bech32CreateChecksum_def Let_def)
qed

lemma bech32_decode_encode:
  assumes "digits_ok 5 data"
  shows "bech32Decode (bech32Encode hrp data) = (hrp, data)"
proof -
  let ?t = "map (\<lambda>d. BECH32_CHARSET ! nat d)"
  have "bech32Encode hrp data = hrp @ ''1'' @ ?t data @ ?t (bech32CreateChecksum hrp data)"
    using assms bech32CreateChecksum_ok [of hrp data]
    by (simp add: bech32Encode_def charset_text Let_def)
  then show ?thesis
    using bech32Decode_parts [of "?t data" "?t (bech32CreateChecksum hrp data)" hrp]
      charset_text_no_one [OF assms] bech32CreateChecksum_ok [of hrp data]
      charset_text_no_one [of "bech32CreateChecksum hrp data"] charset_index [OF assms]
    by simp
qed

lemma small_take_bit: "0 \<le> v \<Longrightarrow> v < 2 ^ 30 \<Longrightarrow> take_bit 30 (word_of_int v :: u32) = word_of_int v"
  by (rule bit_eqI) (use take_bit_int_eq_self [of v 30] in \<open>auto simp: bit_simps, metis bit_take_bit_iff\<close>)

lemma hrpExpand_range: "v \<in> set (bech32HrpExpand hrp) \<Longrightarrow> 0 \<le> v \<and> v < 2 ^ 30"
proof -
  have "code_unit c div 32 < 2 ^ 30 \<and> code_unit c mod 32 < 2 ^ 30" for c
    using code_unit_less [of c] by auto
  then have "int (code_unit c div 32) < 2 ^ 30 \<and> int (code_unit c mod 32) < 2 ^ 30" for c
    by (metis of_nat_less_iff of_nat_numeral of_nat_power)
  then show "v \<in> set (bech32HrpExpand hrp) \<Longrightarrow> 0 \<le> v \<and> v < 2 ^ 30"
    by (auto simp: bech32HrpExpand_def)
qed

lemma bech32_checksum_verifies:
  assumes "digits_ok 5 data"
  shows "bech32Polymod (map word_of_int (bech32HrpExpand hrp @ data @ bech32CreateChecksum hrp data)) = 1"
proof -
  define pre where "pre = map (word_of_int :: int \<Rightarrow> u32) (bech32HrpExpand hrp @ data)"
  define s where "s = foldl polymod_step 1 pre"
  have pre: "take_bit 30 v = v" if vp: "v \<in> set pre" for v
  proof -
    obtain i where "v = word_of_int i" "i \<in> set (bech32HrpExpand hrp) \<or> i \<in> set data"
      using vp by (auto simp: pre_def)
    moreover from this have "0 \<le> i \<and> i < 2 ^ 30"
      using assms hrpExpand_range [of i hrp] by (auto simp: digits_ok_def)
    ultimately have "v = word_of_int i" "0 \<le> i" "i < 2 ^ 30" by auto
    then show ?thesis using small_take_bit by blast
  qed
  have P: "foldl polymod_step s [0, 0, 0, 0, 0, 0] = bech32Polymod (pre @ [0, 0, 0, 0, 0, 0])"
    by (simp add: bech32Polymod_def s_def)
  have "take_bit 30 (bech32Polymod (pre @ [0, 0, 0, 0, 0, 0])) = bech32Polymod (pre @ [0, 0, 0, 0, 0, 0])"
    by (rule polymod_range) (use pre in auto)
  then have "foldl polymod_step s (map (\<lambda>p. drop_bit (5 * (5 - p)) (foldl polymod_step s [0, 0, 0, 0, 0, 0] XOR 1) AND 31)
      [0, 1, 2, 3, 4, 5]) = 1"
    by (intro polymod_checksum) (simp_all only: P)
  then show ?thesis
    by (simp add: bech32Polymod_def bech32CreateChecksum_def s_def pre_def Let_def)
qed

section \<open>Reference regrouping\<close>

text \<open>
  The specification of \<open>convertBits\<close> in exact arithmetic: the number is written in \<open>k\<close> groups
  of \<open>t\<close> bits, most significant first.
\<close>

definition exact_groups :: "nat \<Rightarrow> nat \<Rightarrow> nat \<Rightarrow> int list" where
  "exact_groups t k n = map (\<lambda>i. int (n div 2 ^ (t * (k - 1 - i)) mod 2 ^ t)) [0..<k]"

definition byte_ints :: "bytes \<Rightarrow> int list" where
  "byte_ints bs = map (\<lambda>b. int (unat b)) bs"

lemma byte_ints_ok [simp]: "digits_ok 8 (byte_ints bs)"
proof -
  have "int (unat b) < 256" for b :: byte using unat_byte_less [of b] by linarith
  then show ?thesis by (auto simp: digits_ok_def byte_ints_def)
qed

lemma byte_ints_length [simp]: "length (byte_ints bs) = length bs"
  by (simp add: byte_ints_def)

lemma byte_ints_back: "map word_of_int (byte_ints bs) = bs"
  by (simp add: byte_ints_def comp_def)

lemma exact_groups_ok [simp]: "digits_ok t (exact_groups t k n)" "length (exact_groups t k n) = k"
  by (auto simp: digits_ok_def exact_groups_def zmod_int)

lemma exact_groups_Suc: "exact_groups t (Suc k) n = exact_groups t k (n div 2 ^ t) @ [int (n mod 2 ^ t)]"
proof -
  have "n div 2 ^ (t * (k - i)) = n div 2 ^ t div 2 ^ (t * (k - 1 - i))" if "i < k" for i
  proof -
    have "t * (k - i) = t + t * (k - 1 - i)"
      using that by (simp add: right_diff_distrib' ) (metis Suc_diff_Suc add.commute diff_Suc_1 diff_right_commute mult_Suc_right right_diff_distrib')
    then show ?thesis by (simp add: power_add div_mult2_eq)
  qed
  then show ?thesis by (simp add: exact_groups_def)
qed

lemma num_of_exact_groups: "n < 2 ^ (t * k) \<Longrightarrow> num_of t (exact_groups t k n) = n"
proof (induction k arbitrary: n)
  case 0
  then show ?case by (simp add: exact_groups_def)
next
  case (Suc k)
  have "n div 2 ^ t < 2 ^ (t * k)"
    using Suc.prems by (simp add: power_add less_mult_imp_div_less mult.commute)
  then have "num_of t (exact_groups t k (n div 2 ^ t)) = n div 2 ^ t" by (rule Suc.IH)
  then show ?case by (simp add: exact_groups_Suc num_of_snoc div_mult_mod_eq)
qed

lemma num_of_bound: "digits_ok w ds \<Longrightarrow> num_of w ds < 2 ^ (w * length ds)"
proof (induction ds rule: rev_induct)
  case (snoc d ds)
  then have "num_of w ds + 1 \<le> 2 ^ (w * length ds)" "nat d < 2 ^ w" by (simp_all add: nat_less_iff)
  then have "num_of w ds * 2 ^ w + nat d < (num_of w ds + 1) * 2 ^ w" by simp
  also have "\<dots> \<le> 2 ^ (w * length ds) * 2 ^ w"
    by (rule mult_right_mono) (use \<open>num_of w ds + 1 \<le> 2 ^ (w * length ds)\<close> in simp_all)
  finally show ?case by (simp add: num_of_snoc power_add mult.commute)
qed simp

lemma exact_groups_num_of: "0 < w \<Longrightarrow> digits_ok w ds \<Longrightarrow> exact_groups w (length ds) (num_of w ds) = ds"
  by (rule num_of_inj [of w]) (simp_all add: num_of_exact_groups num_of_bound)

lemma convertBits_to5:
  fixes bs :: bytes
  defines "k \<equiv> (8 * length bs + 4) div 5"
  shows "convertBits (byte_ints bs) 8 5 True
           = Inr (exact_groups 5 k (num_of 8 (byte_ints bs) * 2 ^ (5 * k - 8 * length bs)))"
proof -
  define r pad where "r = 8 * length bs mod 5" and "pad = (if r = 0 then 0 else 5 - r)"
  obtain ret where ret: "convertBits (byte_ints bs) 8 5 True = Inr ret" "digits_ok 5 ret"
    "5 * length ret = 8 * length bs + pad" "num_of 5 ret = num_of 8 (byte_ints bs) * 2 ^ pad"
    using convertBits_pad [of 5 8 "byte_ints bs" r pad] by (auto simp: r_def pad_def)
  have "length ret = k" using ret(3) by (simp add: k_def r_def pad_def split: if_splits)
  moreover from this ret(3) have "pad = 5 * k - 8 * length bs" by simp
  ultimately show ?thesis
    using ret exact_groups_num_of [of 5 ret] by simp
qed

lemma convertBits_roundtrip_bytes:
  "bindE (convertBits (byte_ints bs) 8 5 True) (\<lambda>g. convertBits g 5 8 False) = Inr (byte_ints bs)"
proof -
  define r pad where "r = 8 * length bs mod 5" and "pad = (if r = 0 then 0 else 5 - r)"
  define N where "N = num_of 8 (byte_ints bs)"
  obtain g where g: "convertBits (byte_ints bs) 8 5 True = Inr g" "digits_ok 5 g"
    "5 * length g = 8 * length bs + pad" "num_of 5 g = N * 2 ^ pad"
    using convertBits_pad [of 5 8 "byte_ints bs" r pad] by (auto simp: r_def pad_def N_def)
  have pad5: "pad < 5" by (auto simp: pad_def)
  have rp: "5 * length g mod 8 = pad" using g(3) pad5 by simp
  obtain ret where ret: "convertBits g 5 8 False =
       (if 5 \<le> pad \<or> num_of 5 g mod 2 ^ pad \<noteq> 0
        then Inl (JsError ''Invalid padding in bit conversion'') else Inr ret)"
    "digits_ok 8 ret" "length ret = 5 * length g div 8" "num_of 8 ret = num_of 5 g div 2 ^ pad"
    using convertBits_nopad [of 8 5 g pad] g(2) rp by auto
  have "length ret = length bs" using ret(3) g(3) pad5 by simp
  then have "ret = byte_ints bs"
    by (intro num_of_inj [of 8]) (simp_all add: ret(2,4) g(4) N_def)
  then show ?thesis using g ret(1) pad5 by simp
qed

section \<open>Properties\<close>

text \<open>
  Regrouping in 32-bit arithmetic is exact. For every byte string, of any length,
  \<open>convertBits(\<dots>, 8, 5, true)\<close> gives the 5-bit groups of the exact number padded with zero bits to
  a multiple of five, although its 32-bit accumulator wraps around.
\<close>

theorem convertBits_exact:
  "convertBits (byte_ints bs) 8 5 True
     = Inr (exact_groups 5 ((8 * length bs + 4) div 5)
         (num_of 8 (byte_ints bs) * 2 ^ (5 * ((8 * length bs + 4) div 5) - 8 * length bs)))"
  by (rule convertBits_to5)

text \<open>
  Regrouping round trip. Converting any byte string to 5-bit groups with padding and back
  without padding succeeds and returns the same bytes.
\<close>

theorem convertBits_roundtrip:
  "bindE (convertBits (byte_ints bs) 8 5 True) (\<lambda>g. convertBits g 5 8 False) = Inr (byte_ints bs)"
  by (rule convertBits_roundtrip_bytes)

text \<open>
  The created checksum satisfies the BIP173 verification equation: over the expanded prefix,
  the data and the six checksum values, the polynomial is 1.
\<close>

theorem bech32CreateChecksum_valid:
  assumes "digits_ok 5 data"
  shows "bech32Polymod (map word_of_int (bech32HrpExpand hrp @ data @ bech32CreateChecksum hrp data)) = 1"
  using assms by (rule bech32_checksum_verifies)

theorem bech32CreateChecksum_valid_witness:
  "bech32Polymod (map word_of_int (bech32HrpExpand ''cac'' @ [0, 31, 7] @ bech32CreateChecksum ''cac'' [0, 31, 7])) = 1"
  by (rule bech32CreateChecksum_valid) simp

end
