(* ===== verification/Address.thy ===== *)
theory Address
  imports Externals Bech32
begin

text \<open>
  Networks and addresses of web-wallet/crypto.js: the two network records, the three address
  constructors, \<open>decodeAddress\<close>, the three output scripts and the derivation paths. The
  properties are the round trips, the separation of the two networks, and two defects of
  \<open>decodeAddress\<close>: it never checks the bech32 checksum, and it takes some base58 addresses of the
  main network for bech32 ones.
\<close>

section \<open>Definitions\<close>

record network =
  p2pkhVersion :: byte
  p2shVersion :: byte
  wifVersion :: byte
  bech32Hrp :: string
  bip44CoinType :: nat
  bip32Versions :: "nat \<times> nat"

definition mainnet :: network where
  "mainnet = \<lparr>p2pkhVersion = 0x1c, p2shVersion = 0x3f, wifVersion = 0x9c, bech32Hrp = ''cac'',
     bip44CoinType = 3377, bip32Versions = (0x0488ade4, 0x0488b21e)\<rparr>"

definition testnet :: network where
  "testnet = \<lparr>p2pkhVersion = 0x6f, p2shVersion = 0xc4, wifVersion = 0xef, bech32Hrp = ''tcac'',
     bip44CoinType = 1, bip32Versions = (0x04358394, 0x043587cf)\<rparr>"

text \<open>\<open>NETWORKS[name]\<close>; the state's network name is always one of the two.\<close>

definition NETWORKS :: "string \<Rightarrow> network option" where
  "NETWORKS name = (if name = ''mainnet'' then Some mainnet
                    else if name = ''testnet'' then Some testnet else None)"

text \<open>
  \<open>new Uint8Array(21)\<close> with a version byte and a hash stored from offset 1: a longer hash makes
  \<open>set\<close> throw, a shorter one leaves zeros.
\<close>

definition versioned :: "byte \<Rightarrow> bytes \<Rightarrow> bytes res" where
  "versioned v h =
     (if 20 < length h then Inl (RangeErr ''offset is out of bounds'')
      else Inr (v # h @ replicate (20 - length h) 0))"

definition p2pkhAddress :: "crypto \<Rightarrow> bytes \<Rightarrow> network \<Rightarrow> string res" where
  "p2pkhAddress C pubkeyHash20 net =
     bindE (versioned (p2pkhVersion net) pubkeyHash20) (\<lambda>payload. Inr (base58checkEncode (sha256 C) payload))"

definition p2shAddress :: "crypto \<Rightarrow> bytes \<Rightarrow> network \<Rightarrow> string res" where
  "p2shAddress C scriptHash20 net =
     bindE (versioned (p2shVersion net) scriptHash20) (\<lambda>payload. Inr (base58checkEncode (sha256 C) payload))"

definition p2wpkhAddress :: "bytes \<Rightarrow> network \<Rightarrow> string res" where
  "p2wpkhAddress pubkeyHash20 net =
     bindE (convertBits (byte_ints pubkeyHash20) 8 5 True) (\<lambda>program.
       Inr (bech32Encode (bech32Hrp net) ([0] @ program)))"

datatype AddressType = P2pkh | P2sh | P2wpkh

definition decodeAddress :: "crypto \<Rightarrow> string \<Rightarrow> network \<Rightarrow> (AddressType \<times> bytes) res" where
  "decodeAddress C address net =
     (if startsWith (toLowerCase address) (bech32Hrp net @ ''1'') then
        (let (hrp, data) = bech32Decode address
         in if hrp \<noteq> bech32Hrp net then Inl (JsError ''Address is for a different network'')
            else bindE (convertBits (js_slice_from data 1) 5 8 False) (\<lambda>program.
              if js_get data 0 \<noteq> Some 0 \<or> length program \<noteq> 20
              then Inl (JsError ''Unsupported witness version/program length'')
              else Inr (P2wpkh, map word_of_int program)))
      else
        bindE (base58checkDecode (sha256 C) address) (\<lambda>decoded.
          if length decoded \<noteq> 21 then Inl (JsError ''Invalid Base58Check address length'')
          else let version = decoded ! 0; payload = js_slice_from decoded 1
               in if version = p2pkhVersion net then Inr (P2pkh, payload)
                  else if version = p2shVersion net then Inr (P2sh, payload)
                  else Inl (JsError (''Address version byte '' @ dec (unat version)
                                     @ '' does not match this network''))))"

definition p2pkhScriptPubKey :: "bytes \<Rightarrow> bytes" where
  "p2pkhScriptPubKey pubkeyHash20 = [0x76, 0xa9, 0x14] @ pubkeyHash20 @ [0x88, 0xac]"

definition p2shScriptPubKey :: "bytes \<Rightarrow> bytes" where
  "p2shScriptPubKey scriptHash20 = [0xa9, 0x14] @ scriptHash20 @ [0x87]"

definition p2wpkhScriptPubKey :: "bytes \<Rightarrow> bytes" where
  "p2wpkhScriptPubKey pubkeyHash20 = [0x00, 0x14] @ pubkeyHash20"

subsection \<open>Key derivation\<close>

text \<open>The path \<open>m/44'/coin'/0'/change/index\<close>.\<close>

definition bip44_path :: "network \<Rightarrow> bool \<Rightarrow> nat \<Rightarrow> string" where
  "bip44_path net change index =
     ''m/44'' @ [CHR 0x27] @ ''/'' @ dec (bip44CoinType net) @ [CHR 0x27] @ ''/0'' @ [CHR 0x27]
       @ ''/'' @ (if change then ''1'' else ''0'') @ ''/'' @ dec index"

definition deriveKey :: "crypto \<Rightarrow> string \<Rightarrow> network \<Rightarrow> nat \<Rightarrow> string \<Rightarrow> bool \<Rightarrow> keypair" where
  "deriveKey C mnemonic net index passphrase change =
     hd_derive C (mnemonicToSeed C mnemonic passphrase) (bip44_path net change index)"

definition deriveAccountXpub :: "crypto \<Rightarrow> string \<Rightarrow> network \<Rightarrow> string \<Rightarrow> string" where
  "deriveAccountXpub C mnemonic net passphrase =
     hd_xpub C (mnemonicToSeed C mnemonic passphrase) (bip32Versions net)
       (''m/44'' @ [CHR 0x27] @ ''/'' @ dec (bip44CoinType net) @ [CHR 0x27] @ ''/0'' @ [CHR 0x27])"

definition deriveXpubAddress :: "crypto \<Rightarrow> string \<Rightarrow> network \<Rightarrow> nat \<Rightarrow> string res" where
  "deriveXpubAddress C xpub net index =
     bindE (hd_xpub_child C xpub (bip32Versions net) (''m/0/'' @ dec index)) (\<lambda>pub.
       p2pkhAddress C (hash160 C pub) net)"

section \<open>The first characters of a base58 address\<close>

lemma versioned_20 [simp]: "length h = 20 \<Longrightarrow> versioned v h = Inr (v # h)"
  by (simp add: versioned_def)

definition address_num :: "(bytes \<Rightarrow> bytes) \<Rightarrow> byte \<Rightarrow> bytes \<Rightarrow> nat" where
  "address_num sha v h = from_digits 256 (map unat (with_checksum sha (v # h)))"

lemma address_num_bounds:
  assumes "\<And>m. length (sha m) = 32" "length h = 20"
  shows "unat v * 256 ^ 24 \<le> address_num sha v h" "address_num sha v h \<le> unat v * 256 ^ 24 + (256 ^ 24 - 1)"
proof -
  define rest where "rest = h @ take 4 (doubleSha256 sha (v # h))"
  have len: "length rest = 24" by (simp add: rest_def assms doubleSha256_def)
  have "address_num sha v h = from_digits 256 ([unat v] @ map unat rest)"
    using assms(1) by (simp add: address_num_def with_checksum_long doubleSha256_def rest_def)
  also have "\<dots> = unat v * 256 ^ 24 + from_digits 256 (map unat rest)"
    by (simp only: base256.from_digits_append length_map len) (simp add: from_digits_def)
  finally have eq: "address_num sha v h = unat v * 256 ^ 24 + from_digits 256 (map unat rest)" .
  have "from_digits 256 (map unat rest) < 256 ^ length (map unat rest)"
    by (rule base256.from_digits_bound) auto
  then have "from_digits 256 (map unat rest) < 256 ^ 24" by (simp only: length_map len)
  with eq show "unat v * 256 ^ 24 \<le> address_num sha v h"
    "address_num sha v h \<le> unat v * 256 ^ 24 + (256 ^ 24 - 1)" by simp_all
qed

lemma address_text:
  assumes "v \<noteq> 0"
  shows "base58checkEncode sha (v # h) = map b58_char (to_digits 58 (address_num sha v h) [])"
  using assms
  by (simp add: base58checkEncode_text b58_text_def address_num_def with_checksum_def Let_def)

lemma address_prefix:
  assumes "\<And>m. length (sha m) = 32" "length h = 20" "v \<noteq> 0"
    and "lo = unat v * 256 ^ 24 div 58 ^ k" "hi = (unat v * 256 ^ 24 + (256 ^ 24 - 1)) div 58 ^ k" "0 < lo"
  obtains q ds where "lo \<le> q" "q \<le> hi" "\<forall>d\<in>set ds. d < 58" "length ds = k"
    "base58checkEncode sha (v # h) = map b58_char (to_digits 58 q [] @ ds)"
proof -
  define n where "n = address_num sha v h"
  have b: "lo \<le> n div 58 ^ k" "n div 58 ^ k \<le> hi"
    using address_num_bounds [OF assms(1,2), where v = v] unfolding assms(4,5) n_def by (intro div_le_mono; simp)+
  with assms(6) obtain ds where "length ds = k" "\<forall>d\<in>set ds. d < 58"
    "to_digits 58 n [] = to_digits 58 (n div 58 ^ k) [] @ ds"
    using base58.to_digits_split [of n k] by auto
  then show thesis
    using that [OF b] address_text [OF assms(3), of sha h] by (simp add: n_def)
qed

lemma to_digits_58_small: "0 < q \<Longrightarrow> q < 58 \<Longrightarrow> to_digits 58 q [] = [q]"
  by (simp add: base58.to_digits_pos)

lemma address_head:
  assumes "\<And>m. length (sha m) = 32" "length h = 20"
  shows "\<exists>cs. base58checkEncode sha (0x1c # h) = CHR ''C'' # cs"
    and "\<exists>cs. base58checkEncode sha (0x3f # h) = CHR ''S'' # cs"
    and "\<exists>c cs. base58checkEncode sha (0x6f # h) = c # cs \<and> (c = CHR ''m'' \<or> c = CHR ''n'')"
    and "\<exists>cs. base58checkEncode sha (0xc4 # h) = CHR ''2'' # cs"
proof -
  show "\<exists>cs. base58checkEncode sha (0x1c # h) = CHR ''C'' # cs"
  proof (rule address_prefix [OF assms, where v = "0x1c" and lo = 11 and k = 33 and hi = 11])
    fix q ds assume "11 \<le> q" "q \<le> 11"
      and enc: "base58checkEncode sha (0x1c # h) = map b58_char (to_digits 58 q [] @ ds)"
    then have "q = 11" by simp
    then show ?thesis using enc by (simp add: to_digits_58_small b58_char_def B58_ALPHABET_def)
  qed simp_all
  show "\<exists>cs. base58checkEncode sha (0x3f # h) = CHR ''S'' # cs"
  proof (rule address_prefix [OF assms, where v = "0x3f" and lo = 25 and k = 33 and hi = 25])
    fix q ds assume "25 \<le> q" "q \<le> 25"
      and enc: "base58checkEncode sha (0x3f # h) = map b58_char (to_digits 58 q [] @ ds)"
    then have "q = 25" by simp
    then show ?thesis using enc by (simp add: to_digits_58_small b58_char_def B58_ALPHABET_def)
  qed simp_all
  show "\<exists>c cs. base58checkEncode sha (0x6f # h) = c # cs \<and> (c = CHR ''m'' \<or> c = CHR ''n'')"
  proof (rule address_prefix [OF assms, where v = "0x6f" and lo = 44 and k = 33 and hi = 45])
    fix q ds assume "44 \<le> q" "q \<le> 45"
      and enc: "base58checkEncode sha (0x6f # h) = map b58_char (to_digits 58 q [] @ ds)"
    then have "q = 44 \<or> q = 45" by auto
    then show ?thesis using enc by (auto simp: to_digits_58_small b58_char_def B58_ALPHABET_def)
  qed simp_all
  show "\<exists>cs. base58checkEncode sha (0xc4 # h) = CHR ''2'' # cs"
  proof (rule address_prefix [OF assms, where v = "0xc4" and lo = 1 and k = 34 and hi = 1])
    fix q ds assume "1 \<le> q" "q \<le> 1"
      and enc: "base58checkEncode sha (0xc4 # h) = map b58_char (to_digits 58 q [] @ ds)"
    then have "q = 1" by simp
    then show ?thesis using enc by (simp add: to_digits_58_small b58_char_def B58_ALPHABET_def)
  qed simp_all
qed

section \<open>Decoding base58 addresses\<close>

lemmas network_simps = mainnet_def testnet_def

lemma network_fields [simp]:
  "p2pkhVersion mainnet = 0x1c" "p2shVersion mainnet = 0x3f" "bech32Hrp mainnet = ''cac''"
  "p2pkhVersion testnet = 0x6f" "p2shVersion testnet = 0xc4" "bech32Hrp testnet = ''tcac''"
  "bip44CoinType mainnet = 3377" "bip44CoinType testnet = 1"
  by (simp_all add: network_simps)

lemma decode_base58_branch:
  assumes "\<And>m. length (sha256 C m) = 32" "length h = 20"
    and "\<not> startsWith (toLowerCase (base58checkEncode (sha256 C) (v # h))) (bech32Hrp net @ ''1'')"
  shows "decodeAddress C (base58checkEncode (sha256 C) (v # h)) net =
    (if v = p2pkhVersion net then Inr (P2pkh, h)
     else if v = p2shVersion net then Inr (P2sh, h)
     else Inl (JsError (''Address version byte '' @ dec (unat v) @ '' does not match this network'')))"
  using assms
  by (simp add: decodeAddress_def base58check_decode_encode js_slice_from_nonneg Let_def)

lemma main_p2pkh_text:
  assumes "\<And>m. length (sha256 C m) = 32" "length h = 20" "p2pkhAddress C h mainnet = Inr a"
  shows "a = base58checkEncode (sha256 C) (0x1c # h)" "\<exists>cs. a = CHR ''C'' # cs"
  using assms address_head(1) [of "sha256 C" h] by (auto simp: p2pkhAddress_def network_simps)

lemma main_p2sh_text:
  assumes "\<And>m. length (sha256 C m) = 32" "length h = 20" "p2shAddress C h mainnet = Inr a"
  shows "a = base58checkEncode (sha256 C) (0x3f # h)" "\<exists>cs. a = CHR ''S'' # cs"
  using assms address_head(2) [of "sha256 C" h] by (auto simp: p2shAddress_def network_simps)

lemma test_p2pkh_text:
  assumes "\<And>m. length (sha256 C m) = 32" "length h = 20" "p2pkhAddress C h testnet = Inr a"
  shows "a = base58checkEncode (sha256 C) (0x6f # h)" "\<exists>c cs. a = c # cs \<and> (c = CHR ''m'' \<or> c = CHR ''n'')"
  using assms address_head(3) [of "sha256 C" h] by (auto simp: p2pkhAddress_def network_simps)

lemma test_p2sh_text:
  assumes "\<And>m. length (sha256 C m) = 32" "length h = 20" "p2shAddress C h testnet = Inr a"
  shows "a = base58checkEncode (sha256 C) (0xc4 # h)" "\<exists>cs. a = CHR ''2'' # cs"
  using assms address_head(4) [of "sha256 C" h] by (auto simp: p2shAddress_def network_simps)

lemma lower_chars:
  "lower_char (CHR ''C'') = CHR ''c''" "lower_char (CHR ''S'') = CHR ''s''"
  "lower_char (CHR ''m'') = CHR ''m''" "lower_char (CHR ''n'') = CHR ''n''"
  "lower_char (CHR ''2'') = CHR ''2''"
  by code_simp+

lemma hrp_of_upper:
  assumes "startsWith (toLowerCase (CHR ''C'' # cs)) ''cac1''"
  shows "fst (bech32Decode (CHR ''C'' # cs)) \<noteq> ''cac''"
proof -
  from assms obtain c1 c2 c3 rest where cs: "cs = c1 # c2 # c3 # rest" and "lower_char c3 = CHR ''1''"
    by (auto simp: startsWith_Cons toLowerCase_def map_eq_Cons_conv)
  then have "c3 = CHR ''1''" by (simp add: lower_char_one)
  then have "int 3 \<le> lastIndexOf (CHR ''C'' # cs) (CHR ''1'')"
    by (intro lastIndexOf_ge) (simp_all add: cs)
  then obtain m where "lastIndexOf (CHR ''C'' # cs) (CHR ''1'') = int (Suc m)"
    by (metis nonneg_int_cases int_ops(3) not0_implies_Suc of_nat_0_le_iff order_trans zle_int not_numeral_le_zero)
  then have "fst (bech32Decode (CHR ''C'' # cs)) = CHR ''C'' # take m cs"
    by (simp add: bech32Decode_def js_slice_prefix Let_def nat_add_distrib)
  then show ?thesis by simp
qed

lemma decode_main_p2pkh:
  assumes sha: "\<And>m. length (sha256 C m) = 32" and h: "length h = 20" and a: "p2pkhAddress C h mainnet = Inr a"
  shows "decodeAddress C a mainnet =
    (if startsWith (toLowerCase a) ''cac1'' then Inl (JsError ''Address is for a different network'')
     else Inr (P2pkh, h))"
proof (cases "startsWith (toLowerCase a) ''cac1''")
  case True
  obtain cs where cs: "a = CHR ''C'' # cs" using main_p2pkh_text [OF assms] by blast
  have "fst (bech32Decode a) \<noteq> ''cac''" using hrp_of_upper True unfolding cs by blast
  moreover have "startsWith (toLowerCase a) (bech32Hrp mainnet @ ''1'')" using True by (simp add: network_simps)
  ultimately show ?thesis
    using True by (auto simp: decodeAddress_def mainnet_def split: prod.splits)
next
  case False
  have "\<not> startsWith (toLowerCase a) (bech32Hrp mainnet @ ''1'')" using False by (simp add: network_simps)
  then show ?thesis
    using False decode_base58_branch [OF sha h, of "0x1c" mainnet] main_p2pkh_text(1) [OF assms]
    by (simp add: mainnet_def)
qed

lemma legacy_decode:
  assumes sha: "\<And>m. length (sha256 C m) = 32" and h: "length h = 20"
  defines "dec_as v net \<equiv> (if v = p2pkhVersion net then Inr (P2pkh, h)
     else if v = p2shVersion net then Inr (P2sh, h)
     else Inl (JsError (''Address version byte '' @ dec (unat v) @ '' does not match this network'')))"
  shows "net = testnet \<Longrightarrow> decodeAddress C (base58checkEncode (sha256 C) (0x1c # h)) net = dec_as 0x1c net"
    and "net = testnet \<or> net = mainnet \<Longrightarrow>
      decodeAddress C (base58checkEncode (sha256 C) (0x3f # h)) net = dec_as 0x3f net"
    and "net = testnet \<or> net = mainnet \<Longrightarrow>
      decodeAddress C (base58checkEncode (sha256 C) (0x6f # h)) net = dec_as 0x6f net"
    and "net = testnet \<or> net = mainnet \<Longrightarrow>
      decodeAddress C (base58checkEncode (sha256 C) (0xc4 # h)) net = dec_as 0xc4 net"
proof -
  have br: "decodeAddress C (base58checkEncode (sha256 C) (v # h)) net = dec_as v net"
    if "base58checkEncode (sha256 C) (v # h) = c # cs" "lower_char c \<noteq> hd (bech32Hrp net)" "bech32Hrp net \<noteq> []"
    for v c cs net
  proof -
    have "bech32Hrp net = hd (bech32Hrp net) # tl (bech32Hrp net)" using that(3) by simp
    then obtain p ps where "bech32Hrp net = p # ps" by blast
    then have "\<not> startsWith (toLowerCase (base58checkEncode (sha256 C) (v # h))) (bech32Hrp net @ ''1'')"
      using that(1,2) by (simp add: startsWith_Cons)
    then show ?thesis unfolding dec_as_def by (rule decode_base58_branch [OF sha h])
  qed
  note heads = address_head [of "sha256 C", OF sha h]
  obtain c1 c2 c3 c4 where e1: "base58checkEncode (sha256 C) (0x1c # h) = CHR ''C'' # c1"
    and e2: "base58checkEncode (sha256 C) (0x3f # h) = CHR ''S'' # c2"
    and e4: "base58checkEncode (sha256 C) (0xc4 # h) = CHR ''2'' # c4" using heads by blast
  obtain c cs where e3: "base58checkEncode (sha256 C) (0x6f # h) = c # cs" "c = CHR ''m'' \<or> c = CHR ''n''"
    using heads(3) by blast
  show "net = testnet \<Longrightarrow> decodeAddress C (base58checkEncode (sha256 C) (0x1c # h)) net = dec_as 0x1c net"
    by (rule br [OF e1]) (auto simp: lower_chars)
  show "net = testnet \<or> net = mainnet \<Longrightarrow>
      decodeAddress C (base58checkEncode (sha256 C) (0x3f # h)) net = dec_as 0x3f net"
    by (rule br [OF e2]) (auto simp: lower_chars)
  show "net = testnet \<or> net = mainnet \<Longrightarrow>
      decodeAddress C (base58checkEncode (sha256 C) (0x6f # h)) net = dec_as 0x6f net"
    by (rule br [OF e3(1)]) (use e3(2) in \<open>auto simp: lower_chars\<close>)
  show "net = testnet \<or> net = mainnet \<Longrightarrow>
      decodeAddress C (base58checkEncode (sha256 C) (0xc4 # h)) net = dec_as 0xc4 net"
    by (rule br [OF e4]) (auto simp: lower_chars)
qed

lemma address_bytes:
  assumes "length h = 20"
  shows "p2pkhAddress C h mainnet = Inr (base58checkEncode (sha256 C) (0x1c # h))"
    and "p2shAddress C h mainnet = Inr (base58checkEncode (sha256 C) (0x3f # h))"
    and "p2pkhAddress C h testnet = Inr (base58checkEncode (sha256 C) (0x6f # h))"
    and "p2shAddress C h testnet = Inr (base58checkEncode (sha256 C) (0xc4 # h))"
  using assms by (simp_all add: p2pkhAddress_def p2shAddress_def network_simps)

lemma dec_versions: "dec 28 = ''28''" "dec 63 = ''63''" "dec 111 = ''111''" "dec 196 = ''196''"
  by code_simp+

section \<open>Decoding bech32 addresses\<close>

lemma map_word_of_int_byte_ints [simp]: "map word_of_int (byte_ints h) = h"
  by (rule byte_ints_back)

lemma p2wpkh_parts:
  assumes "length h = 20"
  obtains g where "convertBits (byte_ints h) 8 5 True = Inr g" "digits_ok 5 g" "convertBits g 5 8 False = Inr (byte_ints h)"
  using convertBits_roundtrip_bytes [of h] convertBits_to5 [of h]
  by (auto simp: bindE_eq_Inr)

lemma decode_bech32_branch:
  assumes "CHR ''1'' \<notin> set body" "CHR ''1'' \<notin> set chk" "length chk = 6"
    and "toLowerCase (bech32Hrp net) = bech32Hrp net"
  shows "decodeAddress C (bech32Hrp net @ ''1'' @ body @ chk) net =
    (let data = map (indexOf BECH32_CHARSET) body
     in bindE (convertBits (js_slice_from data 1) 5 8 False) (\<lambda>program.
          if js_get data 0 \<noteq> Some 0 \<or> length program \<noteq> 20
          then Inl (JsError ''Unsupported witness version/program length'')
          else Inr (P2wpkh, map word_of_int program)))"
proof -
  have "lower_char (CHR ''1'') = CHR ''1''" by code_simp
  then have "startsWith (toLowerCase (bech32Hrp net @ ''1'' @ body @ chk)) (bech32Hrp net @ ''1'')"
    using assms(4) startsWith_append [of "bech32Hrp net @ ''1''"] by (simp add: toLowerCase_append)
  then show ?thesis
    using bech32Decode_parts [OF assms(1,3,2), of "bech32Hrp net"] by (simp add: decodeAddress_def Let_def)
qed

lemma network_hrp_lower:
  "net = mainnet \<or> net = testnet \<Longrightarrow> toLowerCase (bech32Hrp net) = bech32Hrp net"
proof -
  have "toLowerCase ''cac'' = ''cac''" "toLowerCase ''tcac'' = ''tcac''" by code_simp+
  then show "net = mainnet \<or> net = testnet \<Longrightarrow> ?thesis" by (auto simp: network_simps)
qed

lemma p2wpkh_text:
  assumes "length h = 20"
  obtains body chk where "p2wpkhAddress h net = Inr (bech32Hrp net @ ''1'' @ body @ chk)"
    "CHR ''1'' \<notin> set body" "CHR ''1'' \<notin> set chk" "length chk = 6"
    "\<exists>g. map (indexOf BECH32_CHARSET) body = 0 # g \<and> convertBits g 5 8 False = Inr (byte_ints h)"
proof -
  obtain g where g: "convertBits (byte_ints h) 8 5 True = Inr g" "digits_ok 5 g"
    "convertBits g 5 8 False = Inr (byte_ints h)" using p2wpkh_parts [OF assms] .
  let ?t = "map (\<lambda>d. BECH32_CHARSET ! nat d)"
  let ?chk = "bech32CreateChecksum (bech32Hrp net) (0 # g)"
  have ok: "digits_ok 5 (0 # g)" using g(2) by simp
  have "concat (map charset_at ((0 # g) @ ?chk)) = ?t ((0 # g) @ ?chk)"
    by (rule charset_text) (use ok bech32CreateChecksum_ok [of "bech32Hrp net" "0 # g"] in simp)
  then have "p2wpkhAddress h net = Inr (bech32Hrp net @ ''1'' @ ?t (0 # g) @ ?t ?chk)"
    using g by (simp add: p2wpkhAddress_def bech32Encode_def Let_def)
  then show thesis
    using that [of "?t (0 # g)" "?t ?chk"] charset_text_no_one [OF ok] charset_index [OF ok] g(3)
      charset_text_no_one [of ?chk] bech32CreateChecksum_ok [of "bech32Hrp net" "0 # g"] by auto
qed

lemma p2wpkh_decodes:
  assumes "length h = 20" and "net = mainnet \<or> net = testnet"
  shows "bindE (p2wpkhAddress h net) (\<lambda>a. decodeAddress C a net) = Inr (P2wpkh, h)"
proof -
  obtain body chk where *: "p2wpkhAddress h net = Inr (bech32Hrp net @ ''1'' @ body @ chk)"
    "CHR ''1'' \<notin> set body" "CHR ''1'' \<notin> set chk" "length chk = 6"
    "\<exists>g. map (indexOf BECH32_CHARSET) body = 0 # g \<and> convertBits g 5 8 False = Inr (byte_ints h)"
    using p2wpkh_text [OF assms(1)] .
  then show ?thesis
    using decode_bech32_branch [OF *(2,3,4) network_hrp_lower [OF assms(2)], of C] assms(1)
    by (auto simp: js_slice_from_nonneg Let_def)
qed

section \<open>An address that starts like a bech32 one\<close>

definition clash_hash :: bytes where
  "clash_hash = [0xc2, 0x71, 0x05, 0x09, 0x32, 0xaf, 0xa5, 0x05, 0x63, 0x1c, 0xa2, 0x8d, 0x19, 0x3b, 0xd2, 0x35, 0x87, 0x3a, 0x39, 0x87]"

lemma clash_hash_length: "length clash_hash = 20"
  by (simp add: clash_hash_def)

lemma clash_num_bounds:
  assumes "\<And>m. length (sha m) = 32"
  shows "address_num sha 0x1c clash_hash div 58 ^ 30 = 2257882"
proof -
  define cs where "cs = take 4 (doubleSha256 sha (0x1c # clash_hash))"
  have len: "length cs = 4" by (simp add: cs_def assms doubleSha256_def)
  define c where "c = from_digits 256 (map unat cs)"
  have "c < 256 ^ length (map unat cs)"
    unfolding c_def by (rule base256.from_digits_bound) auto
  then have c: "c < 256 ^ 4" by (simp only: length_map len)
  have "address_num sha 0x1c clash_hash = from_digits 256 (map unat (0x1c # clash_hash) @ map unat cs)"
    using assms by (simp add: address_num_def with_checksum_long doubleSha256_def cs_def)
  also have "\<dots> = from_digits 256 (map unat (0x1c # clash_hash)) * 256 ^ 4 + c"
    by (simp only: base256.from_digits_append length_map len c_def)
  also have "from_digits 256 (map unat (0x1c # clash_hash)) = 42032110477703884897672966605901977638432470088071"
    by (simp add: clash_hash_def from_digits_def)
  finally have n: "address_num sha 0x1c clash_hash = 42032110477703884897672966605901977638432470088071 * 256 ^ 4 + c" .
  have "42032110477703884897672966605901977638432470088071 * 256 ^ 4 div 58 ^ 30 \<le> address_num sha 0x1c clash_hash div 58 ^ 30"
    "address_num sha 0x1c clash_hash div 58 ^ 30 \<le> (42032110477703884897672966605901977638432470088071 * 256 ^ 4 + (256 ^ 4 - 1)) div 58 ^ 30"
    unfolding n using c by (intro div_le_mono; simp)+
  then show ?thesis by simp
qed

lemma clash_prefix:
  assumes "\<And>m. length (sha m) = 32"
  shows "\<exists>cs. base58checkEncode sha (0x1c # clash_hash) = ''CaC1'' @ cs"
proof -
  define n where "n = address_num sha 0x1c clash_hash"
  have q: "n div 58 ^ 30 = 2257882" unfolding n_def by (rule clash_num_bounds [OF assms])
  then obtain ds where "to_digits 58 n [] = to_digits 58 2257882 [] @ ds"
    using base58.to_digits_split [of n 30] by auto
  moreover have "to_digits 58 2257882 [] = [11, 33, 11, 0]"
    by (simp add: base58.to_digits_pos)
  ultimately show ?thesis
    using address_text [of "0x1c" sha clash_hash]
    by (simp add: n_def b58_char_def B58_ALPHABET_def)
qed

lemma clash_rejected:
  assumes "\<And>m. length (sha256 C m) = 32"
  shows "bindE (p2pkhAddress C clash_hash mainnet) (\<lambda>a. decodeAddress C a mainnet)
           = Inl (JsError ''Address is for a different network'')"
proof -
  define a where "a = base58checkEncode (sha256 C) (0x1c # clash_hash)"
  have a: "p2pkhAddress C clash_hash mainnet = Inr a"
    by (simp add: p2pkhAddress_def clash_hash_length mainnet_def a_def)
  obtain cs where "a = ''CaC1'' @ cs" using clash_prefix [of "sha256 C", OF assms] unfolding a_def by blast
  moreover have "toLowerCase ''CaC1'' = ''cac1''" by code_simp
  ultimately have "startsWith (toLowerCase a) ''cac1''"
    using startsWith_append [of "''cac1''" "toLowerCase cs"] by (simp only: toLowerCase_append)
  then show ?thesis
    using decode_main_p2pkh [OF assms clash_hash_length a] a by simp
qed

section \<open>Derivation paths\<close>

lemma digits_sep:
  assumes "xs @ c # ys = xs' @ c # ys'" "c \<notin> set xs" "c \<notin> set xs'"
  shows "xs = xs' \<and> ys = ys'"
  using assms
proof (induction xs arbitrary: xs')
  case Nil
  then show ?case by (cases xs') auto
next
  case (Cons x xs)
  then show ?case by (cases xs') auto
qed

lemma quote_not_dec: "CHR 0x27 \<notin> set (dec n)"
proof
  assume "CHR 0x27 \<in> set (dec n)"
  then obtain d where "d < 10" "CHR 0x27 = digit_char d" using dec_chars by blast
  moreover have "\<forall>d<10. digit_char d \<noteq> CHR 0x27" by code_simp
  ultimately show False by metis
qed

lemma bip44_path_inj:
  assumes "bip44_path net change index = bip44_path net' change' index'"
  shows "bip44CoinType net = bip44CoinType net' \<and> change = change' \<and> index = index'"
proof -
  define tl where "tl change index = ''/0'' @ [CHR 0x27] @ ''/'' @ (if change then ''1'' else ''0'') @ ''/'' @ dec index"
    for change index
  have "dec (bip44CoinType net) @ CHR 0x27 # tl change index
      = dec (bip44CoinType net') @ CHR 0x27 # tl change' index'"
    using assms by (simp add: bip44_path_def tl_def)
  then have "dec (bip44CoinType net) = dec (bip44CoinType net') \<and> tl change index = tl change' index'"
    by (rule digits_sep) (simp_all add: quote_not_dec)
  then show ?thesis using dec_inj by (auto simp: tl_def split: if_splits)
qed

section \<open>Properties\<close>

text \<open>
  C35: Decoding a P2PKH address of the main network gives back its hash, except when the address,
  read in lower case, happens to start with the bech32 prefix \<open>cac1\<close>: then decoding throws.
\<close>

theorem decodeAddress_p2pkh_mainnet:
  assumes "\<And>m. length (sha256 C m) = 32" and "length h = 20" and "p2pkhAddress C h mainnet = Inr a"
  shows "decodeAddress C a mainnet =
    (if startsWith (toLowerCase a) ''cac1'' then Inl (JsError ''Address is for a different network'')
     else Inr (P2pkh, h))"
  using assms by (rule decode_main_p2pkh)

theorem decodeAddress_p2pkh_mainnet_witness:
  "\<exists>a. p2pkhAddress demo_crypto (replicate 20 1) mainnet = Inr a
     \<and> decodeAddress demo_crypto a mainnet =
        (if startsWith (toLowerCase a) ''cac1'' then Inl (JsError ''Address is for a different network'')
         else Inr (P2pkh, replicate 20 1))"
proof -
  have a: "p2pkhAddress demo_crypto (replicate 20 1) mainnet
      = Inr (base58checkEncode (sha256 demo_crypto) (0x1c # replicate 20 1))"
    by (simp add: p2pkhAddress_def mainnet_def)
  show ?thesis using a decodeAddress_p2pkh_mainnet [OF demo_sha256_length _ a] by simp
qed

text \<open>
  C36: The exception of the previous property occurs, whatever the hash function: there is a
  20-byte public key hash whose own main-network address the wallet refuses to send to.
\<close>

theorem decodeAddress_rejects_own_address:
  assumes "\<And>m. length (sha256 C m) = 32"
  shows "\<exists>h. length h = 20 \<and> bindE (p2pkhAddress C h mainnet) (\<lambda>a. decodeAddress C a mainnet)
           = Inl (JsError ''Address is for a different network'')"
  using clash_rejected [OF assms] clash_hash_length by blast

theorem decodeAddress_rejects_own_address_witness:
  "\<exists>h. length h = 20 \<and> bindE (p2pkhAddress demo_crypto h mainnet) (\<lambda>a. decodeAddress demo_crypto a mainnet)
      = Inl (JsError ''Address is for a different network'')"
  by (rule decodeAddress_rejects_own_address) simp

text \<open>
  The other legacy addresses round trip without exception: P2SH on both networks and P2PKH on
  the test network decode to their type and hash.
\<close>

theorem decodeAddress_legacy_roundtrip:
  assumes "\<And>m. length (sha256 C m) = 32" and "length h = 20"
  shows "bindE (p2shAddress C h mainnet) (\<lambda>a. decodeAddress C a mainnet) = Inr (P2sh, h)
    \<and> bindE (p2shAddress C h testnet) (\<lambda>a. decodeAddress C a testnet) = Inr (P2sh, h)
    \<and> bindE (p2pkhAddress C h testnet) (\<lambda>a. decodeAddress C a testnet) = Inr (P2pkh, h)"
  using legacy_decode(2) [OF assms, of mainnet] legacy_decode(3,4) [OF assms, of testnet]
  by (simp add: address_bytes assms(2))

theorem decodeAddress_legacy_roundtrip_witness:
  "bindE (p2shAddress demo_crypto (replicate 20 9) mainnet) (\<lambda>a. decodeAddress demo_crypto a mainnet)
     = Inr (P2sh, replicate 20 9)"
  using decodeAddress_legacy_roundtrip [OF demo_sha256_length, of "replicate 20 9"] by simp

text \<open>
  Addresses of one network are never accepted on the other: decoding a legacy address of
  the other network throws, naming the foreign version byte.
\<close>

theorem decodeAddress_network_separation:
  assumes "\<And>m. length (sha256 C m) = 32" and "length h = 20"
  shows "bindE (p2pkhAddress C h mainnet) (\<lambda>a. decodeAddress C a testnet)
           = Inl (JsError ''Address version byte 28 does not match this network'')
    \<and> bindE (p2shAddress C h mainnet) (\<lambda>a. decodeAddress C a testnet)
           = Inl (JsError ''Address version byte 63 does not match this network'')
    \<and> bindE (p2pkhAddress C h testnet) (\<lambda>a. decodeAddress C a mainnet)
           = Inl (JsError ''Address version byte 111 does not match this network'')
    \<and> bindE (p2shAddress C h testnet) (\<lambda>a. decodeAddress C a mainnet)
           = Inl (JsError ''Address version byte 196 does not match this network'')"
  using legacy_decode(1,2) [OF assms, of testnet] legacy_decode(3,4) [OF assms, of mainnet]
  by (simp add: address_bytes assms(2) dec_versions)

theorem decodeAddress_network_separation_witness:
  "bindE (p2pkhAddress demo_crypto (replicate 20 9) mainnet) (\<lambda>a. decodeAddress demo_crypto a testnet)
     = Inl (JsError ''Address version byte 28 does not match this network'')"
  using decodeAddress_network_separation [OF demo_sha256_length, of "replicate 20 9"] by simp

text \<open>
  C37: Bech32 round trip: the P2WPKH address of a 20-byte hash decodes, on its own network, to that
  hash.
\<close>

theorem decodeAddress_p2wpkh_roundtrip:
  assumes "length h = 20" and "net = mainnet \<or> net = testnet"
  shows "bindE (p2wpkhAddress h net) (\<lambda>a. decodeAddress C a net) = Inr (P2wpkh, h)"
  using assms by (rule p2wpkh_decodes)

theorem decodeAddress_p2wpkh_roundtrip_witness:
  "bindE (p2wpkhAddress (replicate 20 255) testnet) (\<lambda>a. decodeAddress demo_crypto a testnet)
     = Inr (P2wpkh, replicate 20 255)"
  by (rule decodeAddress_p2wpkh_roundtrip) simp_all

text \<open>
  C38: The bech32 checksum is not verified: replacing the last six characters of a P2WPKH address by
  any six characters other than \<open>1\<close> gives a string that decodes to the same hash.
\<close>

theorem decodeAddress_ignores_bech32_checksum:
  assumes "length h = 20" and "net = mainnet \<or> net = testnet" and "p2wpkhAddress h net = Inr a"
    and "length chk' = 6" and "CHR ''1'' \<notin> set chk'"
  shows "decodeAddress C (take (length a - 6) a @ chk') net = Inr (P2wpkh, h)"
proof -
  obtain body chk where *: "p2wpkhAddress h net = Inr (bech32Hrp net @ ''1'' @ body @ chk)"
    "CHR ''1'' \<notin> set body" "CHR ''1'' \<notin> set chk" "length chk = 6"
    "\<exists>g. map (indexOf BECH32_CHARSET) body = 0 # g \<and> convertBits g 5 8 False = Inr (byte_ints h)"
    using p2wpkh_text [OF assms(1)] .
  then have "take (length a - 6) a @ chk' = bech32Hrp net @ ''1'' @ body @ chk'"
    using assms(3) by simp
  then show ?thesis
    using *(5) decode_bech32_branch [OF *(2) assms(5,4) network_hrp_lower [OF assms(2)], of C] assms(1)
    by (auto simp: js_slice_from_nonneg Let_def)
qed

theorem decodeAddress_ignores_bech32_checksum_witness:
  "\<exists>a. p2wpkhAddress (replicate 20 0) mainnet = Inr a
     \<and> decodeAddress demo_crypto (take (length a - 6) a @ ''qqqqqq'') mainnet = Inr (P2wpkh, replicate 20 0)"
proof -
  have "\<exists>a. p2wpkhAddress (replicate 20 0) mainnet = Inr a"
    using p2wpkh_text [of "replicate 20 0" mainnet] by (metis length_replicate)
  then obtain a where a: "p2wpkhAddress (replicate 20 0) mainnet = Inr a" by blast
  show ?thesis
    using a decodeAddress_ignores_bech32_checksum [OF _ _ a, of "''qqqqqq''" demo_crypto] by simp
qed

text \<open>
  C40: Whatever string it is given, a successful \<open>decodeAddress\<close> returns a hash of exactly 20 bytes,
  so the output scripts built from it have their fixed shapes.
\<close>

theorem decodeAddress_hash_length:
  assumes "decodeAddress C address net = Inr (ty, h)"
  shows "length h = 20"
  using assms
  by (auto simp: decodeAddress_def Let_def bindE_eq_Inr js_slice_from_nonneg split: if_splits prod.splits)

theorem decodeAddress_hash_length_witness:
  "\<exists>ty h. bindE (p2wpkhAddress (replicate 20 3) mainnet) (\<lambda>a. decodeAddress demo_crypto a mainnet) = Inr (ty, h)
     \<and> length h = 20"
proof -
  obtain a where a: "decodeAddress demo_crypto a mainnet = Inr (P2wpkh, replicate 20 3)"
    and "p2wpkhAddress (replicate 20 3) mainnet = Inr a"
    using p2wpkh_decodes [of "replicate 20 3" mainnet demo_crypto] by (auto simp: bindE_eq_Inr)
  then show ?thesis using decodeAddress_hash_length [OF a] by simp
qed

text \<open>
  Key derivation paths do not collide: two paths are equal only for the same coin type, chain
  and index, so the main and test networks never share a key.
\<close>

theorem bip44_path_injective:
  assumes "bip44_path net change index = bip44_path net' change' index'"
  shows "bip44CoinType net = bip44CoinType net' \<and> change = change' \<and> index = index'"
  using assms by (rule bip44_path_inj)

theorem bip44_path_injective_witness:
  "bip44_path mainnet False 7 = bip44_path mainnet False 7
     \<and> bip44CoinType mainnet = bip44CoinType mainnet \<and> (7 :: nat) = 7"
  using bip44_path_injective [OF refl, of mainnet False 7] by simp

end
