(* ===== verification/JsNumber.thy ===== *)
theory JsNumber
  imports JsString Complex_Main
begin

text \<open>
  The Numbers of the program: IEEE double precision values as rationals, with \<open>fl\<close> rounding an
  exact result to the nearest double, ties to even. The sign of zero is not represented, since
  the program never observes it. \<open>parseFloat\<close>, multiplication, \<open>Math.round\<close> and the conversions
  between Number and BigInt are the operations the amount handling of app.js and checkout.js
  uses. The lemmas bound the rounding error and give the range in which amounts are exact.
\<close>

section \<open>Definitions\<close>

fun bits :: "nat \<Rightarrow> nat" where
  "bits n = (if n = 0 then 0 else Suc (bits (n div 2)))"

declare bits.simps [simp del]

text \<open>Rounding to the nearest integer, ties to even.\<close>

definition rnd :: "rat \<Rightarrow> int" where
  "rnd x = (let f = \<lfloor>x\<rfloor>; d = x - of_int f
            in if d < 1 / 2 then f else if 1 / 2 < d then f + 1 else if even f then f else f + 1)"

text \<open>The exponent of the unit in the last place of a positive number.\<close>

definition expo :: "rat \<Rightarrow> int" where
  "expo x = (if 1 \<le> x then int (bits (nat \<lfloor>x\<rfloor>)) - 53 else - int (bits (nat \<lfloor>1 / x\<rfloor>)) - 52)"

definition fl :: "rat \<Rightarrow> rat" where
  "fl x = (if x = 0 then 0
           else let u = 2 powi (max (-1074) (expo \<bar>x\<bar>)) in sgn x * (of_int (rnd (\<bar>x\<bar> / u)) * u))"

datatype jsnum = Fin rat | PosInf | NegInf | NotANumber

definition to_double :: "rat \<Rightarrow> jsnum" where
  "to_double x = (let y = fl x in if 2 ^ 1024 \<le> y then PosInf else if y \<le> - (2 ^ 1024) then NegInf else Fin y)"

text \<open>
  \<open>parseFloat(s)\<close>: after white space, the longest prefix that is a decimal literal, NaN when
  there is none.
\<close>

definition dec_num :: "string \<Rightarrow> nat" where
  "dec_num ds = from_digits 10 (map (\<lambda>c. the (digit_val c)) ds)"

definition parse_exponent :: "string \<Rightarrow> int" where
  "parse_exponent r =
     (case r of
        [] \<Rightarrow> 0
      | c # r' \<Rightarrow>
          if c \<noteq> CHR ''e'' \<and> c \<noteq> CHR ''E'' then 0
          else case r' of
                 [] \<Rightarrow> 0
               | d # r'' \<Rightarrow>
                   if d = CHR ''-'' then - int (dec_num (takeWhile (is_digit 10) r''))
                   else if d = CHR ''+'' then int (dec_num (takeWhile (is_digit 10) r''))
                   else int (dec_num (takeWhile (is_digit 10) r')))"

definition parse_unsigned :: "string \<Rightarrow> rat option" where
  "parse_unsigned u =
     (let ip = takeWhile (is_digit 10) u; r1 = dropWhile (is_digit 10) u;
          fp = (case r1 of [] \<Rightarrow> [] | c # r \<Rightarrow> if c = CHR ''.'' then takeWhile (is_digit 10) r else []);
          r2 = (case r1 of [] \<Rightarrow> [] | c # r \<Rightarrow> if c = CHR ''.'' then dropWhile (is_digit 10) r else r1)
      in if ip = [] \<and> fp = [] then None
         else Some (of_nat (dec_num (ip @ fp))
                * 10 powi (parse_exponent r2 - int (length fp))))"

definition parseFloat :: "string \<Rightarrow> jsnum" where
  "parseFloat s =
     (let t = dropWhile is_space s;
          neg = (t \<noteq> [] \<and> hd t = CHR ''-'');
          u = (if t \<noteq> [] \<and> (hd t = CHR ''-'' \<or> hd t = CHR ''+'') then tl t else t)
      in if startsWith u ''Infinity'' then (if neg then NegInf else PosInf)
         else case parse_unsigned u of
                None \<Rightarrow> NotANumber
              | Some x \<Rightarrow> to_double (if neg then - x else x))"

text \<open>\<open>a * b\<close>\<close>

definition js_mul :: "jsnum \<Rightarrow> jsnum \<Rightarrow> jsnum" where
  "js_mul a b =
     (let sign = (\<lambda>a. case a of Fin x \<Rightarrow> sgn x | PosInf \<Rightarrow> 1 | NegInf \<Rightarrow> -1 | NotANumber \<Rightarrow> (0 :: rat))
      in case (a, b) of
           (NotANumber, _) \<Rightarrow> NotANumber
         | (_, NotANumber) \<Rightarrow> NotANumber
         | (Fin x, Fin y) \<Rightarrow> to_double (x * y)
         | _ \<Rightarrow> (if sign a * sign b = 0 then NotANumber else if sign a * sign b > 0 then PosInf else NegInf))"

text \<open>\<open>Math.round\<close>, truthiness, \<open>x <= 0\<close> and \<open>x > 0\<close>\<close>

definition js_round :: "jsnum \<Rightarrow> jsnum" where
  "js_round a = (case a of Fin x \<Rightarrow> Fin (of_int \<lfloor>x + 1 / 2\<rfloor>) | _ \<Rightarrow> a)"

definition truthy :: "jsnum \<Rightarrow> bool" where
  "truthy a = (a \<noteq> Fin 0 \<and> a \<noteq> NotANumber)"

definition le_zero :: "jsnum \<Rightarrow> bool" where
  "le_zero a = (case a of Fin x \<Rightarrow> x \<le> 0 | PosInf \<Rightarrow> False | NegInf \<Rightarrow> True | NotANumber \<Rightarrow> False)"

definition gt_zero :: "jsnum \<Rightarrow> bool" where
  "gt_zero a = (case a of Fin x \<Rightarrow> 0 < x | PosInf \<Rightarrow> True | NegInf \<Rightarrow> False | NotANumber \<Rightarrow> False)"

text \<open>\<open>BigInt(x)\<close> of a Number throws unless it is an integer; \<open>Number(n)\<close> of a BigInt rounds.\<close>

definition to_BigInt :: "jsnum \<Rightarrow> int res" where
  "to_BigInt a =
     (case a of
        Fin x \<Rightarrow> if of_int \<lfloor>x\<rfloor> = x then Inr \<lfloor>x\<rfloor>
                 else Inl (RangeErr ''The number cannot be converted to a BigInt because it is not an integer'')
      | _ \<Rightarrow> Inl (RangeErr ''The number cannot be converted to a BigInt because it is not an integer''))"

definition num_of_int :: "int \<Rightarrow> int" where
  "num_of_int n = \<lfloor>fl (of_int n)\<rfloor>"

text \<open>The amount a form field stands for: \<open>BigInt(Math.round(amountCac * 1e8))\<close>.\<close>

definition to_satoshis :: "jsnum \<Rightarrow> int res" where
  "to_satoshis amountCac = to_BigInt (js_round (js_mul amountCac (Fin 100000000)))"

text \<open>
  \<open>a + b\<close> and \<open>a / b\<close> on Numbers. Zero has no sign in the model, so dividing by zero gives the
  infinity of the dividend's sign.
\<close>

definition js_add :: "jsnum \<Rightarrow> jsnum \<Rightarrow> jsnum" where
  "js_add a b =
     (case (a, b) of
        (Fin x, Fin y) \<Rightarrow> to_double (x + y)
      | (NotANumber, _) \<Rightarrow> NotANumber
      | (_, NotANumber) \<Rightarrow> NotANumber
      | (PosInf, NegInf) \<Rightarrow> NotANumber
      | (NegInf, PosInf) \<Rightarrow> NotANumber
      | (Fin _, i) \<Rightarrow> i
      | (i, _) \<Rightarrow> i)"

definition js_div :: "jsnum \<Rightarrow> jsnum \<Rightarrow> jsnum" where
  "js_div a b =
     (case (a, b) of
        (NotANumber, _) \<Rightarrow> NotANumber
      | (_, NotANumber) \<Rightarrow> NotANumber
      | (Fin x, Fin y) \<Rightarrow>
          if y \<noteq> 0 then to_double (x / y)
          else if x = 0 then NotANumber else if 0 < x then PosInf else NegInf
      | (Fin _, _) \<Rightarrow> Fin 0
      | (i, Fin y) \<Rightarrow> if 0 \<le> y then i else if i = PosInf then NegInf else PosInf
      | _ \<Rightarrow> NotANumber)"

definition js_isFinite :: "jsnum \<Rightarrow> bool" where
  "js_isFinite a = (case a of Fin _ \<Rightarrow> True | _ \<Rightarrow> False)"

text \<open>\<open>Number(s)\<close> of a string: unlike \<open>parseFloat\<close>, all of it must be a literal.\<close>

definition decimal_literal :: "string \<Rightarrow> bool" where
  "decimal_literal u \<longleftrightarrow>
     (let ip = takeWhile (is_digit 10) u; r1 = dropWhile (is_digit 10) u;
          dot = (r1 \<noteq> [] \<and> hd r1 = CHR ''.'');
          fp = (if dot then takeWhile (is_digit 10) (tl r1) else []);
          r2 = (if dot then dropWhile (is_digit 10) (tl r1) else r1);
          x = (if tl r2 \<noteq> [] \<and> (hd (tl r2) = CHR ''-'' \<or> hd (tl r2) = CHR ''+'') then tl (tl r2) else tl r2)
      in (ip \<noteq> [] \<or> fp \<noteq> []) \<and>
         (r2 = [] \<or> (hd r2 = CHR ''e'' \<or> hd r2 = CHR ''E'') \<and> x \<noteq> [] \<and> list_all (is_digit 10) x))"

definition string_to_number :: "string \<Rightarrow> jsnum" where
  "string_to_number s =
     (let t = trim s;
          radix = (\<lambda>r ds. if ds \<noteq> [] \<and> list_all (is_digit r) ds
                          then to_double (of_nat (from_digits r (map (\<lambda>c. the (digit_val c)) ds))) else NotANumber);
          neg = (t \<noteq> [] \<and> hd t = CHR ''-'');
          u = (if t \<noteq> [] \<and> (hd t = CHR ''-'' \<or> hd t = CHR ''+'') then tl t else t)
      in if t = [] then Fin 0
         else if startsWith t ''0x'' \<or> startsWith t ''0X'' then radix 16 (drop 2 t)
         else if startsWith t ''0o'' \<or> startsWith t ''0O'' then radix 8 (drop 2 t)
         else if startsWith t ''0b'' \<or> startsWith t ''0B'' then radix 2 (drop 2 t)
         else if u = ''Infinity'' then (if neg then NegInf else PosInf)
         else if decimal_literal u then
           (case parse_unsigned u of None \<Rightarrow> NotANumber | Some x \<Rightarrow> to_double (if neg then - x else x))
         else NotANumber)"

section \<open>Rounding\<close>

lemma rnd_of_int [simp]: "rnd (of_int n) = n"
  by (simp add: rnd_def)

lemma rnd_error: "\<bar>of_int (rnd x) - x\<bar> \<le> 1 / 2"
proof -
  have "of_int \<lfloor>x\<rfloor> \<le> x" "x < of_int \<lfloor>x\<rfloor> + 1" by linarith+
  then show ?thesis by (auto simp: rnd_def Let_def abs_le_iff field_simps)
qed

lemma bits_bounds: "0 < n \<Longrightarrow> 2 ^ (bits n - 1) \<le> n \<and> n < 2 ^ bits n \<and> 0 < bits n"
proof (induction n rule: bits.induct)
  case (1 n)
  show ?case
  proof (cases "n div 2 = 0")
    case True
    then have "n = 1" using 1(2) by linarith
    then show ?thesis by (simp add: bits.simps)
  next
    case False
    then have ih: "2 ^ (bits (n div 2) - 1) \<le> n div 2" "n div 2 < 2 ^ bits (n div 2)" "0 < bits (n div 2)"
      using 1 by auto
    have "(2::nat) ^ bits (n div 2) = 2 * 2 ^ (bits (n div 2) - 1)"
      using ih(3) by (metis Suc_pred' power_Suc)
    then show ?thesis using ih 1(2) by (simp add: bits.simps [of n]) linarith
  qed
qed

lemma pow2_pos [simp]: "0 < (2 :: rat) powi e"
  by simp

lemma pow2_nat: "(2 :: rat) powi (int a - int b) = 2 ^ a / 2 ^ b"
  by (simp add: power_int_diff)

lemma nat_floor_bounds:
  assumes "1 \<le> (x :: rat)"
  shows "0 < nat \<lfloor>x\<rfloor> \<and> of_nat (nat \<lfloor>x\<rfloor>) \<le> x \<and> x < of_nat (nat \<lfloor>x\<rfloor> + 1)"
proof -
  have "1 \<le> \<lfloor>x\<rfloor>" using assms by (simp add: le_floor_iff)
  then have "(of_nat (nat \<lfloor>x\<rfloor>) :: rat) = of_int \<lfloor>x\<rfloor>" by (simp add: of_nat_nat)
  moreover have "of_int \<lfloor>x\<rfloor> \<le> x" "x < of_int \<lfloor>x\<rfloor> + 1" by linarith+
  ultimately show ?thesis using \<open>1 \<le> \<lfloor>x\<rfloor>\<close> by (simp add: add.commute)
qed

lemma bits_eq:
  assumes "2 ^ k \<le> n" "n < 2 ^ Suc k"
  shows "bits n = Suc k"
proof -
  have "0 < n" using assms(1) by (metis gr0I not_one_le_zero one_le_numeral one_le_power order_trans)
  then have b: "2 ^ (bits n - 1) \<le> n" "n < 2 ^ bits n" "0 < bits n" using bits_bounds by blast+
  have "(2 :: nat) ^ (bits n - 1) < 2 ^ Suc k" "(2 :: nat) ^ k < 2 ^ bits n" using assms b by linarith+
  then have "bits n - 1 < Suc k" "k < bits n" by (simp_all only: power_strict_increasing_iff one_less_numeral_iff rel_simps)
  then show ?thesis using b(3) by simp
qed

lemma bits_rat:
  assumes "0 < n"
  shows "(2 :: rat) ^ bits n = 2 * 2 ^ (bits n - 1) \<and> (2 :: rat) ^ (bits n - 1) \<le> of_nat n
    \<and> of_nat (n + 1) \<le> (2 :: rat) ^ bits n"
proof -
  have b: "2 ^ (bits n - 1) \<le> n" "n + 1 \<le> 2 ^ bits n" "0 < bits n"
    using bits_bounds [OF assms] by auto
  have "(2 :: rat) ^ (bits n - 1) \<le> of_nat n"
    using b(1) by (metis of_nat_le_iff of_nat_numeral of_nat_power)
  moreover have "of_nat (n + 1) \<le> (2 :: rat) ^ bits n"
    using b(2) by (metis of_nat_le_iff of_nat_numeral of_nat_power)
  moreover have "(2 :: rat) ^ bits n = 2 * 2 ^ (bits n - 1)"
    using b(3) by (metis Suc_pred' power_Suc)
  ultimately show ?thesis by blast
qed

lemma expo_bounds:
  assumes "0 < x"
  shows "2 ^ 52 * 2 powi expo x \<le> x \<and> x \<le> 2 ^ 53 * 2 powi expo x"
proof (cases "1 \<le> x")
  case True
  define n where "n = nat \<lfloor>x\<rfloor>"
  have n: "0 < n" "of_nat n \<le> x" "x < of_nat (n + 1)"
    using nat_floor_bounds [OF True] by (auto simp: n_def)
  have "(2 :: rat) powi expo x = 2 ^ bits n / 2 ^ 53"
    using True pow2_nat [of "bits n" 53] by (simp add: expo_def n_def)
  then have "2 ^ 52 * 2 powi expo x = (2 :: rat) ^ (bits n - 1)" "2 ^ 53 * 2 powi expo x = (2 :: rat) ^ bits n"
    using bits_rat [OF n(1)] by simp_all
  then show ?thesis using n(2,3) bits_rat [OF n(1)] by linarith
next
  case False
  define n where "n = nat \<lfloor>1 / x\<rfloor>"
  have y: "1 \<le> 1 / x" using False assms by simp
  have n: "0 < n" "of_nat n \<le> 1 / x" "1 / x < of_nat (n + 1)"
    using nat_floor_bounds [OF y] by (auto simp: n_def)
  have e: "(2 :: rat) powi expo x = 1 / 2 ^ bits n / 2 ^ 52"
    using False by (simp add: expo_def n_def power_int_diff power_int_minus field_simps)
  have b: "(2 :: rat) ^ (bits n - 1) \<le> 1 / x" "1 / x \<le> (2 :: rat) ^ bits n"
    using bits_rat [OF n(1)] n(2,3) by linarith+
  have "1 \<le> x * 2 ^ bits n" using b(2) assms by (simp add: field_simps)
  moreover have "x * 2 ^ bits n \<le> 2"
    using b(1) bits_rat [OF n(1)] assms by (simp add: field_simps)
  ultimately show ?thesis unfolding e by (simp add: field_simps)
qed

lemma fl_0 [simp]: "fl 0 = 0"
  by (simp add: fl_def)

lemma fl_minus [simp]: "fl (- x) = - fl x"
  by (simp add: fl_def Let_def)

lemma powi_mono2: "a \<le> b \<Longrightarrow> (2 :: rat) powi a \<le> 2 powi b"
  by (rule power_int_increasing) simp_all

lemma fl_pos:
  assumes "0 < x"
  obtains u where "fl x = of_int (rnd (x / u)) * u" and "u = 2 powi (max (-1074) (expo x))" and "0 < u"
  using assms by (simp add: fl_def Let_def sgn_if)

text \<open>Relative error at most \<open>2^-53\<close> in the normal range.\<close>

lemma fl_error_pos:
  assumes "2 powi (-1022) \<le> x"
  shows "\<bar>fl x - x\<bar> \<le> x / 2 ^ 53"
proof -
  have x: "0 < x" using assms pow2_pos [of "-1022"] by linarith
  obtain u where u: "fl x = of_int (rnd (x / u)) * u" "u = 2 powi (max (-1074) (expo x))" "0 < u"
    using fl_pos [OF x] by blast
  have "2 ^ 52 * (2 powi (-1074) :: rat) \<le> x"
    using assms by simp
  then have le: "2 ^ 52 * u \<le> x"
    using expo_bounds [OF x] by (simp add: u(2) max_def del: power_int_minus)
  have "fl x - x = (of_int (rnd (x / u)) - x / u) * u"
    using u by (simp add: field_simps)
  then have "\<bar>fl x - x\<bar> = \<bar>of_int (rnd (x / u)) - x / u\<bar> * u"
    using u(3) by (simp add: abs_mult)
  also have "\<dots> \<le> 1 / 2 * u"
    using rnd_error u(3) by (intro mult_right_mono) simp_all
  finally show ?thesis using le by simp
qed

lemma fl_error:
  assumes "2 powi (-1022) \<le> \<bar>x\<bar>"
  shows "\<bar>fl x - x\<bar> \<le> \<bar>x\<bar> / 2 ^ 53"
proof (cases "0 \<le> x")
  case False
  then show ?thesis using fl_error_pos [of "- x"] assms by simp
qed (use fl_error_pos [of x] assms in simp)

text \<open>Integers up to \<open>2^53\<close> are doubles; the rounding of any integer is an integer.\<close>

lemma expo_int: "0 < n \<Longrightarrow> expo (of_int n) = int (bits (nat n)) - 53"
  by (simp add: expo_def)

lemma fl_int_pos:
  assumes "0 < n"
  shows "\<exists>m. fl (of_int n) = of_int m \<and> (n \<le> 2 ^ 53 \<longrightarrow> m = n)"
proof -
  let ?x = "of_int n :: rat" and ?b = "bits (nat n)"
  have x: "0 < ?x" using assms by simp
  obtain u where u: "fl ?x = of_int (rnd (?x / u)) * u" "u = 2 powi (max (-1074) (expo ?x))" "0 < u"
    using fl_pos [OF x] by blast
  have b: "2 ^ (?b - 1) \<le> nat n" "0 < ?b" using bits_bounds [of "nat n"] assms by auto
  have u': "u = 2 powi (int ?b - 53)" by (simp add: u(2) expo_int [OF assms])
  show ?thesis
  proof (cases "?b \<le> 53")
    case True
    define k where "k = 53 - ?b"
    have "int ?b - 53 = - int k" using True by (simp add: k_def)
    then have "?x / u = of_int (n * 2 ^ k)"
      by (simp add: u' power_int_minus divide_inverse)
    then have "fl ?x = ?x / u * u" using u(1) by (metis rnd_of_int)
    then show ?thesis using u(3) by auto
  next
    case False
    have u2: "u = of_int (2 ^ (?b - 53))"
      using False by (simp add: u' power_int_def nat_diff_distrib)
    have "rnd (?x / u) * 2 ^ (?b - 53) = n" if "n \<le> 2 ^ 53"
    proof -
      have n: "nat n \<le> 2 ^ 53" using that by simp
      have "?b - 1 \<le> 53"
        using power_le_imp_le_exp [of "2 :: nat" "?b - 1" 53] le_trans [OF b(1) n] by simp
      then have b54: "?b = 54" using False by simp
      then have "n = 2 ^ 53" using b(1) n assms by simp
      moreover from this have "?x / u = of_int (2 ^ 52)" using u2 b54 by simp
      ultimately show ?thesis using b54 rnd_of_int [of "2 ^ 52"] by simp
    qed
    then show ?thesis using u(1) unfolding u2 by (metis of_int_mult)
  qed
qed

lemma fl_of_int: "\<exists>m. fl (of_int n) = of_int m \<and> (\<bar>n\<bar> \<le> 2 ^ 53 \<longrightarrow> m = n)"
proof (cases n "0 :: int" rule: linorder_cases)
  case less
  then obtain m where "fl (of_int (- n)) = of_int m" "- n \<le> 2 ^ 53 \<longrightarrow> m = - n"
    using fl_int_pos [of "- n"] by auto
  then show ?thesis using less by (intro exI [of _ "- m"]) auto
qed (use fl_int_pos [of n] in auto)

lemma fl_int_exact: "\<bar>n\<bar> \<le> 2 ^ 53 \<Longrightarrow> fl (of_int n) = of_int n"
  using fl_of_int [of n] by auto

lemma num_of_int_fl: "of_int (num_of_int n) = fl (of_int n)"
  using fl_of_int [of n] by (auto simp: num_of_int_def)

lemma num_of_int_exact [simp]: "\<bar>n\<bar> \<le> 2 ^ 53 \<Longrightarrow> num_of_int n = n"
  by (simp add: num_of_int_def fl_int_exact)

end
