(* ===== verification/Amounts.thy ===== *)
theory Amounts
  imports JsNumber "HOL-Library.Signed_Division"
begin

text \<open>
  Amounts as text: \<open>formatCac\<close>, which app.js, explorer/app.js and checkout.js each contain, and the
  way back from a form field to satoshis through \<open>parseFloat\<close> and floating point arithmetic.
\<close>

section \<open>Definitions\<close>

definition COIN :: int where
  "COIN = 100000000"

text \<open>BigInt division truncates towards zero and the remainder takes the sign of the dividend.\<close>

definition formatCac :: "int \<Rightarrow> string" where
  "formatCac s =
     (let whole = s sdiv COIN; frac = padStart (dec_int (s smod COIN)) 8 (CHR ''0'')
      in dec_int whole @ ''.'' @ frac)"

text \<open>The number of satoshis a decimal text with at most eight decimals denotes.\<close>

definition satoshis_of :: "string \<Rightarrow> string \<Rightarrow> nat" where
  "satoshis_of ip fp = dec_num (ip @ fp) * 10 ^ (8 - length fp)"

section \<open>Decimal digits\<close>

lemma dec_digits: "c \<in> set (dec n) \<Longrightarrow> is_digit 10 c"
  by (drule dec_chars) (auto intro!: is_digit_char)

lemma digit_vals: "(\<And>d. d \<in> set ds \<Longrightarrow> d < 16) \<Longrightarrow> map (\<lambda>c. the (digit_val c)) (map digit_char ds) = ds"
  by (induction ds) (simp_all add: digit_val_char)

lemma dec_num_dec [simp]: "dec_num (dec n) = n"
proof (cases "n = 0")
  case False
  have "map (\<lambda>c. the (digit_val c)) (map digit_char (to_digits 10 n [])) = to_digits 10 n []"
    using base10.to_digits_less [of _ n] by (intro digit_vals) fastforce
  then show ?thesis
    using False base10.from_to_digits [of n] by (simp add: dec_num_def dec_def toString_radix_def)
qed (simp add: dec_num_def dec_def toString_radix_def digit_val_def code_unit_def from_digits_def)

lemma dec_num_append: "dec_num (xs @ ys) = dec_num xs * 10 ^ length ys + dec_num ys"
  by (simp add: dec_num_def base10.from_digits_append)

lemma dec_num_zeros: "dec_num (replicate k (CHR ''0'') @ xs) = dec_num xs"
  by (induction k) (simp_all add: dec_num_def digit_val_def code_unit_def from_digits_def)

lemma digit_not: "is_digit 10 c \<Longrightarrow> c \<noteq> CHR ''.'' \<and> c \<noteq> CHR ''-'' \<and> c \<noteq> CHR ''+'' \<and> c \<noteq> CHR ''I'' \<and> \<not> is_space c"
  by (auto simp: is_digit_def digit_val_def code_unit_def is_space_def Let_def split: if_splits)

section \<open>From text to satoshis\<close>

abbreviation digits :: "string \<Rightarrow> bool" where
  "digits s \<equiv> \<forall>c\<in>set s. is_digit 10 c"

lemma dot_not_digit [simp]: "\<not> is_digit 10 (CHR ''.'')"
  using digit_not by blast

lemma span_digits:
  assumes "digits ip"
  shows "takeWhile (is_digit 10) (ip @ CHR ''.'' # r) = ip"
    and "dropWhile (is_digit 10) (ip @ CHR ''.'' # r) = CHR ''.'' # r"
  using assms by (simp_all add: takeWhile_append dropWhile_append)

lemma parse_unsigned_decimal:
  assumes "digits ip" "digits fp" "ip \<noteq> []" "length fp \<le> 8"
  shows "parse_unsigned (ip @ CHR ''.'' # fp) = Some (of_nat (satoshis_of ip fp) / 10 ^ 8)"
proof -
  have fp: "dropWhile (is_digit 10) fp = []" "takeWhile (is_digit 10) fp = fp"
    using assms(2) by (simp_all add: dropWhile_eq_Nil_conv takeWhile_eq_all_conv)
  have "(10 :: rat) ^ (8 - length fp) * 10 ^ length fp = 10 ^ 8"
    using assms(4) by (metis le_add_diff_inverse2 power_add)
  then have "(10 :: rat) powi (- int (length fp)) = 10 ^ (8 - length fp) / 10 ^ 8"
    by (simp add: power_int_minus field_simps)
  then show ?thesis
    unfolding parse_unsigned_def Let_def span_digits [OF assms(1)]
    by (simp add: fp assms(3) parse_exponent_def satoshis_of_def)
qed

lemma parseFloat_decimal:
  assumes "digits ip" "digits fp" "ip \<noteq> []" "length fp \<le> 8"
  shows "parseFloat (ip @ CHR ''.'' # fp) = to_double (of_nat (satoshis_of ip fp) / 10 ^ 8)"
proof -
  obtain c r where ip: "ip = c # r" using assms(3) by (cases ip) auto
  then have c: "is_digit 10 c" using assms(1) by simp
  then have "\<not> startsWith (ip @ CHR ''.'' # fp) ''Infinity''"
    using digit_not [OF c] by (simp add: ip startsWith_Cons)
  then show ?thesis
    using digit_not [OF c] parse_unsigned_decimal [OF assms] by (simp add: ip parseFloat_def)
qed

lemma to_double_Fin:
  assumes "\<bar>fl x\<bar> \<le> 2 ^ 60"
  shows "to_double x = Fin (fl x)"
proof -
  have "(2 :: rat) ^ 60 < 2 ^ 1024" by (rule power_strict_increasing) simp_all
  then have "\<not> 2 ^ 1024 \<le> fl x" "\<not> fl x \<le> - (2 ^ 1024)"
    using assms unfolding abs_le_iff by linarith+
  then show ?thesis unfolding to_double_def Let_def by (simp only: if_False)
qed

text \<open>
  The two roundings, of the literal and of the product by \<open>1e8\<close>, stay within a half of the exact
  number of satoshis below \<open>2^51\<close>.
\<close>

lemma small_normal: "2 powi (-1022) \<le> (1 / 10 ^ 9 :: rat)"
proof -
  have "(2 :: rat) powi (-1022) \<le> 2 powi (-30)" by (rule powi_mono2) simp
  also have "\<dots> \<le> 1 / 10 ^ 9" by (simp add: power_int_minus)
  finally show ?thesis .
qed

lemma fl_error_amount: "1 / 10 ^ 9 \<le> x \<Longrightarrow> \<bar>fl x - x\<bar> \<le> x / 2 ^ 53"
  by (rule fl_error_pos) (rule order_trans [OF small_normal])

lemma two_roundings:
  assumes n: "1 \<le> n" "n < 2 ^ 51"
  defines "a \<equiv> fl (of_int n / 10 ^ 8)"
  shows "\<bar>fl (a * 10 ^ 8) - of_int n\<bar> < 1 / 2"
proof -
  let ?n = "of_int n :: rat"
  have "n \<le> 2251799813685247" using n(2) by simp
  then have "?n \<le> of_int 2251799813685247" by (simp only: of_int_le_iff)
  then have hi: "?n \<le> 2251799813685247" by simp
  have lo: "1 \<le> ?n" using n(1) by simp
  have a: "\<bar>a - ?n / 10 ^ 8\<bar> \<le> ?n / 10 ^ 8 / 2 ^ 53"
    unfolding a_def using lo by (intro fl_error_amount) simp
  have y: "\<bar>a * 10 ^ 8 - ?n\<bar> \<le> ?n / 2 ^ 53"
    using a unfolding abs_le_iff by simp
  have "1 / 10 ^ 9 \<le> a * 10 ^ 8"
    using y lo unfolding abs_le_iff by simp
  then have "\<bar>fl (a * 10 ^ 8) - a * 10 ^ 8\<bar> \<le> a * 10 ^ 8 / 2 ^ 53"
    by (rule fl_error_amount)
  then show ?thesis using y lo hi unfolding abs_le_iff abs_less_iff by simp
qed

lemma floor_half [simp]: "\<lfloor>1 / 2 :: rat\<rfloor> = 0"
  by (rule floor_unique) simp_all

lemma to_satoshis_exact:
  assumes "0 \<le> n" "n < 2 ^ 51"
  shows "to_satoshis (to_double (of_int n / 10 ^ 8)) = Inr n"
proof (cases "n = 0")
  case True
  then show ?thesis
    by (simp add: to_double_Fin to_satoshis_def js_mul_def js_round_def to_BigInt_def)
next
  case False
  let ?n = "of_int n :: rat"
  let ?a = "fl (?n / 10 ^ 8)"
  have n: "1 \<le> n" "n < 2 ^ 51" using assms False by simp_all
  have "?n \<le> of_int (2 ^ 51)" using n(2) by (simp only: of_int_le_iff)
  then have r: "1 \<le> ?n" "?n \<le> 2251799813685248" using n(1) by simp_all
  have lo: "0 \<le> ?n" using n(1) by simp
  have "\<bar>?a - ?n / 10 ^ 8\<bar> \<le> ?n / 10 ^ 8 / 2 ^ 53"
    using r by (intro fl_error_amount) simp
  then have "\<bar>?a\<bar> \<le> 2 ^ 60" using r(2) lo unfolding abs_le_iff by simp
  then have a: "to_double (?n / 10 ^ 8) = Fin ?a" by (rule to_double_Fin)
  have err: "\<bar>fl (?a * 10 ^ 8) - ?n\<bar> < 1 / 2" using two_roundings [OF n] .
  then have "\<bar>fl (?a * 10 ^ 8)\<bar> \<le> 2 ^ 60"
    using r(2) lo unfolding abs_le_iff abs_less_iff by simp
  then have "to_double (?a * 10 ^ 8) = Fin (fl (?a * 10 ^ 8))" by (rule to_double_Fin)
  moreover have "\<lfloor>fl (?a * 10 ^ 8) + 1 / 2\<rfloor> = n"
    using err unfolding abs_less_iff by (intro floor_unique) simp_all
  ultimately show ?thesis
    unfolding a by (simp add: to_satoshis_def js_mul_def js_round_def to_BigInt_def)
qed

lemma formatCac_nonneg:
  assumes "0 \<le> n"
  shows "formatCac n = dec (nat n div 10 ^ 8) @ CHR ''.'' # padStart (dec (nat n mod 10 ^ 8)) 8 (CHR ''0'')"
proof -
  have *: "n sdiv COIN = n div 10 ^ 8" "n smod COIN = n mod 10 ^ 8"
    using assms by (cases "n = 0"; simp add: COIN_def signed_divide_int_def signed_modulo_int_def)+
  have "\<not> n mod 10 ^ 8 < 0" "\<not> n div 10 ^ 8 < 0"
    using assms by (simp_all only: not_less pos_mod_sign zero_less_power zero_less_numeral
        pos_imp_zdiv_nonneg_iff)
  then show ?thesis
    using assms unfolding formatCac_def Let_def dec_int_def * by (simp add: nat_div_distrib nat_mod_distrib)
qed

lemma dec_length_le: "n < 10 ^ k \<Longrightarrow> 0 < k \<Longrightarrow> length (dec n) \<le> k"
  using base10.to_digits_length [of n k] by (simp add: dec_def toString_radix_def)

lemma satoshis_of_formatCac:
  "satoshis_of (dec (n div 10 ^ 8)) (padStart (dec (n mod 10 ^ 8)) 8 (CHR ''0'')) = n"
proof -
  let ?p = "padStart (dec (n mod 10 ^ 8)) 8 (CHR ''0'')"
  have "length ?p = 8" using dec_length_le [of "n mod 10 ^ 8" 8] by (simp add: padStart_def)
  moreover have "dec_num ?p = n mod 10 ^ 8" by (simp add: padStart_def dec_num_zeros)
  ultimately show ?thesis by (simp add: satoshis_of_def dec_num_append)
qed

lemma parseFloat_formatCac:
  assumes "0 \<le> n"
  shows "parseFloat (formatCac n) = to_double (of_int n / 10 ^ 8)"
proof -
  let ?ip = "dec (nat n div 10 ^ 8)" and ?fp = "padStart (dec (nat n mod 10 ^ 8)) 8 (CHR ''0'')"
  have "length ?fp = 8" using dec_length_le [of "nat n mod 10 ^ 8" 8] by (simp add: padStart_def)
  moreover have "digits ?fp"
    using dec_digits by (auto simp: padStart_def is_digit_def digit_val_def code_unit_def)
  ultimately have "parseFloat (formatCac n) = to_double (of_nat (nat n) / 10 ^ 8)"
    using parseFloat_decimal [of ?ip ?fp] dec_digits satoshis_of_formatCac [of "nat n"]
    by (simp add: formatCac_nonneg [OF assms(1)])
  then show ?thesis using assms by (simp add: of_nat_nat)
qed

lemma amount_round_trip:
  assumes "0 \<le> n" "n < 2 ^ 51"
  shows "to_satoshis (parseFloat (formatCac n)) = Inr n"
  using to_satoshis_exact [OF assms] by (simp add: parseFloat_formatCac [OF assms(1)])

text \<open>Beyond the exact range an amount can come back as another one.\<close>

lemma amount_off_by_one: "to_satoshis (parseFloat (formatCac 9007199254740993)) = Inr 9007199254740994"
proof -
  let ?x = "9007199254740993 / 100000000 :: rat" and ?y = "6044629098073147 / 67108864 :: rat"
  have "\<lfloor>?x\<rfloor> = 90071992" "bits 90071992 = 27" by (simp add: floor_eq_iff) (rule bits_eq [of 26, simplified]; simp)
  then have "2 powi max (-1074) (expo \<bar>?x\<bar>) = (1 / 67108864 :: rat)" by (simp add: expo_def power_int_minus)
  moreover have "\<lfloor>\<bar>?x\<bar> / (1 / 67108864)\<rfloor> = 6044629098073146" by (simp add: floor_eq_iff)
  then have "rnd (\<bar>?x\<bar> / (1 / 67108864)) = 6044629098073147" by (simp only: rnd_def Let_def) simp
  ultimately have x: "fl ?x = ?y" by (simp only: fl_def Let_def) simp
  let ?z = "?y * 100000000"
  have "\<lfloor>?z\<rfloor> = 9007199254740993" "bits 9007199254740993 = 54"
    by (simp add: floor_eq_iff) (rule bits_eq [of 53, simplified]; simp)
  then have "2 powi max (-1074) (expo \<bar>?z\<bar>) = (2 :: rat)" by (simp add: expo_def)
  moreover have "\<lfloor>\<bar>?z\<bar> / 2\<rfloor> = 4503599627370496" by (simp add: floor_eq_iff)
  then have "rnd (\<bar>?z\<bar> / 2) = 4503599627370497" by (simp only: rnd_def Let_def) simp
  ultimately have y: "fl ?z = 9007199254740994" by (simp only: fl_def Let_def) simp
  have "parseFloat (formatCac 9007199254740993) = Fin ?y"
    using parseFloat_formatCac [of 9007199254740993] x by (simp add: to_double_def Let_def)
  moreover have "\<lfloor>9007199254740994 + 1 / 2 :: rat\<rfloor> = 9007199254740994" by (simp add: floor_eq_iff)
  ultimately show ?thesis
    using y by (simp add: to_satoshis_def js_mul_def to_double_def js_round_def to_BigInt_def Let_def)
qed

section \<open>Properties\<close>

text \<open>
  C32: The printed form of an amount below \<open>2^51\<close> satoshis (about 22.5 million coins) reads back
  exactly: typing what \<open>formatCac\<close> prints into an amount field gives the same number of satoshis,
  although \<open>parseFloat\<close> and the product by \<open>1e8\<close> both round. Some bound is needed: the text
  \<open>90071992.54740993\<close> of a larger amount, well below the coins that exist, is read as one satoshi more.
\<close>

theorem formatCac_roundtrip:
  "(0 \<le> n \<and> n < 2 ^ 51 \<longrightarrow> to_satoshis (parseFloat (formatCac n)) = Inr n)
   \<and> to_satoshis (parseFloat (formatCac 9007199254740993)) = Inr 9007199254740994"
  using amount_round_trip amount_off_by_one by blast

theorem formatCac_roundtrip_witness:
  "to_satoshis (parseFloat (formatCac 2100000012345678)) = Inr 2100000012345678"
  by (rule formatCac_roundtrip [THEN conjunct1, THEN mp]) simp

text \<open>
  More generally, a typed decimal number with at most eight decimals that denotes fewer than
  \<open>2^51\<close> satoshis is converted to exactly that number of satoshis.
\<close>

theorem amount_field_exact:
  assumes "digits ip" and "digits fp" and "ip \<noteq> []" and "length fp \<le> 8" and "satoshis_of ip fp < 2 ^ 51"
  shows "to_satoshis (parseFloat (ip @ ''.'' @ fp)) = Inr (int (satoshis_of ip fp))"
  using parseFloat_decimal [OF assms(1-4)] to_satoshis_exact [of "int (satoshis_of ip fp)"] assms(5)
  by simp

theorem amount_field_exact_witness:
  "to_satoshis (parseFloat ''0.29'') = Inr 29000000"
proof -
  have "digits ''0''" "digits ''29''" by (simp_all add: is_digit_def digit_val_def code_unit_def)
  moreover have "satoshis_of ''0'' ''29'' = 29000000"
    by (simp add: satoshis_of_def dec_num_def digit_val_def code_unit_def from_digits_def)
  ultimately show ?thesis using amount_field_exact [of "''0''" "''29''"] by simp
qed

end
