(* ===== verification/Transaction.thy ===== *)
theory Transaction
  imports Address Amounts
begin

text \<open>
  Transactions of web-wallet/crypto.js: the byte writers, \<open>serializeTx\<close>, the legacy signature
  hash, DER signatures, \<open>buildAndSignTransaction\<close> and \<open>buildBumpFeeTransaction\<close>. Lengths, output
  indices, sequence numbers and lock times are \<open>nat\<close>; amounts are \<open>int\<close>, the integral Numbers the
  callers store there, written modulo \<open>2^64\<close> as \<open>setBigUint64\<close> does. The properties relate the
  writers to a reference reader of the wire format and to a reference DER reader, and show what
  each signature commits to.
\<close>

section \<open>Definitions\<close>

text \<open>A \<open>DataView\<close> write of \<open>k\<close> bytes, little-endian.\<close>

definition le_bytes :: "nat \<Rightarrow> nat \<Rightarrow> bytes" where
  "le_bytes k n = map (\<lambda>i. of_nat (n div 256 ^ i mod 256)) [0..<k]"

definition varInt :: "nat \<Rightarrow> bytes" where
  "varInt n =
     (if n < 0xfd then [of_nat n]
      else if n \<le> 0xffff then 0xfd # le_bytes 2 n
      else if n \<le> 0xffffffff then 0xfe # le_bytes 4 n
      else 0xff # le_bytes 8 n)"

definition u32le :: "nat \<Rightarrow> bytes" where
  "u32le n = le_bytes 4 n"

definition u64le :: "int \<Rightarrow> bytes" where
  "u64le n = le_bytes 8 (nat (n mod 2 ^ 64))"

text \<open>\<open>out.set(a, off)\<close> into a buffer, and the loop of \<open>concatBytes\<close> over its arguments.\<close>

definition write_at :: "bytes \<Rightarrow> nat \<Rightarrow> bytes \<Rightarrow> bytes" where
  "write_at out off a = take off out @ a @ drop (off + length a) out"

definition concatBytes :: "bytes list \<Rightarrow> bytes" where
  "concatBytes arrs =
     (let total = foldl (\<lambda>n a. n + length a) 0 arrs
      in fst (foldl (\<lambda>(out, off) a. (write_at out off a, off + length a)) (replicate total 0, 0) arrs))"

record tx_input =
  prevTxid :: bytes
  prevVout :: nat
  scriptSig :: bytes
  sequence :: "nat option"

record tx_output =
  scriptPubKey :: bytes
  valueSatoshis :: int

text \<open>\<open>x ?? d\<close>\<close>

definition or_else :: "'a option \<Rightarrow> 'a \<Rightarrow> 'a" where
  "or_else x d = (case x of None \<Rightarrow> d | Some v \<Rightarrow> v)"

definition input_parts :: "tx_input \<Rightarrow> bytes list" where
  "input_parts inp = [prevTxid inp, u32le (prevVout inp), varInt (length (scriptSig inp)), scriptSig inp,
     u32le (or_else (sequence inp) 0xffffffff)]"

definition output_parts :: "tx_output \<Rightarrow> bytes list" where
  "output_parts out = [u64le (valueSatoshis out), varInt (length (scriptPubKey out)), scriptPubKey out]"

definition serializeTx :: "nat \<Rightarrow> tx_input list \<Rightarrow> tx_output list \<Rightarrow> nat \<Rightarrow> bytes" where
  "serializeTx version inputs outputs locktime =
     concatBytes ([u32le version, varInt (length inputs)] @ concat (map input_parts inputs)
       @ [varInt (length outputs)] @ concat (map output_parts outputs) @ [u32le locktime])"

definition blank_inputs :: "nat \<Rightarrow> bytes \<Rightarrow> tx_input list \<Rightarrow> tx_input list" where
  "blank_inputs inputIndex subscript inputs =
     map (\<lambda>(i, inp). inp\<lparr>scriptSig := (if i = inputIndex then subscript else [])\<rparr>)
       (zip [0..<length inputs] inputs)"

definition legacySighash ::
    "crypto \<Rightarrow> tx_input list \<Rightarrow> tx_output list \<Rightarrow> nat \<Rightarrow> bytes \<Rightarrow> nat \<Rightarrow> bytes" where
  "legacySighash C inputs outputs inputIndex subscript locktime =
     (let preimage = serializeTx 2 (blank_inputs inputIndex subscript inputs) outputs locktime;
          withType = concatBytes [preimage, u32le 1]
      in doubleSha256 (sha256 C) withType)"

text \<open>The two functions of \<open>derEncodeSignature\<close>; \<open>bytes[0] & 0x80\<close> tests the top bit.\<close>

definition der_int :: "nat \<Rightarrow> bytes" where
  "der_int n =
     (let hex = toString_radix 16 n;
          hex' = (if length hex mod 2 \<noteq> 0 then ''0'' @ hex else hex);
          bs = hexToBytes hex';
          bs' = (if bs \<noteq> [] \<and> bit (hd bs) 7 then concatBytes [[0], bs] else bs)
      in concatBytes [[0x02, of_nat (length bs')], bs'])"

definition derEncodeSignature :: "signature \<Rightarrow> bytes" where
  "derEncodeSignature sg =
     (let rEnc = der_int (sig_r sg); sEnc = der_int (sig_s sg)
      in concatBytes [[0x30, of_nat (length rEnc + length sEnc)], rEnc, sEnc])"

subsection \<open>Building and signing\<close>

record sign_input =
  si_txid :: bytes
  si_vout :: nat
  si_value :: int
  si_pubkeyHash :: bytes
  si_privateKey :: "bytes option"
  si_publicKey :: "bytes option"
  si_sequence :: "nat option"

definition unsigned_input :: "sign_input \<Rightarrow> tx_input" where
  "unsigned_input u = \<lparr>prevTxid = si_txid u, prevVout = si_vout u, scriptSig = [],
     sequence = Some (or_else (si_sequence u) 0xfffffffd)\<rparr>"

text \<open>
  The body of the signing loop for input \<open>i\<close>: a missing key makes the library call or the
  \<open>.length\<close> access throw.
\<close>

definition sign_one ::
    "crypto \<Rightarrow> tx_output list \<Rightarrow> bytes option \<Rightarrow> bytes option \<Rightarrow> nat \<Rightarrow> tx_input list \<Rightarrow> nat \<Rightarrow> sign_input \<Rightarrow> bytes res" where
  "sign_one C outputs privk pubk locktime txInputs i u =
     (let inputPrivateKey = (case si_privateKey u of None \<Rightarrow> privk | k \<Rightarrow> k);
          inputPublicKey = (case si_publicKey u of None \<Rightarrow> pubk | k \<Rightarrow> k);
          subscript = p2pkhScriptPubKey (si_pubkeyHash u);
          sighash = legacySighash C txInputs outputs i subscript locktime
      in case inputPrivateKey of
           None \<Rightarrow> Inl (TypeErr ''private key'')
         | Some k \<Rightarrow> bindE (secp_sign C sighash k) (\<lambda>sg.
             case inputPublicKey of
               None \<Rightarrow> Inl (TypeErr ''public key'')
             | Some p \<Rightarrow>
                 let sigWithType = concatBytes [derEncodeSignature sg, [0x01]]
                 in Inr (concatBytes [[of_nat (length sigWithType)], sigWithType, [of_nat (length p)], p])))"

fun sign_loop ::
    "crypto \<Rightarrow> tx_output list \<Rightarrow> bytes option \<Rightarrow> bytes option \<Rightarrow> nat \<Rightarrow> tx_input list \<Rightarrow> nat \<Rightarrow> sign_input list
       \<Rightarrow> tx_input list res" where
  "sign_loop C outputs privk pubk locktime txInputs i [] = Inr txInputs"
| "sign_loop C outputs privk pubk locktime txInputs i (u # us) =
     bindE (sign_one C outputs privk pubk locktime txInputs i u) (\<lambda>ss.
       sign_loop C outputs privk pubk locktime (txInputs[i := (txInputs ! i)\<lparr>scriptSig := ss\<rparr>]) (Suc i) us)"

definition buildAndSignTransaction ::
    "crypto \<Rightarrow> sign_input list \<Rightarrow> tx_output list \<Rightarrow> bytes option \<Rightarrow> bytes option \<Rightarrow> nat \<Rightarrow> bytes res" where
  "buildAndSignTransaction C inputs outputs privk pubk locktime =
     (if inputs = [] then Inl (JsError ''No inputs provided'')
      else bindE (sign_loop C outputs privk pubk locktime (map unsigned_input inputs) 0 inputs) (\<lambda>txInputs.
        Inr (serializeTx 2 txInputs outputs locktime)))"

subsection \<open>Bumping the fee of a recorded transaction\<close>

record sent_input =
  sin_txid :: string
  sin_vout :: nat
  sin_value :: int
  sin_derivationIndex :: nat

record sent_output =
  so_scriptPubKeyHex :: string
  so_value :: int
  so_isChange :: bool
  so_changeIndex :: "nat option"

record sent_record =
  sr_inputs :: "sent_input list"
  sr_outputs :: "sent_output list"
  sr_fee :: int
  sr_replacesTxid :: "string option"

text \<open>\<open>findIndex((o) => o.isChange)\<close>\<close>

fun findChange :: "nat \<Rightarrow> sent_output list \<Rightarrow> nat option" where
  "findChange i [] = None"
| "findChange i (out # outs) = (if so_isChange out then Some i else findChange (Suc i) outs)"

definition set_change :: "nat \<Rightarrow> int \<Rightarrow> sent_output list \<Rightarrow> sent_output list" where
  "set_change c v outs =
     map (\<lambda>(i, out). if i = c then out\<lparr>so_value := v\<rparr> else out) (zip [0..<length outs] outs)"

definition bump_input :: "crypto \<Rightarrow> sent_input \<Rightarrow> keypair \<Rightarrow> sign_input" where
  "bump_input C inp k =
     \<lparr>si_txid = rev (hexToBytes (sin_txid inp)), si_vout = sin_vout inp, si_value = sin_value inp,
      si_pubkeyHash = hash160 C (publicKey k), si_privateKey = Some (privateKey k),
      si_publicKey = Some (publicKey k), si_sequence = None\<rparr>"

text \<open>
  \<open>buildBumpFeeTransaction\<close>; the subtractions are on Numbers and round. \<open>inputKeys[i]\<close> beyond
  the array throws.
\<close>

definition buildBumpFeeTransaction ::
    "crypto \<Rightarrow> sent_record \<Rightarrow> int \<Rightarrow> keypair list \<Rightarrow> (bytes \<times> sent_output list) res" where
  "buildBumpFeeTransaction C rec newFee inputKeys =
     (case findChange 0 (sr_outputs rec) of
        None \<Rightarrow> Inl (JsError (''This transaction has no change output to reduce -- can'' @ [CHR 0x27]
                   @ ''t bump its fee automatically here.''))
      | Some c \<Rightarrow>
          let feeIncrease = num_of_int (newFee - sr_fee rec);
              newChangeValue = num_of_int (so_value (sr_outputs rec ! c) - feeIncrease)
          in if newChangeValue \<le> 0 then Inl (JsError ''Not enough change left to cover a higher fee.'')
             else if length inputKeys < length (sr_inputs rec) then Inl (TypeErr ''inputKeys'')
             else let inputs = map (\<lambda>(inp, k). bump_input C inp k) (zip (sr_inputs rec) inputKeys);
                      newOutputs = set_change c newChangeValue (sr_outputs rec);
                      outputs = map (\<lambda>out. \<lparr>scriptPubKey = hexToBytes (so_scriptPubKeyHex out),
                                           valueSatoshis = so_value out\<rparr>) newOutputs
                  in bindE (buildAndSignTransaction C inputs outputs None None 0) (\<lambda>rawTx.
                       Inr (rawTx, newOutputs)))"

subsection \<open>Reference readers\<close>

text \<open>
  A reader of the wire format, written from the format and not from the writers: little-endian
  numbers, compact sizes, inputs, outputs and transactions, each returning the unread rest.
\<close>

definition input_bytes :: "tx_input \<Rightarrow> bytes" where
  "input_bytes inp = concat (input_parts inp)"

definition output_bytes :: "tx_output \<Rightarrow> bytes" where
  "output_bytes out = concat (output_parts out)"

definition get_bytes :: "nat \<Rightarrow> bytes \<Rightarrow> (bytes \<times> bytes) option" where
  "get_bytes k bs = (if length bs < k then None else Some (take k bs, drop k bs))"

definition get_le :: "nat \<Rightarrow> bytes \<Rightarrow> (nat \<times> bytes) option" where
  "get_le k bs = map_option (\<lambda>(xs, rest). (from_digits 256 (rev (map unat xs)), rest)) (get_bytes k bs)"

definition get_varInt :: "bytes \<Rightarrow> (nat \<times> bytes) option" where
  "get_varInt bs =
     (case bs of
        [] \<Rightarrow> None
      | b # rest \<Rightarrow>
          if b = 0xff then get_le 8 rest
          else if b = 0xfe then get_le 4 rest
          else if b = 0xfd then get_le 2 rest
          else Some (unat b, rest))"

definition get_script :: "bytes \<Rightarrow> (bytes \<times> bytes) option" where
  "get_script bs = Option.bind (get_varInt bs) (\<lambda>(n, rest). get_bytes n rest)"

definition get_input :: "bytes \<Rightarrow> (tx_input \<times> bytes) option" where
  "get_input bs =
     Option.bind (get_bytes 32 bs) (\<lambda>(txid, r1).
     Option.bind (get_le 4 r1) (\<lambda>(vout, r2).
     Option.bind (get_script r2) (\<lambda>(script, r3).
     Option.bind (get_le 4 r3) (\<lambda>(sq, r4).
       Some (\<lparr>prevTxid = txid, prevVout = vout, scriptSig = script, sequence = Some sq\<rparr>, r4)))))"

definition get_output :: "bytes \<Rightarrow> (tx_output \<times> bytes) option" where
  "get_output bs =
     Option.bind (get_le 8 bs) (\<lambda>(v, r1).
     Option.bind (get_script r1) (\<lambda>(script, r2).
       Some (\<lparr>scriptPubKey = script, valueSatoshis = int v\<rparr>, r2)))"

fun get_many :: "(bytes \<Rightarrow> ('a \<times> bytes) option) \<Rightarrow> nat \<Rightarrow> bytes \<Rightarrow> ('a list \<times> bytes) option" where
  "get_many get 0 bs = Some ([], bs)"
| "get_many get (Suc n) bs =
     Option.bind (get bs) (\<lambda>(x, r). Option.bind (get_many get n r) (\<lambda>(xs, r'). Some (x # xs, r')))"

definition get_list :: "(bytes \<Rightarrow> ('a \<times> bytes) option) \<Rightarrow> bytes \<Rightarrow> ('a list \<times> bytes) option" where
  "get_list get bs = Option.bind (get_varInt bs) (\<lambda>(n, r). get_many get n r)"

definition deserializeTx :: "bytes \<Rightarrow> (nat \<times> tx_input list \<times> tx_output list \<times> nat) option" where
  "deserializeTx bs =
     Option.bind (get_le 4 bs) (\<lambda>(version, r1).
     Option.bind (get_list get_input r1) (\<lambda>(inputs, r2).
     Option.bind (get_list get_output r2) (\<lambda>(outputs, r3).
     Option.bind (get_le 4 r3) (\<lambda>(locktime, r4).
       if r4 = [] then Some (version, inputs, outputs, locktime) else None))))"

text \<open>What fits the format: 32-byte transaction ids, 32-bit indices, 64-bit amounts and lengths.\<close>

definition wire_input :: "tx_input \<Rightarrow> bool" where
  "wire_input inp \<longleftrightarrow> length (prevTxid inp) = 32 \<and> prevVout inp < 2 ^ 32 \<and> length (scriptSig inp) < 2 ^ 64
     \<and> (case sequence inp of None \<Rightarrow> False | Some s \<Rightarrow> s < 2 ^ 32)"

definition wire_output :: "tx_output \<Rightarrow> bool" where
  "wire_output out \<longleftrightarrow> 0 \<le> valueSatoshis out \<and> valueSatoshis out < 2 ^ 64 \<and> length (scriptPubKey out) < 2 ^ 64"

definition wire_tx :: "nat \<Rightarrow> tx_input list \<Rightarrow> tx_output list \<Rightarrow> nat \<Rightarrow> bool" where
  "wire_tx version inputs outputs locktime \<longleftrightarrow> version < 2 ^ 32 \<and> locktime < 2 ^ 32
     \<and> length inputs < 2 ^ 64 \<and> length outputs < 2 ^ 64
     \<and> list_all wire_input inputs \<and> list_all wire_output outputs"

text \<open>A strict reader of DER signatures: minimal, non-negative integers and exact lengths.\<close>

definition get_der_int :: "bytes \<Rightarrow> (nat \<times> bytes) option" where
  "get_der_int bs =
     (case bs of
        t # l # rest \<Rightarrow>
          if t \<noteq> 0x02 \<or> l = 0 \<or> 128 \<le> unat l then None
          else Option.bind (get_bytes (unat l) rest) (\<lambda>(v, r).
            if bit (hd v) 7 then None
            else if 1 < length v \<and> hd v = 0 \<and> \<not> bit (v ! 1) 7 then None
            else Some (from_digits 256 (map unat v), r))
      | _ \<Rightarrow> None)"

definition derDecode :: "bytes \<Rightarrow> (nat \<times> nat) option" where
  "derDecode bs =
     (case bs of
        t # l # rest \<Rightarrow>
          if t \<noteq> 0x30 \<or> unat l \<noteq> length rest \<or> 128 \<le> unat l then None
          else Option.bind (get_der_int rest) (\<lambda>(r, r1).
               Option.bind (get_der_int r1) (\<lambda>(s, r2). if r2 = [] then Some (r, s) else None))
      | _ \<Rightarrow> None)"

text \<open>A reader of scripts made of direct pushes only, one length byte of 1 to 75 each.\<close>

function get_pushes :: "bytes \<Rightarrow> bytes list option" where
  "get_pushes [] = Some []"
| "get_pushes (n # rest) =
     (if n = 0 \<or> 75 < unat n \<or> length rest < unat n then None
      else map_option ((#) (take (unat n) rest)) (get_pushes (drop (unat n) rest)))"
  by pat_completeness auto
termination by (relation "measure length") (auto simp: le_imp_less_Suc)

text \<open>
  What a signed input is: it spends the given output, with a script that pushes a signature and
  the public key, the signature made over the unsigned transaction with the input's key.
\<close>

definition signed_by ::
    "crypto \<Rightarrow> sign_input list \<Rightarrow> tx_output list \<Rightarrow> bytes option \<Rightarrow> bytes option \<Rightarrow> nat \<Rightarrow> nat \<times> sign_input \<Rightarrow> tx_input \<Rightarrow> bool" where
  "signed_by C inputs outputs privk pubk lt iu t \<longleftrightarrow>
     (let (i, u) = iu in
      prevTxid t = si_txid u \<and> prevVout t = si_vout u \<and> sequence t = Some (or_else (si_sequence u) 0xfffffffd)
      \<and> (case (case si_privateKey u of None \<Rightarrow> privk | k \<Rightarrow> k, case si_publicKey u of None \<Rightarrow> pubk | k \<Rightarrow> k) of
            (Some k, Some p) \<Rightarrow>
              (case secp_sign C (legacySighash C (map unsigned_input inputs) outputs i
                                   (p2pkhScriptPubKey (si_pubkeyHash u)) lt) k of
                 Inr sg \<Rightarrow> get_pushes (scriptSig t) = Some [derEncodeSignature sg @ [0x01], p]
               | Inl e \<Rightarrow> False)
          | _ \<Rightarrow> False))"

text \<open>What \<open>buildAndSignTransaction\<close> needs of its inputs for the result to fit the wire format.\<close>

definition wire_sign_input :: "bytes option \<Rightarrow> sign_input \<Rightarrow> bool" where
  "wire_sign_input pubk u \<longleftrightarrow> length (si_txid u) = 32 \<and> si_vout u < 2 ^ 32
     \<and> or_else (si_sequence u) 0 < 2 ^ 32
     \<and> (case (case si_publicKey u of None \<Rightarrow> pubk | k \<Rightarrow> k) of None \<Rightarrow> True | Some p \<Rightarrow> p \<noteq> [] \<and> length p \<le> 75)"

section \<open>Concatenation\<close>

lemma foldl_length: "foldl (\<lambda>n a. n + length a) n arrs = n + length (concat arrs)"
  by (induction arrs arbitrary: n) simp_all

lemma concat_loop:
  "fst (foldl (\<lambda>(out, off) a. (write_at out off a, off + length a))
          (pre @ replicate (length (concat arrs)) 0, length pre) arrs) = pre @ concat arrs"
proof (induction arrs arbitrary: pre)
  case (Cons a arrs)
  have "write_at (pre @ replicate (length a + length (concat arrs)) 0) (length pre) a
      = (pre @ a) @ replicate (length (concat arrs)) 0"
    by (simp add: write_at_def)
  then show ?case using Cons.IH [of "pre @ a"] by simp
qed simp

lemma concatBytes_eq [simp, wire_simps]: "concatBytes arrs = concat arrs"
  using concat_loop [of "[]" arrs] by (simp add: concatBytes_def foldl_length)

lemma le_bytes_length [simp]: "length (le_bytes k n) = k"
  by (simp add: le_bytes_def)

lemma concat_concat_map: "concat (concat (map f xs)) = concat (map (\<lambda>x. concat (f x)) xs)"
  by (induction xs) simp_all

lemma serializeTx_eq:
  "serializeTx version inputs outputs locktime =
     u32le version @ varInt (length inputs) @ concat (map input_bytes inputs)
       @ varInt (length outputs) @ concat (map output_bytes outputs) @ u32le locktime"
  by (simp add: serializeTx_def concat_concat_map input_bytes_def [abs_def] output_bytes_def [abs_def])

section \<open>Wire codecs\<close>

text \<open>
  The contract between a writer and its reader: the reader takes back exactly what the writer
  wrote and leaves the rest. Every encoding of the wire format is an instance.
\<close>

locale wire_codec =
  fixes put :: "'a \<Rightarrow> bytes"
    and get :: "bytes \<Rightarrow> ('a \<times> bytes) option"
    and ok :: "'a \<Rightarrow> bool"
  assumes get_put: "ok x \<Longrightarrow> get (put x @ rest) = Some (x, rest)"
begin

lemma put_unique:
  assumes "ok x" "ok y" "put x @ r = put y @ r'"
  shows "x = y \<and> r = r'"
  using get_put [OF assms(1), of r] get_put [OF assms(2), of r'] unfolding assms(3) by simp

lemma get_many_put:
  "\<forall>x\<in>set xs. ok x \<Longrightarrow> get_many get (length xs) (concat (map put xs) @ rest) = Some (xs, rest)"
  by (induction xs) (simp_all add: get_put)

end

lemma get_bytes_append [simp]: "get_bytes (length xs) (xs @ rest) = Some (xs, rest)"
  by (simp add: get_bytes_def)

lemma le_bytes_Suc: "le_bytes (Suc k) n = le_bytes k n @ [of_nat (n div 256 ^ k mod 256)]"
  by (simp add: le_bytes_def)

lemma le_value: "from_digits 256 (rev (map unat (le_bytes k n))) = n mod 256 ^ k"
proof (induction k)
  case (Suc k)
  have "from_digits 256 (rev (map unat (le_bytes (Suc k) n))) = (n div 256 ^ k mod 256) * 256 ^ k + n mod 256 ^ k"
    using Suc base256.from_digits_append [of "[n div 256 ^ k mod 256]" "rev (map unat (le_bytes k n))"]
    by (simp add: le_bytes_Suc unat_of_nat_byte from_digits_def)
  also have "\<dots> = n mod 256 ^ Suc k"
    by (metis mod_mult2_eq mult.commute power_Suc2 add.commute)
  finally show ?case .
qed (simp add: le_bytes_def from_digits_def)

lemma get_le_bytes: "n < 256 ^ k \<Longrightarrow> get_le k (le_bytes k n @ rest) = Some (n, rest)"
  using get_bytes_append [of "le_bytes k n" rest] by (simp add: get_le_def le_value)

interpretation u32: wire_codec u32le "get_le 4" "\<lambda>n. n < 2 ^ 32"
  by unfold_locales (simp add: u32le_def get_le_bytes)

lemma byte_of_nat_inj: "n < 256 \<Longrightarrow> m < 256 \<Longrightarrow> (of_nat n :: byte) = of_nat m \<longleftrightarrow> n = m"
  using unat_of_nat_byte [of n] unat_of_nat_byte [of m] by metis

lemma get_varInt_put:
  assumes "n < 2 ^ 64"
  shows "get_varInt (varInt n @ rest) = Some (n, rest)"
proof (cases "n < 0xfd")
  case True
  then have "(of_nat n :: byte) \<noteq> of_nat 0xff" "(of_nat n :: byte) \<noteq> of_nat 0xfe" "(of_nat n :: byte) \<noteq> of_nat 0xfd"
    by (simp_all add: byte_of_nat_inj del: of_nat_numeral)
  then show ?thesis using True by (simp add: varInt_def get_varInt_def unat_of_nat_byte)
next
  case False
  then show ?thesis using assms by (simp add: varInt_def get_varInt_def get_le_bytes)
qed

interpretation size: wire_codec varInt get_varInt "\<lambda>n. n < 2 ^ 64"
  by unfold_locales (rule get_varInt_put)

interpretation script: wire_codec "\<lambda>s. varInt (length s) @ s" get_script "\<lambda>s. length s < 2 ^ 64"
  by unfold_locales (simp add: get_script_def size.get_put)

lemma wire_value: "0 \<le> v \<Longrightarrow> v < 2 ^ 64 \<Longrightarrow> get_le 8 (u64le v @ rest) = Some (nat v, rest)"
  by (simp add: u64le_def get_le_bytes nat_less_iff)

interpretation txin: wire_codec input_bytes get_input wire_input
proof unfold_locales
  fix x rest
  assume ok: "wire_input x"
  then obtain sq where sq: "sequence x = Some sq" "sq < 2 ^ 32"
    by (auto simp: wire_input_def split: option.splits)
  have "get_bytes 32 (prevTxid x @ r) = Some (prevTxid x, r)" for r
    using ok get_bytes_append [of "prevTxid x" r] by (simp add: wire_input_def)
  then show "get_input (input_bytes x @ rest) = Some (x, rest)"
    using ok sq u32.get_put [of "prevVout x"] u32.get_put [of sq] script.get_put [of "scriptSig x"]
    by (simp add: get_input_def input_bytes_def input_parts_def wire_input_def or_else_def)
qed

interpretation txout: wire_codec output_bytes get_output wire_output
proof unfold_locales
  fix x rest
  assume "wire_output x"
  then show "get_output (output_bytes x @ rest) = Some (x, rest)"
    using wire_value [of "valueSatoshis x"] script.get_put [of "scriptPubKey x"]
    by (simp add: get_output_def output_bytes_def output_parts_def wire_output_def)
qed

context wire_codec
begin

lemma get_list_put:
  assumes "\<forall>x\<in>set xs. ok x" "length xs < 2 ^ 64"
  shows "get_list get (varInt (length xs) @ concat (map put xs) @ rest) = Some (xs, rest)"
  using assms by (simp add: get_list_def size.get_put get_many_put)

end

lemma deserialize_serialize:
  assumes "wire_tx version inputs outputs locktime"
  shows "deserializeTx (serializeTx version inputs outputs locktime) = Some (version, inputs, outputs, locktime)"
  using assms txin.get_list_put [of inputs] txout.get_list_put [of outputs] u32.get_put [of version]
    u32.get_put [of locktime "[]"]
  by (simp add: deserializeTx_def serializeTx_eq wire_tx_def list_all_iff)

section \<open>DER signatures\<close>

lemma from_digits_Cons: "1 < b \<Longrightarrow> from_digits b (d # ds) = d * b ^ length ds + from_digits b ds"
  using positional.from_digits_append [of b "[d]" ds] by (simp add: positional_def from_digits_def)

lemma hexToBytes_pair:
  assumes "a < 16" "b < 16"
  shows "hexToBytes (digit_char a # digit_char b # r) = of_nat (16 * a + b) # hexToBytes r"
  using assms by (simp add: parseInt_two_digits uint8_of_def)

lemma hexToBytes_digits:
  assumes "even (length ds)" "\<forall>d\<in>set ds. d < 16"
  shows "from_digits 256 (map unat (hexToBytes (map digit_char ds))) = from_digits 16 ds"
  using assms
proof (induction ds rule: induct_list012)
  case (3 a b ds)
  then have ab: "a < 16" "b < 16" "even (length ds)" by auto
  have "(256 :: nat) ^ (length ds div 2) = 16 ^ length ds"
    using ab(3) power_mult [of "16 :: nat" 2 "length ds div 2"] by simp
  moreover have "from_digits 256 (map unat (hexToBytes (map digit_char ds))) = from_digits 16 ds"
    using 3 by simp
  ultimately show ?case
    using ab unat_of_nat_byte [of "16 * a + b"]
    by (simp add: hexToBytes_pair from_digits_Cons algebra_simps del: hexToBytes_Cons2 of_nat_add of_nat_mult)
qed (simp_all add: from_digits_def)

definition padded_digits :: "nat \<Rightarrow> nat list" where
  "padded_digits n = (let ds = (if n = 0 then [0] else to_digits 16 n []) in if odd (length ds) then 0 # ds else ds)"

lemma padded_hex:
  "(let hex = toString_radix 16 n in if length hex mod 2 \<noteq> 0 then ''0'' @ hex else hex) = map digit_char (padded_digits n)"
  by (simp add: toString_radix_def padded_digits_def Let_def digit_char_def odd_iff_mod_2_eq_one)

lemma padded_digits_props:
  "even (length (padded_digits n))" "\<forall>d\<in>set (padded_digits n). d < 16" "from_digits 16 (padded_digits n) = n"
  "padded_digits n \<noteq> []"
  using base16.to_digits_less [of _ n] base16.from_to_digits [of n] base16.to_digits_hd [of n]
  by (auto simp: padded_digits_def Let_def from_digits_Cons)

lemma padded_digits_shape:
  obtains a b r where "padded_digits n = a # b # r" "a < 16" "b < 16" "n = 0 \<longrightarrow> r = []"
    "0 < n \<longrightarrow> 0 < 16 * a + b"
proof -
  obtain a b r where p: "padded_digits n = a # b # r"
    using padded_digits_props(1,4) [of n] by (cases "padded_digits n"; cases "tl (padded_digits n)") auto
  moreover have "n = 0 \<longrightarrow> r = []" using p by (auto simp: padded_digits_def)
  moreover have "0 < n \<longrightarrow> 0 < 16 * a + b"
    using p base16.to_digits_hd [of n] by (auto simp: padded_digits_def Let_def split: if_splits)
  ultimately show thesis using that padded_digits_props(2) [of n] by auto
qed

lemma padded_digits_length: "n < 256 ^ k \<Longrightarrow> 0 < k \<Longrightarrow> length (padded_digits n) \<le> 2 * k"
proof -
  assume a: "n < 256 ^ k" "0 < k"
  then have "n < 16 ^ (2 * k)" by (simp add: power_mult)
  then have "length (to_digits 16 n []) \<le> 2 * k" by (rule base16.to_digits_length)
  then show ?thesis using a(2) by (auto simp: padded_digits_def Let_def) presburger+
qed

text \<open>The content octets of an encoded integer.\<close>

definition content :: "nat \<Rightarrow> bytes" where
  "content n = hexToBytes (map digit_char (padded_digits n))"

lemma content_props:
  shows "from_digits 256 (map unat (content n)) = n" "content n \<noteq> []"
    "hd (content n) = 0 \<Longrightarrow> length (content n) = 1"
    "n < 256 ^ k \<Longrightarrow> 0 < k \<Longrightarrow> length (content n) \<le> k"
proof -
  obtain a b r where p: "padded_digits n = a # b # r" "a < 16" "b < 16" "n = 0 \<longrightarrow> r = []"
    "0 < n \<longrightarrow> 0 < 16 * a + b"
    using padded_digits_shape .
  then have c: "content n = of_nat (16 * a + b) # hexToBytes (map digit_char r)"
    by (simp add: content_def hexToBytes_pair del: hexToBytes_Cons2)
  show "from_digits 256 (map unat (content n)) = n"
    using padded_digits_props [of n] by (simp add: content_def hexToBytes_digits)
  show "content n \<noteq> []" using c by simp
  have "(of_nat (16 * a + b) :: byte) = of_nat 0 \<Longrightarrow> 16 * a + b = 0"
    using p(2,3) by (subst (asm) byte_of_nat_inj) simp_all
  then show "hd (content n) = 0 \<Longrightarrow> length (content n) = 1"
    unfolding c using p(4,5) by (cases "n = 0") (simp_all del: of_nat_add of_nat_mult)
  show "n < 256 ^ k \<Longrightarrow> 0 < k \<Longrightarrow> length (content n) \<le> k"
    using padded_digits_length [of n k] by (simp add: content_def)
qed

lemma der_int_eq:
  "der_int n = (let bs = (if bit (hd (content n)) 7 then 0 # content n else content n)
                in [0x02, of_nat (length bs)] @ bs)"
  using content_props(2) [of n]
  unfolding der_int_def padded_hex [unfolded Let_def] content_def Let_def by simp

lemma get_der_int_put:
  assumes "n < 2 ^ 256"
  shows "get_der_int (der_int n @ rest) = Some (n, rest)" "length (der_int n) \<le> 35"
proof -
  define bs where "bs = (if bit (hd (content n)) 7 then 0 # content n else content n)"
  have n: "n < 256 ^ 32" using assms by simp
  have len: "length bs \<le> 33" "0 < length bs" "bs \<noteq> []"
    using content_props(4) [OF n] content_props(2) [of n] by (auto simp: bs_def)
  define l :: byte where "l = of_nat (length bs)"
  have d: "der_int n = 0x02 # l # bs" by (simp add: der_int_eq bs_def l_def Let_def)
  have val: "from_digits 256 (map unat bs) = n"
    using content_props(1) [of n] by (simp add: bs_def from_digits_Cons)
  have minimal: "\<not> bit (hd bs) 7" "\<not> (1 < length bs \<and> hd bs = 0 \<and> \<not> bit (bs ! 1) 7)"
    using content_props(2,3) [of n] by (auto simp: bs_def hd_conv_nth [of "content n"])
  have u: "unat l = length bs" unfolding l_def using len by (intro unat_of_nat_byte) simp
  then have "l \<noteq> 0" using len by auto
  then show "get_der_int (der_int n @ rest) = Some (n, rest)"
    using len(1) val minimal get_bytes_append [of bs rest] unfolding u [symmetric]
    by (simp add: d get_der_int_def u)
  show "length (der_int n) \<le> 35" using len by (simp add: d)
qed

interpretation der: wire_codec der_int get_der_int "\<lambda>n. n < 2 ^ 256"
  by unfold_locales (rule get_der_int_put(1))

lemma der_decode_encode:
  assumes "sig_r sg < 2 ^ 256" "sig_s sg < 2 ^ 256"
  shows "derDecode (derEncodeSignature sg) = Some (sig_r sg, sig_s sg)" "length (derEncodeSignature sg) \<le> 72"
proof -
  let ?body = "der_int (sig_r sg) @ der_int (sig_s sg)"
  define l :: byte where "l = of_nat (length (der_int (sig_r sg)) + length (der_int (sig_s sg)))"
  have len: "length ?body \<le> 70"
    using get_der_int_put(2) [OF assms(1)] get_der_int_put(2) [OF assms(2)] by simp
  have d: "derEncodeSignature sg = 0x30 # l # ?body"
    by (simp add: derEncodeSignature_def l_def Let_def)
  have "unat l = length ?body" unfolding l_def using len by (subst unat_of_nat_byte) simp_all
  then show "derDecode (derEncodeSignature sg) = Some (sig_r sg, sig_s sg)"
    using len der.get_put [OF assms(1), of "der_int (sig_s sg)"] der.get_put [OF assms(2), of "[]"]
    by (simp add: d derDecode_def)
  show "length (derEncodeSignature sg) \<le> 72" using len by (simp add: d)
qed

section \<open>Signing\<close>

definition skeleton :: "tx_input list \<Rightarrow> tx_input list" where
  "skeleton txs = map (\<lambda>t. t\<lparr>scriptSig := []\<rparr>) txs"

lemma blank_skeleton: "blank_inputs i s (skeleton txs) = blank_inputs i s txs"
  by (simp add: blank_inputs_def skeleton_def zip_map2 split_def)

lemma sign_one_skeleton:
  "sign_one C outputs privk pubk lt (skeleton txs) i u = sign_one C outputs privk pubk lt txs i u"
  by (simp add: sign_one_def legacySighash_def blank_skeleton)

lemma skeleton_update:
  "i < length txs \<Longrightarrow> skeleton (txs[i := (txs ! i)\<lparr>scriptSig := ss\<rparr>]) = skeleton txs"
  by (auto simp: skeleton_def list_eq_iff_nth_eq nth_list_update)

abbreviation with_scripts :: "tx_input list \<Rightarrow> bytes list \<Rightarrow> tx_input list" where
  "with_scripts txs sss \<equiv> map2 (\<lambda>t ss. t\<lparr>scriptSig := ss\<rparr>) txs sss"

abbreviation sign_all ::
    "crypto \<Rightarrow> tx_output list \<Rightarrow> bytes option \<Rightarrow> bytes option \<Rightarrow> nat \<Rightarrow> tx_input list \<Rightarrow> nat \<Rightarrow> sign_input list
       \<Rightarrow> bytes list res" where
  "sign_all C outputs privk pubk lt txs i us \<equiv>
     mapE (\<lambda>(k, u). sign_one C outputs privk pubk lt txs k u) (enumerate i us)"

lemma sign_all_skeleton:
  "sign_all C outputs privk pubk lt (skeleton txs) i us = sign_all C outputs privk pubk lt txs i us"
  by (simp add: sign_one_skeleton)

lemma sign_loop_eq:
  assumes "i + length us = length txs"
  shows "sign_loop C outputs privk pubk lt txs i us =
    bindE (sign_all C outputs privk pubk lt txs i us) (\<lambda>sss. Inr (take i txs @ with_scripts (drop i txs) sss))"
  using assms
proof (induction us arbitrary: i txs)
  case (Cons u us)
  have i: "i < length txs" using Cons.prems by simp
  have IH: "sign_loop C outputs privk pubk lt (txs[i := (txs ! i)\<lparr>scriptSig := ss\<rparr>]) (Suc i) us
      = bindE (sign_all C outputs privk pubk lt txs (Suc i) us) (\<lambda>sss.
          Inr (take i txs @ with_scripts (drop i txs) (ss # sss)))" for ss
  proof -
    have "sign_all C outputs privk pubk lt (txs[i := (txs ! i)\<lparr>scriptSig := ss\<rparr>]) (Suc i) us
        = sign_all C outputs privk pubk lt txs (Suc i) us"
      using sign_all_skeleton skeleton_update [OF i] by metis
    moreover have "take (Suc i) (txs[i := (txs ! i)\<lparr>scriptSig := ss\<rparr>]) @ with_scripts (drop (Suc i) (txs[i := (txs ! i)\<lparr>scriptSig := ss\<rparr>])) sss
        = take i txs @ with_scripts (drop i txs) (ss # sss)" for sss
      using i by (simp add: take_Suc_conv_app_nth Cons_nth_drop_Suc [symmetric])
    ultimately show ?thesis
      using Cons.IH [of "Suc i" "txs[i := (txs ! i)\<lparr>scriptSig := ss\<rparr>]"] Cons.prems by simp
  qed
  show ?case
    by (simp add: IH bindE_assoc)
qed simp

lemma build_eq:
  assumes "inputs \<noteq> []"
  shows "buildAndSignTransaction C inputs outputs privk pubk lt =
    bindE (sign_all C outputs privk pubk lt (map unsigned_input inputs) 0 inputs) (\<lambda>sss.
      Inr (serializeTx 2 (with_scripts (map unsigned_input inputs) sss) outputs lt))"
  using assms sign_loop_eq [of 0 inputs "map unsigned_input inputs"]
  by (simp add: buildAndSignTransaction_def bindE_assoc)

text \<open>One signed input: the script is two direct pushes.\<close>

lemma get_pushes_two:
  assumes "a \<noteq> []" "length a \<le> 75" "b \<noteq> []" "length b \<le> 75"
  shows "get_pushes (of_nat (length a) # a @ of_nat (length b) # b) = Some [a, b]"
proof -
  have u: "unat (of_nat (length x) :: byte) = length x" "(of_nat (length x) :: byte) \<noteq> 0"
    if "x \<noteq> []" "length x \<le> 75" for x :: bytes
  proof -
    show *: "unat (of_nat (length x) :: byte) = length x" using that(2) by (intro unat_of_nat_byte) simp
    show "(of_nat (length x) :: byte) \<noteq> 0" using that(1) * by (metis length_0_conv unat_0)
  qed
  show ?thesis using assms u [of a] u [of b] by simp
qed

lemma sign_one_signed:
  assumes "sign_one C outputs privk pubk lt (map unsigned_input inputs) i u = Inr ss"
    and "\<And>h k sg. secp_sign C h k = Inr sg \<Longrightarrow> sig_r sg < 2 ^ 256 \<and> sig_s sg < 2 ^ 256"
    and "wire_sign_input pubk u"
  shows "signed_by C inputs outputs privk pubk lt (i, u) ((unsigned_input u)\<lparr>scriptSig := ss\<rparr>) \<and> length ss \<le> 150"
proof -
  obtain k p sg where k: "(case si_privateKey u of None \<Rightarrow> privk | k \<Rightarrow> k) = Some k"
    "(case si_publicKey u of None \<Rightarrow> pubk | k \<Rightarrow> k) = Some p"
    "secp_sign C (legacySighash C (map unsigned_input inputs) outputs i (p2pkhScriptPubKey (si_pubkeyHash u)) lt) k = Inr sg"
    "ss = of_nat (length (derEncodeSignature sg @ [1])) # (derEncodeSignature sg @ [1]) @ of_nat (length p) # p"
    using assms(1) by (auto simp: sign_one_def Let_def bindE_eq_Inr split: option.splits)
  have len: "length (derEncodeSignature sg) \<le> 72"
    using assms(2) [OF k(3)] by (intro der_decode_encode(2)) auto
  have "p \<noteq> []" "length p \<le> 75" using assms(3) k(2) by (auto simp: wire_sign_input_def)
  then show ?thesis
    using k len get_pushes_two [of "derEncodeSignature sg @ [1]" p]
    by (simp add: signed_by_def unsigned_input_def)
qed

lemma signed_transaction:
  assumes "buildAndSignTransaction C inputs outputs privk pubk lt = Inr raw"
    and "\<And>h k sg. secp_sign C h k = Inr sg \<Longrightarrow> sig_r sg < 2 ^ 256 \<and> sig_s sg < 2 ^ 256"
    and "list_all (wire_sign_input pubk) inputs" and "list_all wire_output outputs"
    and "length inputs < 2 ^ 64" and "length outputs < 2 ^ 64" and "lt < 2 ^ 32"
  shows "\<exists>txInputs. deserializeTx raw = Some (2, txInputs, outputs, lt)
    \<and> list_all2 (signed_by C inputs outputs privk pubk lt) (enumerate 0 inputs) txInputs"
proof -
  have ne: "inputs \<noteq> []" using assms(1) by (auto simp: buildAndSignTransaction_def)
  obtain sss where s: "sign_all C outputs privk pubk lt (map unsigned_input inputs) 0 inputs = Inr sss"
    "raw = serializeTx 2 (with_scripts (map unsigned_input inputs) sss) outputs lt"
    using assms(1) by (auto simp: build_eq [OF ne] bindE_eq_Inr)
  let ?txs = "with_scripts (map unsigned_input inputs) sss"
  have len: "length sss = length inputs" using mapE_length [OF s(1)] by simp
  have one: "signed_by C inputs outputs privk pubk lt (i, inputs ! i) (?txs ! i) \<and> wire_input (?txs ! i)"
    if i: "i < length inputs" for i
  proof -
    have w: "wire_sign_input pubk (inputs ! i)" using assms(3) i by (simp add: list_all_length)
    have o: "sign_one C outputs privk pubk lt (map unsigned_input inputs) i (inputs ! i) = Inr (sss ! i)"
      using mapE_nth [OF s(1), of i] i by (simp add: nth_enumerate_eq)
    have "signed_by C inputs outputs privk pubk lt (i, inputs ! i) ((unsigned_input (inputs ! i))\<lparr>scriptSig := sss ! i\<rparr>)
        \<and> length (sss ! i) \<le> 150"
      using o assms(2) w by (rule sign_one_signed)
    then show ?thesis
      using w i len
      by (auto simp: wire_input_def wire_sign_input_def unsigned_input_def or_else_def split: option.splits)
  qed
  then have "wire_tx 2 ?txs outputs lt"
    using assms(4-7) len by (simp add: wire_tx_def list_all_length)
  moreover have "list_all2 (signed_by C inputs outputs privk pubk lt) (enumerate 0 inputs) ?txs"
    using one len by (simp add: list_all2_conv_all_nth nth_enumerate_eq)
  ultimately show ?thesis using s(2) deserialize_serialize by blast
qed

section \<open>Fee bumping\<close>

lemma findChange_none: "list_all (\<lambda>out. \<not> so_isChange out) outs \<Longrightarrow> findChange i outs = None"
  by (induction outs arbitrary: i) simp_all

lemma findChange_first:
  "list_all (\<lambda>out. \<not> so_isChange out) pre \<Longrightarrow> so_isChange ch \<Longrightarrow> findChange i (pre @ ch # post) = Some (i + length pre)"
  by (induction pre arbitrary: i) simp_all

lemma set_change_first: "set_change (length pre) v (pre @ ch # post) = pre @ ch\<lparr>so_value := v\<rparr> # post"
  by (rule nth_equalityI) (auto simp: set_change_def nth_append nth_Cons')

lemma bump_branches:
  assumes "0 \<le> sr_fee rec" "sr_fee rec \<le> 2 ^ 52" "0 \<le> newFee" "newFee \<le> 2 ^ 52"
    and outs: "sr_outputs rec = pre @ ch # post" "list_all (\<lambda>out. \<not> so_isChange out) pre" "so_isChange ch"
    and v: "0 \<le> so_value ch" "so_value ch \<le> 2 ^ 52"
  defines "outs' \<equiv> pre @ ch\<lparr>so_value := so_value ch - (newFee - sr_fee rec)\<rparr> # post"
  shows "so_value ch \<le> newFee - sr_fee rec \<Longrightarrow>
      buildBumpFeeTransaction C rec newFee keys = Inl (JsError ''Not enough change left to cover a higher fee.'')"
    and "newFee - sr_fee rec < so_value ch \<Longrightarrow> length (sr_inputs rec) \<le> length keys \<Longrightarrow>
      buildBumpFeeTransaction C rec newFee keys =
        bindE (buildAndSignTransaction C (map2 (bump_input C) (sr_inputs rec) keys)
          (map (\<lambda>out. \<lparr>scriptPubKey = hexToBytes (so_scriptPubKeyHex out), valueSatoshis = so_value out\<rparr>) outs') None None 0)
          (\<lambda>raw. Inr (raw, outs'))"
proof -
  have n: "num_of_int (newFee - sr_fee rec) = newFee - sr_fee rec"
    "num_of_int (so_value ch - (newFee - sr_fee rec)) = so_value ch - (newFee - sr_fee rec)"
    using assms(1-4) v by (intro num_of_int_exact; simp)+
  show "so_value ch \<le> newFee - sr_fee rec \<Longrightarrow>
      buildBumpFeeTransaction C rec newFee keys = Inl (JsError ''Not enough change left to cover a higher fee.'')"
    by (simp add: buildBumpFeeTransaction_def outs findChange_first n Let_def)
  show "buildBumpFeeTransaction C rec newFee keys =
        bindE (buildAndSignTransaction C (map2 (bump_input C) (sr_inputs rec) keys)
          (map (\<lambda>out. \<lparr>scriptPubKey = hexToBytes (so_scriptPubKeyHex out), valueSatoshis = so_value out\<rparr>) outs') None None 0)
          (\<lambda>raw. Inr (raw, outs'))"
    if "newFee - sr_fee rec < so_value ch" "length (sr_inputs rec) \<le> length keys"
    unfolding buildBumpFeeTransaction_def outs(1) findChange_first [OF outs(2,3)]
    using that by (simp add: n outs'_def set_change_first Let_def)
qed

section \<open>Properties\<close>

text \<open>
  C14: Serialization is faithful to the wire format: reading the bytes of \<open>serializeTx\<close> with the
  reference reader gives back the version, every input and output in order and the lock time,
  with nothing left over.
\<close>

theorem serializeTx_roundtrip:
  assumes "wire_tx version inputs outputs locktime"
  shows "deserializeTx (serializeTx version inputs outputs locktime) = Some (version, inputs, outputs, locktime)"
  using assms by (rule deserialize_serialize)

theorem serializeTx_roundtrip_witness:
  "deserializeTx (serializeTx 2
      [\<lparr>prevTxid = replicate 32 7, prevVout = 1, scriptSig = replicate 300 0, sequence = Some 0xfffffffd\<rparr>]
      [\<lparr>scriptPubKey = replicate 25 9, valueSatoshis = 2 ^ 40\<rparr>] 0)
    = Some (2, [\<lparr>prevTxid = replicate 32 7, prevVout = 1, scriptSig = replicate 300 0, sequence = Some 0xfffffffd\<rparr>],
        [\<lparr>scriptPubKey = replicate 25 9, valueSatoshis = 2 ^ 40\<rparr>], 0)"
  by (rule serializeTx_roundtrip) (simp add: wire_tx_def wire_input_def wire_output_def)

text \<open>
  C18: Signatures are encoded in strict DER: for all \<open>r\<close> and \<open>s\<close> of at most 256 bits, a strict
  reader (minimal non-negative integers, exact lengths) returns them, and the encoding has at
  most 72 bytes.
\<close>

theorem derEncodeSignature_strict:
  assumes "sig_r sg < 2 ^ 256" and "sig_s sg < 2 ^ 256"
  shows "derDecode (derEncodeSignature sg) = Some (sig_r sg, sig_s sg) \<and> length (derEncodeSignature sg) \<le> 72"
  using der_decode_encode [OF assms] by blast

theorem derEncodeSignature_strict_witness:
  "derDecode (derEncodeSignature \<lparr>sig_r = 2 ^ 255, sig_s = 0x7f, sig_recovery = 0\<rparr>) = Some (2 ^ 255, 0x7f)"
  using derEncodeSignature_strict [of "\<lparr>sig_r = 2 ^ 255, sig_s = 0x7f, sig_recovery = 0\<rparr>"] by simp

text \<open>
  C13: A built transaction is complete and every input is signed over the unsigned transaction.
  When \<open>buildAndSignTransaction\<close> returns, the bytes parse to exactly the given outputs and lock
  time and one input per given coin, in order; each script consists of two direct pushes, the DER
  signature with the hash type and the public key, and the signature was made, with that input's
  key, over the legacy hash of the transaction with no signature in it, so the order of signing
  does not matter.
\<close>

theorem buildAndSignTransaction_signed:
  assumes "buildAndSignTransaction C inputs outputs privk pubk locktime = Inr raw"
    and "\<And>h k sg. secp_sign C h k = Inr sg \<Longrightarrow> sig_r sg < 2 ^ 256 \<and> sig_s sg < 2 ^ 256"
    and "list_all (wire_sign_input pubk) inputs" and "list_all wire_output outputs"
    and "length inputs < 2 ^ 64" and "length outputs < 2 ^ 64" and "locktime < 2 ^ 32"
  shows "\<exists>txInputs. deserializeTx raw = Some (2, txInputs, outputs, locktime)
    \<and> list_all2 (signed_by C inputs outputs privk pubk locktime) (enumerate 0 inputs) txInputs"
  using assms by (rule signed_transaction)

definition demo_input :: sign_input where
  "demo_input = \<lparr>si_txid = replicate 32 1, si_vout = 0, si_value = 5000, si_pubkeyHash = replicate 20 3,
     si_privateKey = Some [1], si_publicKey = Some (replicate 33 2), si_sequence = None\<rparr>"

theorem buildAndSignTransaction_signed_witness:
  "\<exists>raw txInputs. buildAndSignTransaction demo_crypto [demo_input] [\<lparr>scriptPubKey = [9], valueSatoshis = 4000\<rparr>] None None 0 = Inr raw
     \<and> deserializeTx raw = Some (2, txInputs, [\<lparr>scriptPubKey = [9], valueSatoshis = 4000\<rparr>], 0)
     \<and> list_all2 (signed_by demo_crypto [demo_input] [\<lparr>scriptPubKey = [9], valueSatoshis = 4000\<rparr>] None None 0)
         (enumerate 0 [demo_input]) txInputs"
proof -
  let ?outs = "[\<lparr>scriptPubKey = [9], valueSatoshis = 4000\<rparr>]"
  obtain raw where raw: "buildAndSignTransaction demo_crypto [demo_input] ?outs None None 0 = Inr raw"
    by (simp add: build_eq sign_one_def demo_input_def demo_crypto_def Let_def)
  show ?thesis
    using raw buildAndSignTransaction_signed [OF raw demo_sign_range]
    by (simp add: wire_sign_input_def wire_output_def demo_input_def or_else_def)
qed

text \<open>
  C19: Bumping the fee moves money only from the change to the fee, or fails. With amounts in the
  exact range of Numbers: without a change output it throws; when the first change output does not
  exceed the fee increase it throws; and it succeeds exactly when the change exceeds the increase,
  there is a key for every input and the new transaction can be signed. Then that change output is
  smaller by exactly the fee increase, every other output is unchanged and the scripts are the same,
  outputs and fee have the same total as before, and the transaction signed spends the recorded
  inputs and pays those outputs.
\<close>

theorem buildBumpFeeTransaction_conserves:
  assumes "0 \<le> sr_fee rec" and "sr_fee rec \<le> 2 ^ 52" and "0 \<le> newFee" and "newFee \<le> 2 ^ 52"
    and "list_all (\<lambda>out. 0 \<le> so_value out \<and> so_value out \<le> 2 ^ 52) (sr_outputs rec)"
  shows "(list_all (\<lambda>out. \<not> so_isChange out) (sr_outputs rec) \<longrightarrow>
      buildBumpFeeTransaction C rec newFee keys =
        Inl (JsError (''This transaction has no change output to reduce -- can'' @ [CHR 0x27]
          @ ''t bump its fee automatically here.'')))
    \<and> (\<forall>pre ch post. sr_outputs rec = pre @ ch # post \<and> list_all (\<lambda>out. \<not> so_isChange out) pre \<and> so_isChange ch \<longrightarrow>
        (so_value ch \<le> newFee - sr_fee rec \<longrightarrow>
           buildBumpFeeTransaction C rec newFee keys = Inl (JsError ''Not enough change left to cover a higher fee.''))
      \<and> (\<forall>raw outs'. buildBumpFeeTransaction C rec newFee keys = Inr (raw, outs') \<longleftrightarrow>
           newFee - sr_fee rec < so_value ch \<and> length (sr_inputs rec) \<le> length keys
         \<and> outs' = pre @ ch\<lparr>so_value := so_value ch - (newFee - sr_fee rec)\<rparr> # post
         \<and> sum_list (map so_value outs') + newFee = sum_list (map so_value (sr_outputs rec)) + sr_fee rec
         \<and> buildAndSignTransaction C (map2 (bump_input C) (sr_inputs rec) keys)
             (map (\<lambda>out. \<lparr>scriptPubKey = hexToBytes (so_scriptPubKeyHex out), valueSatoshis = so_value out\<rparr>) outs')
             None None 0 = Inr raw))"
proof (intro conjI impI allI)
  show "list_all (\<lambda>out. \<not> so_isChange out) (sr_outputs rec) \<Longrightarrow>
      buildBumpFeeTransaction C rec newFee keys =
        Inl (JsError (''This transaction has no change output to reduce -- can'' @ [CHR 0x27]
          @ ''t bump its fee automatically here.''))"
    by (simp add: buildBumpFeeTransaction_def findChange_none)
next
  fix pre ch post
  assume "sr_outputs rec = pre @ ch # post \<and> list_all (\<lambda>out. \<not> so_isChange out) pre \<and> so_isChange ch"
  then have o: "sr_outputs rec = pre @ ch # post" "list_all (\<lambda>out. \<not> so_isChange out) pre" "so_isChange ch"
    "0 \<le> so_value ch" "so_value ch \<le> 2 ^ 52" using assms(5) by simp_all
  note b = bump_branches [OF assms(1-4) o]
  show "so_value ch \<le> newFee - sr_fee rec \<Longrightarrow>
      buildBumpFeeTransaction C rec newFee keys = Inl (JsError ''Not enough change left to cover a higher fee.'')"
    by (rule b(1))
  fix raw outs'
  have k: "length (sr_inputs rec) \<le> length keys" if "buildBumpFeeTransaction C rec newFee keys = Inr (raw, outs')"
    using that by (auto simp: buildBumpFeeTransaction_def Let_def split: option.splits if_splits)
  have g: "newFee - sr_fee rec < so_value ch" if "buildBumpFeeTransaction C rec newFee keys = Inr (raw, outs')"
    using that b(1) by fastforce
  show "buildBumpFeeTransaction C rec newFee keys = Inr (raw, outs') \<longleftrightarrow>
           newFee - sr_fee rec < so_value ch \<and> length (sr_inputs rec) \<le> length keys
         \<and> outs' = pre @ ch\<lparr>so_value := so_value ch - (newFee - sr_fee rec)\<rparr> # post
         \<and> sum_list (map so_value outs') + newFee = sum_list (map so_value (sr_outputs rec)) + sr_fee rec
         \<and> buildAndSignTransaction C (map2 (bump_input C) (sr_inputs rec) keys)
             (map (\<lambda>out. \<lparr>scriptPubKey = hexToBytes (so_scriptPubKeyHex out), valueSatoshis = so_value out\<rparr>) outs')
             None None 0 = Inr raw"
    using b(2) g k by (auto simp: bindE_eq_Inr o(1))
qed

definition demo_record :: sent_record where
  "demo_record = \<lparr>sr_inputs = [\<lparr>sin_txid = ''ab'', sin_vout = 0, sin_value = 9000, sin_derivationIndex = 0\<rparr>],
     sr_outputs = [\<lparr>so_scriptPubKeyHex = ''00'', so_value = 5000, so_isChange = False, so_changeIndex = None\<rparr>,
                   \<lparr>so_scriptPubKeyHex = ''01'', so_value = 3000, so_isChange = True, so_changeIndex = Some 0\<rparr>],
     sr_fee = 1000, sr_replacesTxid = None\<rparr>"

theorem buildBumpFeeTransaction_conserves_witness:
  "(\<exists>raw outs'. buildBumpFeeTransaction demo_crypto demo_record 1500 [\<lparr>privateKey = [1], publicKey = replicate 33 2\<rparr>] = Inr (raw, outs')
     \<and> sum_list (map so_value outs') + 1500 = 9000)
   \<and> buildBumpFeeTransaction demo_crypto demo_record 4000 [\<lparr>privateKey = [1], publicKey = replicate 33 2\<rparr>]
       = Inl (JsError ''Not enough change left to cover a higher fee.'')"
proof -
  let ?k = "[\<lparr>privateKey = [1], publicKey = replicate 33 (2 :: byte)\<rparr>]"
  let ?pre = "[\<lparr>so_scriptPubKeyHex = ''00'', so_value = 5000, so_isChange = False, so_changeIndex = None\<rparr>]"
  let ?ch = "\<lparr>so_scriptPubKeyHex = ''01'', so_value = 3000, so_isChange = True, so_changeIndex = Some 0\<rparr>"
  have num: "num_of_int 500 = 500" "num_of_int 2500 = 2500" by (rule num_of_int_exact, simp)+
  obtain raw outs' where b: "buildBumpFeeTransaction demo_crypto demo_record 1500 ?k = Inr (raw, outs')"
    by (simp add: buildBumpFeeTransaction_def demo_record_def num build_eq sign_one_def bump_input_def
        set_change_def demo_crypto_def Let_def)
  have r: "sr_outputs demo_record = ?pre @ ?ch # [] \<and> list_all (\<lambda>out. \<not> so_isChange out) ?pre \<and> so_isChange ?ch"
    by (simp add: demo_record_def)
  have f: "sr_fee demo_record = 1000" "list_all (\<lambda>out. 0 \<le> so_value out \<and> so_value out \<le> 2 ^ 52) (sr_outputs demo_record)"
    "sum_list (map so_value (sr_outputs demo_record)) = 8000"
    by (simp_all add: demo_record_def)
  have "sum_list (map so_value outs') + 1500 = sum_list (map so_value (sr_outputs demo_record)) + sr_fee demo_record"
    using buildBumpFeeTransaction_conserves [THEN conjunct2, THEN spec, THEN spec, THEN spec, THEN mp, OF _ _ _ _ f(2) r,
        THEN conjunct2, THEN spec, THEN spec, THEN iffD1, OF _ _ _ _ b] f(1,3) by simp
  moreover have "buildBumpFeeTransaction demo_crypto demo_record 4000 ?k
       = Inl (JsError ''Not enough change left to cover a higher fee.'')"
    by (rule buildBumpFeeTransaction_conserves [THEN conjunct2, THEN spec, THEN spec, THEN spec, THEN mp, OF _ _ _ _ f(2) r,
        THEN conjunct1, THEN mp]) (simp_all add: f(1))
  ultimately show ?thesis using b f(1,3) by auto
qed

end
