(* ===== verification/Message.thy ===== *)
theory Message
  imports Transaction
begin

text \<open>
  Signed messages (web-wallet/message.js), with the platform functions they use: the UTF-8
  encoder, on the code units below 256 that the model's strings have, and \<open>btoa\<close> and \<open>atob\<close>, the
  latter with the forgiving rules of the HTML standard. The properties are the completeness of
  verification, what verification accepts, and that different messages are never hashed alike
  by construction of the preimage.
\<close>

section \<open>Definitions\<close>

subsection \<open>Platform functions\<close>

text \<open>\<open>new TextEncoder().encode(s)\<close>\<close>

definition utf8_char :: "char \<Rightarrow> bytes" where
  "utf8_char c = (let n = code_unit c in
     if n < 128 then [of_nat n] else [of_nat (0xC0 + n div 64), of_nat (0x80 + n mod 64)])"

definition utf8_encode :: "string \<Rightarrow> bytes" where
  "utf8_encode s = concat (map utf8_char s)"

definition B64_ALPHABET :: string where
  "B64_ALPHABET = ''ABCDEFGHIJKLMNOPQRSTUVWXYZabcdefghijklmnopqrstuvwxyz0123456789+/''"

text \<open>\<open>btoa\<close> on the bytes of a binary string.\<close>

definition b64_char :: "nat \<Rightarrow> char" where
  "b64_char n = B64_ALPHABET ! n"

fun b64_text :: "nat list \<Rightarrow> string" where
  "b64_text [] = []"
| "b64_text [a] = [b64_char (a div 4), b64_char (a mod 4 * 16)] @ ''==''"
| "b64_text [a, b] = [b64_char (a div 4), b64_char (a mod 4 * 16 + b div 16), b64_char (b mod 16 * 4)] @ ''=''"
| "b64_text (a # b # c # r) =
     [b64_char (a div 4), b64_char (a mod 4 * 16 + b div 16), b64_char (b mod 16 * 4 + c div 64), b64_char (c mod 64)]
       @ b64_text r"

definition btoa :: "bytes \<Rightarrow> string" where
  "btoa bs = b64_text (map unat bs)"

text \<open>
  \<open>atob\<close>: white space is removed, up to two trailing \<open>=\<close> when the length is a multiple of four;
  a remaining length of 1 modulo 4 or a foreign character is an error.
\<close>

definition b64_space :: "char \<Rightarrow> bool" where
  "b64_space c \<longleftrightarrow> code_unit c \<in> {9, 10, 12, 13, 32}"

definition strip_padding :: "string \<Rightarrow> string" where
  "strip_padding s =
     (if length s mod 4 \<noteq> 0 then s
      else if 2 \<le> length s \<and> drop (length s - 2) s = ''=='' then take (length s - 2) s
      else if s \<noteq> [] \<and> last s = CHR ''='' then butlast s
      else s)"

fun sextets_to_bytes :: "nat list \<Rightarrow> nat list" where
  "sextets_to_bytes (a # b # c # d # r) =
     [a * 4 + b div 16, b mod 16 * 16 + c div 4, c mod 4 * 64 + d] @ sextets_to_bytes r"
| "sextets_to_bytes [a, b, c] = [a * 4 + b div 16, b mod 16 * 16 + c div 4]"
| "sextets_to_bytes [a, b] = [a * 4 + b div 16]"
| "sextets_to_bytes _ = []"

definition atob :: "string \<Rightarrow> bytes option" where
  "atob s =
     (let t = strip_padding (filter (\<lambda>c. \<not> b64_space c) s)
      in if length t mod 4 = 1 \<or> \<not> list_all (\<lambda>c. c \<in> set B64_ALPHABET) t then None
         else Some (map of_nat (sextets_to_bytes (map (\<lambda>c. nat (indexOf B64_ALPHABET c)) t))))"

subsection \<open>message.js\<close>

definition MESSAGE_MAGIC :: string where
  "MESSAGE_MAGIC = ''CodexaCoin Signed Message:'' @ [CHR 0x0A]"

definition message_preimage :: "string \<Rightarrow> bytes" where
  "message_preimage message =
     (let magicBytes = utf8_encode MESSAGE_MAGIC; msgBytes = utf8_encode message
      in concatBytes [varInt (length magicBytes), magicBytes, varInt (length msgBytes), msgBytes])"

definition messageHash :: "crypto \<Rightarrow> string \<Rightarrow> bytes" where
  "messageHash C message = sha256 C (sha256 C (message_preimage message))"

definition base64Encode :: "bytes \<Rightarrow> string" where
  "base64Encode bs = btoa bs"

definition base64Decode :: "string \<Rightarrow> bytes res" where
  "base64Decode s = (case atob s of None \<Rightarrow> Inl (JsError ''InvalidCharacterError'') | Some bs \<Rightarrow> Inr bs)"

definition signMessage :: "crypto \<Rightarrow> bytes \<Rightarrow> string \<Rightarrow> string res" where
  "signMessage C privk message =
     (let hash = messageHash C message
      in bindE (secp_sign C hash privk) (\<lambda>sg.
           let header = 27 + sig_recovery sg + 4
           in Inr (base64Encode (concatBytes [[of_nat header], compact_bytes C sg]))))"

definition verifyMessage :: "crypto \<Rightarrow> string \<Rightarrow> string \<Rightarrow> string \<Rightarrow> network \<Rightarrow> bool res" where
  "verifyMessage C address signatureBase64 message net =
     bindE (decodeAddress C address net) (\<lambda>(ty, h).
       if ty \<noteq> P2pkh then Inl (JsError ''Only P2PKH addresses support message signing/verification'')
       else case base64Decode (trim signatureBase64) of
              Inl _ \<Rightarrow> Inl (JsError ''Malformed signature (not valid base64)'')
            | Inr sigBytes \<Rightarrow>
                if length sigBytes \<noteq> 65 then Inl (JsError ''Malformed signature (wrong length)'')
                else let header = unat (sigBytes ! 0)
                     in if header < 27 \<or> 42 < header then Inl (JsError ''Malformed signature (bad header byte)'')
                        else let recovery = (header - 27) mod 4; hash = messageHash C message
                             in case secp_recover C (js_slice_from sigBytes 1) recovery hash of
                                  Inl _ \<Rightarrow> Inr False
                                | Inr pubkey \<Rightarrow> Inr (bytesToHex (hash160 C pubkey) = bytesToHex h))"

section \<open>Base64\<close>

lemma B64_length [simp]: "length B64_ALPHABET = 64"
  by (simp add: B64_ALPHABET_def)

lemma B64_distinct: "distinct B64_ALPHABET"
  by code_simp

lemma b64_char_props:
  assumes "n < 64"
  shows "b64_char n \<in> set B64_ALPHABET" "nat (indexOf B64_ALPHABET (b64_char n)) = n"
    "b64_char n \<noteq> CHR ''=''" "\<not> b64_space (b64_char n)" "\<not> is_space (b64_char n)"
proof -
  show m: "b64_char n \<in> set B64_ALPHABET" using assms by (simp add: b64_char_def)
  show "nat (indexOf B64_ALPHABET (b64_char n)) = n"
    using assms B64_distinct by (simp add: b64_char_def indexOf_nth)
  have "\<forall>c\<in>set B64_ALPHABET. c \<noteq> CHR ''='' \<and> \<not> b64_space c \<and> \<not> is_space c" by code_simp
  then show "b64_char n \<noteq> CHR ''=''" "\<not> b64_space (b64_char n)" "\<not> is_space (b64_char n)" using m by blast+
qed

text \<open>The sextets of a byte list, without padding.\<close>

fun sextets :: "nat list \<Rightarrow> nat list" where
  "sextets [] = []"
| "sextets [a] = [a div 4, a mod 4 * 16]"
| "sextets [a, b] = [a div 4, a mod 4 * 16 + b div 16, b mod 16 * 4]"
| "sextets (a # b # c # r) = [a div 4, a mod 4 * 16 + b div 16, b mod 16 * 4 + c div 64, c mod 64] @ sextets r"

fun padding :: "nat list \<Rightarrow> string" where
  "padding [] = []"
| "padding [a] = ''==''"
| "padding [a, b] = ''=''"
| "padding (a # b # c # r) = padding r"

lemma b64_text_eq: "b64_text ns = map b64_char (sextets ns) @ padding ns"
  by (induction ns rule: b64_text.induct) simp_all

lemma sextets_less: "\<forall>n\<in>set ns. n < 256 \<Longrightarrow> n \<in> set (sextets ns) \<Longrightarrow> n < 64"
  by (induction ns rule: sextets.induct) (auto simp: less_mult_imp_div_less)

lemma sextets_inverse: "\<forall>n\<in>set ns. n < 256 \<Longrightarrow> sextets_to_bytes (sextets ns) = ns"
proof (induction ns rule: sextets.induct)
  case (4 a b c r)
  have "b div 16 < 16" "c div 64 < 4" using 4(2) by (simp_all add: less_mult_imp_div_less)
  then have "(a mod 4 * 16 + b div 16) div 16 = a mod 4" "(a mod 4 * 16 + b div 16) mod 16 = b div 16"
    "(b mod 16 * 4 + c div 64) div 4 = b mod 16" "(b mod 16 * 4 + c div 64) mod 4 = c div 64"
    by simp_all
  then show ?case using 4 by simp
next
  case (3 a b)
  have "b div 16 < 16" using 3 by (simp add: less_mult_imp_div_less)
  then have "(a mod 4 * 16 + b div 16) div 16 = a mod 4" "(a mod 4 * 16 + b div 16) mod 16 = b div 16"
    by simp_all
  then show ?case by simp
qed simp_all

lemma sextets_padding:
  "length (sextets ns) mod 4 = 0 \<and> padding ns = [] \<or> length (sextets ns) mod 4 = 2 \<and> padding ns = ''==''
     \<or> length (sextets ns) mod 4 = 3 \<and> padding ns = ''=''"
proof (induction ns rule: sextets.induct)
  case (4 a b c r)
  have "length (sextets (a # b # c # r)) = 4 + length (sextets r)" by simp
  then show ?case using 4 by (simp only: mod_add_self1 padding.simps)
qed simp_all

lemma strip_padding_text:
  assumes "\<forall>n\<in>set ss. n < 64"
    and "length ss mod 4 = 0 \<and> p = [] \<or> length ss mod 4 = 2 \<and> p = ''=='' \<or> length ss mod 4 = 3 \<and> p = ''=''"
  shows "strip_padding (map b64_char ss @ p) = map b64_char ss"
proof -
  have l: "length (map b64_char ss @ p) mod 4 = 0" using assms(2) by (auto; presburger)
  have eq: "c \<noteq> CHR ''=''" if "c \<in> set (map b64_char ss)" for c
    using that assms(1) b64_char_props(3) by auto
  consider "p = []" | "p = ''==''" | "p = ''=''" using assms(2) by blast
  then show ?thesis
  proof cases
    case 1
    have "CHR ''='' \<notin> set (drop (length ss - 2) (map b64_char ss))"
      using eq in_set_dropD by fast
    then have "drop (length ss - 2) (map b64_char ss) \<noteq> ''==''" by auto
    moreover have "ss \<noteq> [] \<Longrightarrow> last (map b64_char ss) \<noteq> CHR ''=''"
      using eq last_in_set by blast
    ultimately show ?thesis using 1 by (cases "ss = []") (simp_all add: strip_padding_def)
  next
    case 2
    then show ?thesis using l by (simp add: strip_padding_def)
  next
    case 3
    have "ss \<noteq> []" using 3 assms(2) by auto
    then obtain ss' x where ss: "ss = ss' @ [x]" by (metis rev_exhaust)
    then have "b64_char x \<noteq> CHR ''=''" using eq by simp
    then show ?thesis using 3 l by (simp add: strip_padding_def ss butlast_append)
  qed
qed

lemma base64_roundtrip [simp]: "atob (btoa bs) = Some bs"
proof -
  let ?ns = "map unat bs"
  have ns: "\<forall>n\<in>set ?ns. n < 256" using unat_byte_less by auto
  have s: "\<forall>n\<in>set (sextets ?ns). n < 64" using sextets_less [OF ns] by blast
  have t: "btoa bs = map b64_char (sextets ?ns) @ padding ?ns" by (simp add: btoa_def b64_text_eq)
  have "c \<in> set (padding ?ns) \<Longrightarrow> \<not> b64_space c" for c
    using sextets_padding [of ?ns] by (auto simp: b64_space_def code_unit_def)
  then have f: "filter (\<lambda>c. \<not> b64_space c) (btoa bs) = btoa bs"
    using s b64_char_props(4) by (auto simp: t filter_id_conv)
  have p: "strip_padding (btoa bs) = map b64_char (sextets ?ns)"
    unfolding t using s sextets_padding by (rule strip_padding_text)
  have "list_all (\<lambda>c. c \<in> set B64_ALPHABET) (map b64_char (sextets ?ns))"
    using s b64_char_props(1) by (auto simp: list_all_iff)
  moreover have "map (\<lambda>c. nat (indexOf B64_ALPHABET c)) (map b64_char (sextets ?ns)) = sextets ?ns"
    using s b64_char_props(2) by (simp add: map_idI)
  moreover have "length (sextets ?ns) mod 4 \<noteq> 1" using sextets_padding [of ?ns] by auto
  moreover have "map of_nat (map unat bs) = bs" by simp
  ultimately show ?thesis
    by (simp add: atob_def f p sextets_inverse [OF ns] del: map_map)
qed

lemma btoa_no_space: "c \<in> set (btoa bs) \<Longrightarrow> \<not> is_space c"
proof -
  have "\<forall>n\<in>set (map unat bs). n < 256" using unat_byte_less by auto
  then have "n < 64" if "n \<in> set (sextets (map unat bs))" for n using that sextets_less by blast
  moreover have "c \<in> set (padding ns) \<Longrightarrow> \<not> is_space c" for ns
    using sextets_padding [of ns] by (auto simp: is_space_def code_unit_def)
  ultimately show "c \<in> set (btoa bs) \<Longrightarrow> \<not> is_space c"
    using b64_char_props(5) by (auto simp: btoa_def b64_text_eq)
qed

lemma trim_no_space: "(\<And>c. c \<in> set s \<Longrightarrow> \<not> is_space c) \<Longrightarrow> trim s = s"
proof -
  assume a: "\<And>c. c \<in> set s \<Longrightarrow> \<not> is_space c"
  have "dropWhile is_space xs = xs" if "\<And>c. c \<in> set xs \<Longrightarrow> \<not> is_space c" for xs
    using that by (cases xs) auto
  from this [of s] this [of "rev s"] show ?thesis using a by (simp add: trim_def)
qed

section \<open>The preimage\<close>

lemma utf8_char_cases:
  "utf8_char c = (if code_unit c < 128 then [of_nat (code_unit c)]
     else [of_nat (192 + code_unit c div 64), of_nat (128 + code_unit c mod 64)])"
  by (simp add: utf8_char_def Let_def)

lemma utf8_char_prefix: "utf8_char c @ xs = utf8_char d @ ys \<Longrightarrow> c = d \<and> xs = ys"
proof -
  assume eq: "utf8_char c @ xs = utf8_char d @ ys"
  have u: "unat (of_nat n :: byte) = n" if "n < 256" for n using that by (rule unat_of_nat_byte)
  have hi: "192 + code_unit c div 64 < 256" for c
    using code_unit_less [of c] by (simp add: less_mult_imp_div_less)
  have lo: "128 + code_unit c mod 64 < 256" for c
    using mod_less_divisor [of 64 "code_unit c"] by linarith
  have hd: "unat (hd (utf8_char c)) = (if code_unit c < 128 then code_unit c else 192 + code_unit c div 64)" for c
    using u [of "code_unit c"] u [OF hi [of c]] by (simp add: utf8_char_cases del: of_nat_add)
  have h: "hd (utf8_char c) = hd (utf8_char d)"
    using eq by (auto simp: utf8_char_cases split: if_splits)
  then have same: "code_unit c < 128 \<longleftrightarrow> code_unit d < 128"
    using hd [of c] hd [of d] by (auto split: if_splits)
  have "code_unit c = code_unit d \<and> xs = ys"
  proof (cases "code_unit c < 128")
    case True
    then show ?thesis using eq same hd [of c] hd [of d] h by (simp add: utf8_char_cases)
  next
    case False
    then have q: "code_unit c div 64 = code_unit d div 64" using hd [of c] hd [of d] h same by simp
    have "(of_nat (128 + code_unit c mod 64) :: byte) = of_nat (128 + code_unit d mod 64)" "xs = ys"
      using eq False same by (simp_all add: utf8_char_cases del: of_nat_add)
    then have "code_unit c mod 64 = code_unit d mod 64" "xs = ys"
      using u [OF lo [of c]] u [OF lo [of d]] by (metis add_left_cancel)+
    then show ?thesis using q by (metis div_mult_mod_eq)
  qed
  then show ?thesis by (simp add: code_unit_def)
qed

lemma utf8_inj: "utf8_encode s = utf8_encode t \<Longrightarrow> s = t"
proof (induction s arbitrary: t)
  case Nil
  then show ?case by (cases t) (simp_all add: utf8_encode_def utf8_char_cases split: if_splits)
next
  case (Cons c s)
  then obtain d t' where t: "t = d # t'"
    by (cases t) (simp_all add: utf8_encode_def utf8_char_cases split: if_splits)
  then show ?case using Cons utf8_char_prefix [of c _ d] by (fastforce simp: utf8_encode_def)
qed

lemma preimage_inj:
  assumes "message_preimage a = message_preimage b" "length (utf8_encode a) < 2 ^ 64" "length (utf8_encode b) < 2 ^ 64"
  shows "a = b"
proof -
  have "varInt (length (utf8_encode a)) @ utf8_encode a = varInt (length (utf8_encode b)) @ utf8_encode b"
    using assms(1) by (simp add: message_preimage_def Let_def)
  then have "utf8_encode a = utf8_encode b" using assms(2,3) size.put_unique by blast
  then show ?thesis by (rule utf8_inj)
qed

section \<open>Verification\<close>

lemma decode_trimmed: "base64Decode (trim (btoa bs)) = Inr bs"
  by (simp add: base64Decode_def trim_no_space [OF btoa_no_space])

lemma verify_btoa:
  assumes "decodeAddress C address net = Inr (P2pkh, h)" "length cs = 64"
  shows "verifyMessage C address (btoa (hb # cs)) message net =
    (if unat hb < 27 \<or> 42 < unat hb then Inl (JsError ''Malformed signature (bad header byte)'')
     else case secp_recover C cs ((unat hb - 27) mod 4) (messageHash C message) of
            Inl _ \<Rightarrow> Inr False
          | Inr pubkey \<Rightarrow> Inr (hash160 C pubkey = h))"
  using assms by (simp add: verifyMessage_def decode_trimmed js_slice_from_nonneg Let_def split: sum.split)

lemma verify_signed:
  assumes "\<And>h k sg. secp_sign C h k = Inr sg \<Longrightarrow> length (compact_bytes C sg) = 64 \<and> sig_recovery sg < 4
      \<and> secp_recover C (compact_bytes C sg) (sig_recovery sg) h = Inr (pubkey_of k)"
    and "signMessage C k message = Inr sig"
    and "decodeAddress C address net = Inr (P2pkh, hash160 C (pubkey_of k))"
  shows "verifyMessage C address sig message net = Inr True"
proof -
  obtain sg where sg: "secp_sign C (messageHash C message) k = Inr sg"
    "sig = btoa (of_nat (27 + sig_recovery sg + 4) # compact_bytes C sg)"
    using assms(2) by (auto simp: signMessage_def base64Encode_def bindE_eq_Inr Let_def)
  have l: "length (compact_bytes C sg) = 64" "sig_recovery sg < 4"
    "secp_recover C (compact_bytes C sg) (sig_recovery sg) (messageHash C message) = Inr (pubkey_of k)"
    using assms(1) [OF sg(1)] by auto
  have "unat (of_nat (27 + sig_recovery sg + 4) :: byte) = 31 + sig_recovery sg"
    using l(2) by (subst unat_of_nat_byte) simp_all
  moreover have "(31 + sig_recovery sg - 27) mod 4 = sig_recovery sg" using l(2) by simp
  ultimately show ?thesis
    unfolding sg(2) verify_btoa [OF assms(3) l(1)] using l(2,3) by (simp del: of_nat_add)
qed

section \<open>Properties\<close>

text \<open>
  C21: A signed message verifies against the signer's own address: what \<open>signMessage\<close> returns for a
  key is accepted by \<open>verifyMessage\<close> for the same message and the P2PKH address the wallet makes of
  that key, whatever the message; always on the test network, and on the main network unless that
  address, read in lower case, starts with the bech32 prefix \<open>cac1\<close>: then verification throws, as
  decoding the address does. The hash functions are assumed to return digests of their length, and
  the signature library 64-byte compact signatures with a recovery number below four from which
  the public key is recovered.
\<close>

theorem verifyMessage_complete:
  assumes "\<And>m. length (sha256 C m) = 32" and "\<And>m. length (ripemd160 C m) = 20"
    and "\<And>h k sg. secp_sign C h k = Inr sg \<Longrightarrow> length (compact_bytes C sg) = 64 \<and> sig_recovery sg < 4
      \<and> secp_recover C (compact_bytes C sg) (sig_recovery sg) h = Inr (pubkey_of k)"
    and "signMessage C k message = Inr sig"
  shows "(\<exists>a. p2pkhAddress C (hash160 C (pubkey_of k)) testnet = Inr a \<and> verifyMessage C a sig message testnet = Inr True)
    \<and> (\<exists>a. p2pkhAddress C (hash160 C (pubkey_of k)) mainnet = Inr a
        \<and> verifyMessage C a sig message mainnet =
            (if startsWith (toLowerCase a) ''cac1'' then Inl (JsError ''Address is for a different network'') else Inr True))"
proof -
  let ?h = "hash160 C (pubkey_of k)"
  have h: "length ?h = 20" by (simp add: hash160_def assms(2))
  have v: "verifyMessage C a sig message net = Inr True" if "decodeAddress C a net = Inr (P2pkh, ?h)" for a net
    by (rule verify_signed [of C pubkey_of, OF _ assms(4) that]) (rule assms(3))
  have "decodeAddress C (base58checkEncode (sha256 C) (0x6f # ?h)) testnet = Inr (P2pkh, ?h)"
    using legacy_decode(3) [OF assms(1) h, of testnet] by (simp add: network_simps)
  then have "verifyMessage C (base58checkEncode (sha256 C) (0x6f # ?h)) sig message testnet = Inr True" by (rule v)
  moreover have "verifyMessage C a sig message mainnet =
      (if startsWith (toLowerCase a) ''cac1'' then Inl (JsError ''Address is for a different network'') else Inr True)"
    if "p2pkhAddress C ?h mainnet = Inr a" for a
    using decode_main_p2pkh [OF assms(1) h that] v [of a mainnet] by (simp add: verifyMessage_def)
  ultimately show ?thesis using address_bytes(1,3) [OF h] by blast
qed

lemma demo_recover:
  "secp_sign demo_crypto h k = Inr sg \<Longrightarrow> length (compact_bytes demo_crypto sg) = 64 \<and> sig_recovery sg < 4
     \<and> secp_recover demo_crypto (compact_bytes demo_crypto sg) (sig_recovery sg) h = Inr (replicate 33 2)"
  by (auto simp: demo_crypto_def)

theorem verifyMessage_complete_witness:
  "\<exists>a sig. signMessage demo_crypto [7] ''hello'' = Inr sig
     \<and> p2pkhAddress demo_crypto (hash160 demo_crypto (replicate 33 2)) testnet = Inr a
     \<and> verifyMessage demo_crypto a sig ''hello'' testnet = Inr True"
proof -
  obtain sig where sig: "signMessage demo_crypto [7] ''hello'' = Inr sig"
    by (simp add: signMessage_def demo_crypto_def Let_def)
  have "\<exists>a. p2pkhAddress demo_crypto (hash160 demo_crypto (replicate 33 2)) testnet = Inr a
      \<and> verifyMessage demo_crypto a sig ''hello'' testnet = Inr True"
    by (rule verifyMessage_complete [where pubkey_of = "\<lambda>_. replicate 33 2", OF _ _ _ sig, THEN conjunct1])
      (simp_all add: demo_recover)
  then show ?thesis using sig by blast
qed

text \<open>
  The header byte of a signature is malleable: verification looks at the header modulo four
  only, so replacing it by any other byte from 27 to 42 in the same class, those of the
  uncompressed and segwit conventions included, never changes the outcome.
\<close>

theorem verifyMessage_header_classes:
  assumes "length cs = 64" and "27 \<le> unat hb" and "unat hb \<le> 42" and "27 \<le> unat hb'" and "unat hb' \<le> 42"
    and "(unat hb - 27) mod 4 = (unat hb' - 27) mod 4"
  shows "verifyMessage C address (btoa (hb # cs)) message net = verifyMessage C address (btoa (hb' # cs)) message net"
proof (cases "decodeAddress C address net")
  case (Inl e)
  then show ?thesis by (simp add: verifyMessage_def)
next
  case (Inr r)
  obtain ty h where r: "r = (ty, h)" by (cases r)
  then show ?thesis
    using Inr assms verify_btoa [of C address net h cs] by (cases ty) (simp_all add: verifyMessage_def)
qed

theorem verifyMessage_header_classes_witness:
  "verifyMessage demo_crypto ''C'' (btoa (27 # replicate 64 1)) ''m'' mainnet
     = verifyMessage demo_crypto ''C'' (btoa (39 # replicate 64 1)) ''m'' mainnet"
  by (rule verifyMessage_header_classes) simp_all

text \<open>
  Different messages have different preimages: the bytes that are hashed determine the message,
  the length prefixes leaving no room for a message to imitate another.
\<close>

theorem message_preimage_injective:
  assumes "message_preimage a = message_preimage b"
    and "length (utf8_encode a) < 2 ^ 64" and "length (utf8_encode b) < 2 ^ 64"
  shows "a = b"
  using assms by (rule preimage_inj)

theorem message_preimage_injective_witness:
  "message_preimage ''caf'' = message_preimage ''caf'' \<and> ''caf'' = ''caf''"
  using message_preimage_injective [OF refl, of "''caf''"]
  by (simp add: utf8_encode_def utf8_char_def code_unit_def)

end
