(* ===== verification/Storage.thy ===== *)
theory Storage
  imports Message
begin

text \<open>
  What the wallet keeps in the browser, and web-wallet/storage.js. A \<open>store\<close> has one field per key
  of \<open>localStorage\<close> (and of \<open>sessionStorage\<close> for the staking token) that the program uses; where
  the program stores the JSON text of a value, the field holds the value. The browser's
  \<open>crypto.subtle\<close> is a parameter, as are the random bytes \<open>getRandomValues\<close> returns.
\<close>

section \<open>Definitions\<close>

record enc_blob =
  eb_salt :: string
  eb_iv :: string
  eb_ciphertext :: string

record watch_entry =
  we_label :: string
  we_address :: string
  we_xpubGroup :: "string option"

record store =
  ls_network :: "string option"
  ls_mnemonic :: "string option"
  ls_encrypted :: "enc_blob option"
  ls_indices :: "string \<Rightarrow> nat list option"
  ls_book :: "(string \<times> string) list option"
  ls_watch :: "watch_entry list option"
  ls_sent :: "(string \<rightharpoonup> sent_record) option"
  ls_theme :: "string option"
  ls_gateway_url :: "string \<Rightarrow> string option"
  ss_stakeToken :: "string option"

text \<open>
  \<^item> \<open>derive_key p s n\<close>: \<open>importKey\<close> and PBKDF2 with SHA-256 of a password, salt and iteration count;
  \<^item> \<open>aes_encrypt k iv m\<close>, \<open>aes_decrypt k iv c\<close>: AES-GCM, the latter throwing when the tag is wrong.
\<close>

record webcrypto =
  derive_key :: "bytes \<Rightarrow> bytes \<Rightarrow> nat \<Rightarrow> bytes"
  aes_encrypt :: "bytes \<Rightarrow> bytes \<Rightarrow> bytes \<Rightarrow> bytes"
  aes_decrypt :: "bytes \<Rightarrow> bytes \<Rightarrow> bytes \<Rightarrow> bytes res"

definition PBKDF2_ITERATIONS :: nat where
  "PBKDF2_ITERATIONS = 200000"

text \<open>
  \<open>new TextDecoder().decode(bs)\<close>, on the text of code points below 256; other text has no
  representation as a string of the model.
\<close>

fun utf8_decode :: "bytes \<Rightarrow> string option" where
  "utf8_decode [] = Some []"
| "utf8_decode (b # bs) =
     (if unat b < 128 then map_option ((#) (char_of (unat b))) (utf8_decode bs)
      else case bs of
             [] \<Rightarrow> None
           | c # cs \<Rightarrow> if (unat b = 194 \<or> unat b = 195) \<and> 128 \<le> unat c \<and> unat c < 192
                      then map_option ((#) (char_of ((unat b - 192) * 64 + (unat c - 128)))) (utf8_decode cs)
                      else None)"

definition deriveAesKey :: "webcrypto \<Rightarrow> string \<Rightarrow> bytes \<Rightarrow> bytes" where
  "deriveAesKey W pin saltBytes = derive_key W (utf8_encode pin) saltBytes PBKDF2_ITERATIONS"

definition encryptMnemonic :: "webcrypto \<Rightarrow> bytes \<Rightarrow> bytes \<Rightarrow> string \<Rightarrow> string \<Rightarrow> enc_blob" where
  "encryptMnemonic W salt iv mnemonic pin =
     (let key = deriveAesKey W pin salt;
          ciphertext = aes_encrypt W key iv (utf8_encode mnemonic)
      in \<lparr>eb_salt = bytesToHex salt, eb_iv = bytesToHex iv, eb_ciphertext = bytesToHex ciphertext\<rparr>)"

definition decryptMnemonic :: "webcrypto \<Rightarrow> enc_blob \<Rightarrow> string \<Rightarrow> string res" where
  "decryptMnemonic W blob pin =
     (let salt = hexToBytes (eb_salt blob); iv = hexToBytes (eb_iv blob); key = deriveAesKey W pin salt
      in bindE (aes_decrypt W key iv (hexToBytes (eb_ciphertext blob))) (\<lambda>plaintext.
           case utf8_decode plaintext of
             None \<Rightarrow> Inl (RangeErr ''text outside the strings of the model'')
           | Some s \<Rightarrow> Inr s))"

definition isPinSet :: "store \<Rightarrow> bool" where
  "isPinSet ls \<longleftrightarrow> ls_encrypted ls \<noteq> None"

definition loadEncryptedBlob :: "store \<Rightarrow> enc_blob option" where
  "loadEncryptedBlob ls = ls_encrypted ls"

definition setPin :: "webcrypto \<Rightarrow> bytes \<Rightarrow> bytes \<Rightarrow> string \<Rightarrow> string \<Rightarrow> store \<Rightarrow> store" where
  "setPin W salt iv mnemonic pin ls =
     (let blob = encryptMnemonic W salt iv mnemonic pin
      in ls\<lparr>ls_encrypted := Some blob, ls_mnemonic := None\<rparr>)"

definition removePin :: "string \<Rightarrow> store \<Rightarrow> store" where
  "removePin mnemonic ls = ls\<lparr>ls_mnemonic := Some mnemonic, ls_encrypted := None\<rparr>"

section \<open>Lemmas\<close>

lemma utf8_decode_char: "utf8_decode (utf8_char c @ bs) = map_option ((#) c) (utf8_decode bs)"
proof (cases "code_unit c < 128")
  case True
  define b :: byte where "b = of_nat (code_unit c)"
  have u: "unat b = code_unit c" unfolding b_def using True by (intro unat_of_nat_byte) simp
  have c: "char_of (code_unit c) = c" by (simp add: code_unit_def)
  have "utf8_char c = [b]" using True by (simp add: utf8_char_cases b_def)
  then show ?thesis using True by (simp only: u c append_Cons append_Nil utf8_decode.simps if_True)
next
  case False
  define q r where "q = code_unit c div 64" and "r = code_unit c mod 64"
  have "128 div 64 \<le> q" unfolding q_def using False by (intro div_le_mono) simp
  moreover have "q < 4" unfolding q_def using code_unit_less [of c] by (simp add: less_mult_imp_div_less)
  ultimately have "q = 2 \<or> q = 3" by linarith
  then have qr: "q = 2 \<or> q = 3" "r < 64" by (simp_all add: r_def)
  define b d :: byte where "b = of_nat (192 + q)" and "d = of_nat (128 + r)"
  have u: "unat b = 192 + q" unfolding b_def using qr by (intro unat_of_nat_byte) auto
  have v: "unat d = 128 + r" unfolding d_def using qr by (intro unat_of_nat_byte) simp
  have c: "char_of (q * 64 + r) = c"
    unfolding q_def r_def div_mult_mod_eq by (simp add: code_unit_def)
  have "utf8_char c = [b, d]"
    using False by (simp add: utf8_char_cases q_def r_def b_def d_def)
  then show ?thesis using qr by (auto simp: u v c)
qed

lemma utf8_decode_encode [simp]: "utf8_decode (utf8_encode s) = Some s"
  by (induction s) (simp_all add: utf8_encode_def utf8_decode_char)

lemma decrypt_encrypt:
  assumes "\<And>k iv m. aes_decrypt W k iv (aes_encrypt W k iv m) = Inr m"
  shows "decryptMnemonic W (encryptMnemonic W salt iv mnemonic pin) pin = Inr mnemonic"
  using assms by (simp add: decryptMnemonic_def encryptMnemonic_def Let_def)

end
