(* ===== verification/Gateway.thy ===== *)
theory Gateway
  imports Amounts
begin

text \<open>
  The HTTP client of web-wallet/gateway.js. A JSON value is a datatype; \<open>JUndef\<close> is the value
  \<open>undefined\<close> that reading a missing property gives. A request is what the client hands to
  \<open>fetch\<close>, its body before \<open>JSON.stringify\<close>; a response is what \<open>fetch\<close> resolves to, its body as
  the result of \<open>resp.json()\<close>, which may throw. The network itself is a parameter of the
  theories that send requests.
\<close>

section \<open>Definitions\<close>

subsection \<open>JSON values\<close>

datatype json =
    JUndef
  | JNull
  | JBool bool
  | JNum rat
  | JStr string
  | JArr "json list"
  | JObj "(string \<times> json) list"

text \<open>\<open>j.key\<close>\<close>

definition jget :: "json \<Rightarrow> string \<Rightarrow> json res" where
  "jget j key =
     (case j of
        JUndef \<Rightarrow> Inl (TypeErr (''Cannot read properties of undefined (reading '' @ key @ '')''))
      | JNull \<Rightarrow> Inl (TypeErr (''Cannot read properties of null (reading '' @ key @ '')''))
      | JObj kvs \<Rightarrow> Inr (case map_of kvs key of None \<Rightarrow> JUndef | Some v \<Rightarrow> v)
      | _ \<Rightarrow> Inr JUndef)"

text \<open>\<open>j?.key\<close>\<close>

definition jget_opt :: "json \<Rightarrow> string \<Rightarrow> json" where
  "jget_opt j key = (case j of JObj kvs \<Rightarrow> (case map_of kvs key of None \<Rightarrow> JUndef | Some v \<Rightarrow> v) | _ \<Rightarrow> JUndef)"

definition jtruthy :: "json \<Rightarrow> bool" where
  "jtruthy j =
     (case j of JUndef \<Rightarrow> False | JNull \<Rightarrow> False | JBool b \<Rightarrow> b | JNum x \<Rightarrow> x \<noteq> 0 | JStr s \<Rightarrow> s \<noteq> []
      | JArr _ \<Rightarrow> True | JObj _ \<Rightarrow> True)"

definition jor :: "json \<Rightarrow> json \<Rightarrow> json" where
  "jor a b = (if jtruthy a then a else b)"

definition jnullish :: "json \<Rightarrow> bool" where
  "jnullish j \<longleftrightarrow> j = JUndef \<or> j = JNull"

text \<open>Iterating over a value: arrays only, among the values the gateway sends.\<close>

definition jlist :: "json \<Rightarrow> json list res" where
  "jlist j = (case j of JArr js \<Rightarrow> Inr js | _ \<Rightarrow> Inl (TypeErr ''not iterable''))"

text \<open>
  \<open>BigInt(j)\<close>: integral Numbers, and strings of an integer literal with optional white space; a
  string of white space is 0.
\<close>

definition parse_BigInt :: "string \<Rightarrow> int option" where
  "parse_BigInt s =
     (let t = trim s;
          decimal = (\<lambda>ds. if ds \<noteq> [] \<and> list_all (is_digit 10) ds then Some (int (dec_num ds)) else None);
          radix = (\<lambda>r ds. if ds \<noteq> [] \<and> list_all (is_digit r) ds
                          then Some (int (from_digits r (map (\<lambda>c. the (digit_val c)) ds))) else None)
      in if t = [] then Some 0
         else if startsWith t ''0x'' \<or> startsWith t ''0X'' then radix 16 (drop 2 t)
         else if startsWith t ''0o'' \<or> startsWith t ''0O'' then radix 8 (drop 2 t)
         else if startsWith t ''0b'' \<or> startsWith t ''0B'' then radix 2 (drop 2 t)
         else if hd t = CHR ''-'' then map_option uminus (decimal (tl t))
         else if hd t = CHR ''+'' then decimal (tl t)
         else decimal t)"

definition jBigInt :: "json \<Rightarrow> int res" where
  "jBigInt j =
     (case j of
        JNum x \<Rightarrow> to_BigInt (Fin x)
      | JStr s \<Rightarrow> (case parse_BigInt s of None \<Rightarrow> Inl (SyntaxErr ''Cannot convert to a BigInt'') | Some n \<Rightarrow> Inr n)
      | JBool b \<Rightarrow> Inr (if b then 1 else 0)
      | _ \<Rightarrow> Inl (TypeErr ''Cannot convert to a BigInt''))"

text \<open>
  \<open>Number(j)\<close>: an array becomes the text of its elements first, so an array of one element stands
  for it.
\<close>

fun js_Number :: "json \<Rightarrow> jsnum" where
  "js_Number JUndef = NotANumber"
| "js_Number JNull = Fin 0"
| "js_Number (JBool b) = Fin (if b then 1 else 0)"
| "js_Number (JNum x) = Fin x"
| "js_Number (JStr s) = string_to_number s"
| "js_Number (JObj _) = NotANumber"
| "js_Number (JArr []) = Fin 0"
| "js_Number (JArr [j]) =
     (case j of JUndef \<Rightarrow> Fin 0 | JNull \<Rightarrow> Fin 0 | JBool _ \<Rightarrow> NotANumber | _ \<Rightarrow> js_Number j)"
| "js_Number (JArr (_ # _ # _)) = NotANumber"

text \<open>\<open>j?.[0]\<close>\<close>

definition jfirst_opt :: "json \<Rightarrow> json" where
  "jfirst_opt j =
     (case j of JArr (x # _) \<Rightarrow> x | JStr (c # _) \<Rightarrow> JStr [c]
      | JObj kvs \<Rightarrow> (case map_of kvs ''0'' of None \<Rightarrow> JUndef | Some v \<Rightarrow> v) | _ \<Rightarrow> JUndef)"

text \<open>A property the program uses as a string, and one it uses as an index.\<close>

definition jstring :: "json \<Rightarrow> string res" where
  "jstring j = (case j of JStr s \<Rightarrow> Inr s | _ \<Rightarrow> Inl (TypeErr ''not a string''))"

definition jnat :: "json \<Rightarrow> nat res" where
  "jnat j = (case j of JNum x \<Rightarrow> if of_int \<lfloor>x\<rfloor> = x \<and> 0 \<le> x then Inr (nat \<lfloor>x\<rfloor>) else Inl (TypeErr ''not an index'')
             | _ \<Rightarrow> Inl (TypeErr ''not an index''))"

subsection \<open>Requests and responses\<close>

record request =
  rq_method :: string
  rq_url :: string
  rq_auth :: "string option"
  rq_body :: "json option"

record response =
  resp_ok :: bool
  resp_status :: nat
  resp_json :: "json res"

text \<open>\<open>auth ? \<dots> : {}\<close>: an empty token counts as absent.\<close>

definition auth_header :: "string option \<Rightarrow> string option" where
  "auth_header auth = (case auth of None \<Rightarrow> None | Some t \<Rightarrow> if t = [] then None else Some (''Bearer '' @ t))"

definition gw_get :: "string \<Rightarrow> string \<Rightarrow> string option \<Rightarrow> request" where
  "gw_get baseUrl path auth =
     \<lparr>rq_method = ''GET'', rq_url = baseUrl @ path, rq_auth = auth_header auth, rq_body = None\<rparr>"

definition gw_post :: "string \<Rightarrow> string \<Rightarrow> (string \<times> json) list \<Rightarrow> string option \<Rightarrow> request" where
  "gw_post baseUrl path body auth =
     \<lparr>rq_method = ''POST'', rq_url = baseUrl @ path, rq_auth = auth_header auth, rq_body = Some (JObj body)\<rparr>"

text \<open>\<open>_decode\<close>; the error fields the gateway sends are strings.\<close>

definition gw_decode :: "response \<Rightarrow> json res" where
  "gw_decode resp =
     bindE (resp_json resp) (\<lambda>data.
       if resp_ok resp then Inr data
       else bindE (jget data ''error'') (\<lambda>e.
            let err = jor e (JObj [])
            in bindE (jstring (jor (jget_opt err ''code'') (JStr ''unknown-error''))) (\<lambda>code.
               bindE (jstring (jor (jget_opt err ''message'')
                                   (JStr (''Request failed ('' @ dec (resp_status resp) @ '')'')))) (\<lambda>message.
                 Inl (GatewayErr code message)))))"

definition gw_networkStatus :: "string \<Rightarrow> request" where
  "gw_networkStatus base = gw_get base ''/v1/network/status'' None"

definition gw_balance :: "string \<Rightarrow> string \<Rightarrow> request" where
  "gw_balance base address = gw_get base (''/v1/address/'' @ address @ ''/balance'') None"

definition gw_utxos :: "string \<Rightarrow> string \<Rightarrow> request" where
  "gw_utxos base address = gw_get base (''/v1/address/'' @ address @ ''/utxos'') None"

definition gw_history :: "string \<Rightarrow> string \<Rightarrow> nat \<Rightarrow> request" where
  "gw_history base address limit =
     gw_get base (''/v1/address/'' @ address @ ''/history?limit='' @ dec limit) None"

definition gw_tx :: "string \<Rightarrow> string \<Rightarrow> request" where
  "gw_tx base txid = gw_get base (''/v1/tx/'' @ txid) None"

definition gw_broadcast :: "string \<Rightarrow> string \<Rightarrow> request" where
  "gw_broadcast base rawTxHex = gw_post base ''/v1/tx/broadcast'' [(''raw_tx_hex'', JStr rawTxHex)] None"

definition gw_feeEstimate :: "string \<Rightarrow> nat \<Rightarrow> request" where
  "gw_feeEstimate base targetBlocks = gw_get base (''/v1/fee-estimate?target_blocks='' @ dec targetBlocks) None"

definition gw_signup :: "string \<Rightarrow> string \<Rightarrow> string \<Rightarrow> (string \<times> json) list \<Rightarrow> request" where
  "gw_signup base email password kyc =
     gw_post base ''/v1/auth/signup'' ([(''email'', JStr email), (''password'', JStr password)] @ kyc) None"

definition gw_login :: "string \<Rightarrow> string \<Rightarrow> string \<Rightarrow> request" where
  "gw_login base email password =
     gw_post base ''/v1/auth/login'' [(''email'', JStr email), (''password'', JStr password)] None"

definition gw_stakingStatus :: "string \<Rightarrow> string option \<Rightarrow> request" where
  "gw_stakingStatus base token = gw_get base ''/v1/staking/status'' token"

definition gw_stakingDeposit :: "string \<Rightarrow> string option \<Rightarrow> string \<Rightarrow> request" where
  "gw_stakingDeposit base token amount = gw_post base ''/v1/staking/deposit'' [(''amount'', JStr amount)] token"

definition gw_stakingWithdraw :: "string \<Rightarrow> string option \<Rightarrow> string \<Rightarrow> string \<Rightarrow> request" where
  "gw_stakingWithdraw base token amount toAddress =
     gw_post base ''/v1/staking/withdraw'' [(''amount'', JStr amount), (''to_address'', JStr toAddress)] token"

definition gw_pushVapidPublicKey :: "string \<Rightarrow> request" where
  "gw_pushVapidPublicKey base = gw_get base ''/v1/push/vapid-public-key'' None"

definition gw_pushSubscribe :: "string \<Rightarrow> string option \<Rightarrow> (string \<times> json) list \<Rightarrow> request" where
  "gw_pushSubscribe base token subscription = gw_post base ''/v1/push/subscribe'' subscription token"

definition gw_referralStatus :: "string \<Rightarrow> string option \<Rightarrow> request" where
  "gw_referralStatus base token = gw_get base ''/v1/referral/status'' token"

definition gw_referralHistory :: "string \<Rightarrow> string option \<Rightarrow> request" where
  "gw_referralHistory base token = gw_get base ''/v1/referral/history'' token"

definition gw_referralWithdraw :: "string \<Rightarrow> string option \<Rightarrow> string \<Rightarrow> request" where
  "gw_referralWithdraw base token toAddress =
     gw_post base ''/v1/referral/withdraw'' [(''to_address'', JStr toAddress)] token"

section \<open>Lemmas\<close>

text \<open>A request that broadcasts a transaction, by its method and the end of its path.\<close>

definition broadcasts :: "request \<Rightarrow> bool" where
  "broadcasts q \<longleftrightarrow> rq_method q = ''POST'' \<and> take 9 (rev (rq_url q)) = rev ''broadcast''"

named_theorems gw_defs \<open>the requests of the gateway client\<close>

lemmas [gw_defs] =
  gw_networkStatus_def gw_balance_def gw_utxos_def gw_history_def gw_tx_def gw_broadcast_def
  gw_feeEstimate_def gw_signup_def gw_login_def gw_stakingStatus_def gw_stakingDeposit_def
  gw_stakingWithdraw_def gw_pushVapidPublicKey_def gw_pushSubscribe_def gw_referralStatus_def
  gw_referralHistory_def gw_referralWithdraw_def

lemma broadcasts_broadcast: "broadcasts (gw_broadcast b h)"
  by (simp add: broadcasts_def gw_broadcast_def gw_post_def)

lemma broadcasts_get [simp]: "\<not> broadcasts (gw_get b p a)"
  by (simp add: broadcasts_def gw_get_def)

lemma broadcasts_post: "broadcasts (gw_post b p body a) \<Longrightarrow> 9 \<le> length p \<Longrightarrow> take 9 (rev p) = rev ''broadcast''"
  by (simp add: broadcasts_def gw_post_def)

lemma not_broadcasts [simp]:
  "\<not> broadcasts (gw_networkStatus b)" "\<not> broadcasts (gw_balance b a)" "\<not> broadcasts (gw_utxos b a)"
  "\<not> broadcasts (gw_history b a n)" "\<not> broadcasts (gw_tx b x)" "\<not> broadcasts (gw_feeEstimate b n)"
  "\<not> broadcasts (gw_signup b e p k)" "\<not> broadcasts (gw_login b e p)" "\<not> broadcasts (gw_stakingStatus b t)"
  "\<not> broadcasts (gw_stakingDeposit b t m)" "\<not> broadcasts (gw_stakingWithdraw b t m a)"
  "\<not> broadcasts (gw_pushVapidPublicKey b)" "\<not> broadcasts (gw_pushSubscribe b t q)"
  "\<not> broadcasts (gw_referralStatus b t)" "\<not> broadcasts (gw_referralHistory b t)" "\<not> broadcasts (gw_referralWithdraw b t a)"
  by (auto simp: gw_defs dest!: broadcasts_post)

end
