(* ===== verification/AppState.thy ===== *)
theory AppState
  imports Storage Gateway
begin

text \<open>
  The state of the single-page wallet (web-wallet/app.js) and the actions on it. The record \<open>app\<close>
  has the fields of the \<open>state\<close> object, the module variables, the parts of the page the program
  reads or writes (text contents, input values, \<open>style.display\<close>, inner HTML and the disabled
  flags, each as a function of the element id), the browser storage and the log of the requests
  sent so far. An action is a function from the state to a result and a new state: an exception
  keeps the changes made before it, as in the program. Handlers run to completion; \<open>await\<close> has no
  effect of its own, and an asynchronous call that is not awaited drops its exception.
\<close>

section \<open>Definitions\<close>

subsection \<open>The state\<close>

record hist_tx =
  ht_txid :: string
  ht_height :: "int option"
  ht_fee :: "int option"

record recipient_row =
  row_id :: nat
  row_address :: string
  row_amount :: string
  row_removeDisplay :: string

record price =
  pr_usdPerCac :: jsnum
  pr_source :: string
  pr_tradeTime :: "json"

text \<open>
  The parts of the page the program reads or writes, by element id: texts, input values,
  \<open>style.display\<close>, inner HTML, the disabled flags, the class \<open>active\<close> of buttons, and what was
  drawn on the QR canvases. \<open>ui_screen\<close> and \<open>ui_tab\<close> are the screen and the tab with class
  \<open>active\<close>. The listeners that a rendering attaches capture the rendered data: \<open>ui_book\<close>,
  \<open>ui_watch\<close>, \<open>ui_txRows\<close>, \<open>ui_selectable\<close> and \<open>ui_bump\<close> hold it. \<open>ui_options\<close> are the values and
  texts of the address selection on the Settings screen.
\<close>

record page =
  ui_screen :: "string option"
  ui_tab :: "string option"
  ui_rows :: "recipient_row list"
  ui_text :: "string \<Rightarrow> string"
  ui_field :: "string \<Rightarrow> string"
  ui_display :: "string \<Rightarrow> string"
  ui_html :: "string \<Rightarrow> string"
  ui_disabled :: "string \<Rightarrow> bool"
  ui_active :: "string \<Rightarrow> bool"
  ui_qr :: "string \<Rightarrow> string"
  ui_quiz :: "(nat \<times> string) list"
  ui_book :: "(string \<times> string) list"
  ui_watch :: "watch_entry list"
  ui_txRows :: "string list"
  ui_selectable :: "nat list"
  ui_bump :: "string option"
  ui_theme :: "string option"
  ui_options :: "(string \<times> string) list"

text \<open>Where the text of a scanned code goes: a recipient row, or the multisig proposal.\<close>

datatype scan_target = ScanRow nat | ScanProposal

text \<open>Windows opened, texts copied and files downloaded.\<close>

datatype effect = Opened string | Copied string | Downloaded string | Reloaded

text \<open>The \<open>state\<close> object, the module variables, the page, the storage and the requests. \<open>v_copyTimers\<close>
  are the texts that pending timers will put back on the copy button of the Staking screen.\<close>

record app =
  st_network :: string
  st_mnemonic :: "string option"
  st_addressIndices :: "nat list"
  st_activeIndex :: nat
  st_keys :: "nat \<rightharpoonup> keypair"
  st_addresses :: "nat \<rightharpoonup> string"
  st_gateway :: string
  st_stakeToken :: "string option"
  st_qrScanHandle :: "scan_target option"
  st_sendFeeMinRate :: "int option"
  st_sendFeeRateOverride :: "int option"
  st_pendingMnemonic :: "string option"
  st_activeSendRecipientId :: "nat option"
  st_lastHistory :: "hist_tx list option"
  st_seenTxids :: "string set option"
  v_sendRecipientIdCounter :: nat
  v_txPolling :: bool
  v_sendScreenPrice :: "price option"
  v_copyTimers :: "string list"
  page :: page
  ls :: store
  gatewayUrls :: "string \<Rightarrow> string"
  requests :: "request list"
  effects :: "effect list"

text \<open>
  What lies outside the program: the libraries, the browser's cryptography, the network (the
  answer to a request may depend on everything sent before), the QR encoder, which rejects a text
  that is too long, the local form of a date, and whether the browser has the push interfaces.
\<close>

record env =
  e_crypto :: crypto
  e_webcrypto :: webcrypto
  e_fetch :: "request list \<Rightarrow> request \<Rightarrow> response res"
  e_qrError :: "string \<Rightarrow> js_error option"
  e_localDate :: "jsnum \<Rightarrow> string"
  e_pushSupported :: bool

subsection \<open>Actions\<close>

type_synonym 'a act = "app \<Rightarrow> 'a res \<times> app"

definition ret :: "'a \<Rightarrow> 'a act" where
  "ret x = (\<lambda>s. (Inr x, s))"

definition lift :: "'a res \<Rightarrow> 'a act" where
  "lift r = (\<lambda>s. (r, s))"

definition bind :: "'a act \<Rightarrow> ('a \<Rightarrow> 'b act) \<Rightarrow> 'b act" where
  "bind m f = (\<lambda>s. case m s of (Inl e, s') \<Rightarrow> (Inl e, s') | (Inr x, s') \<Rightarrow> f x s')"

definition try_catch :: "'a act \<Rightarrow> (js_error \<Rightarrow> 'a act) \<Rightarrow> 'a act" where
  "try_catch m h = (\<lambda>s. case m s of (Inl e, s') \<Rightarrow> h e s' | (Inr x, s') \<Rightarrow> (Inr x, s'))"

text \<open>\<open>try { m } finally { f }\<close>\<close>

definition try_finally :: "'a act \<Rightarrow> unit act \<Rightarrow> 'a act" where
  "try_finally m f = (\<lambda>s. case m s of (r, s') \<Rightarrow> bind f (\<lambda>_. lift r) s')"

definition gets :: "(app \<Rightarrow> 'a) \<Rightarrow> 'a act" where
  "gets f = (\<lambda>s. (Inr (f s), s))"

definition modify :: "(app \<Rightarrow> app) \<Rightarrow> unit act" where
  "modify f = (\<lambda>s. (Inr (), f s))"

text \<open>A call of an asynchronous function whose promise is ignored.\<close>

definition detach :: "'a act \<Rightarrow> unit act" where
  "detach m = (\<lambda>s. (Inr (), snd (m s)))"

text \<open>Statements in sequence, and a \<open>for \<dots> of\<close> loop.\<close>

fun seqs :: "unit act list \<Rightarrow> unit act" where
  "seqs [] = ret ()"
| "seqs (m # ms) = bind m (\<lambda>_. seqs ms)"

fun for_each :: "'a list \<Rightarrow> ('a \<Rightarrow> unit act) \<Rightarrow> unit act" where
  "for_each [] f = ret ()"
| "for_each (x # xs) f = bind (f x) (\<lambda>_. for_each xs f)"

fun map_act :: "('a \<Rightarrow> 'b act) \<Rightarrow> 'a list \<Rightarrow> 'b list act" where
  "map_act f [] = ret []"
| "map_act f (x # xs) = bind (f x) (\<lambda>y. bind (map_act f xs) (\<lambda>ys. ret (y # ys)))"

definition modify_page :: "(page \<Rightarrow> page) \<Rightarrow> unit act" where
  "modify_page f = modify (\<lambda>s. s\<lparr>page := f (page s)\<rparr>)"

definition setText :: "string \<Rightarrow> string \<Rightarrow> unit act" where
  "setText i t = modify_page (\<lambda>p. p\<lparr>ui_text := (ui_text p)(i := t)\<rparr>)"

definition setField :: "string \<Rightarrow> string \<Rightarrow> unit act" where
  "setField i t = modify_page (\<lambda>p. p\<lparr>ui_field := (ui_field p)(i := t)\<rparr>)"

definition setDisplay :: "string \<Rightarrow> string \<Rightarrow> unit act" where
  "setDisplay i t = modify_page (\<lambda>p. p\<lparr>ui_display := (ui_display p)(i := t)\<rparr>)"

definition setHtml :: "string \<Rightarrow> string \<Rightarrow> unit act" where
  "setHtml i t = modify_page (\<lambda>p. p\<lparr>ui_html := (ui_html p)(i := t)\<rparr>)"

definition setDisabled :: "string \<Rightarrow> bool \<Rightarrow> unit act" where
  "setDisabled i b = modify_page (\<lambda>p. p\<lparr>ui_disabled := (ui_disabled p)(i := b)\<rparr>)"

definition setActive :: "string \<Rightarrow> bool \<Rightarrow> unit act" where
  "setActive i b = modify_page (\<lambda>p. p\<lparr>ui_active := (ui_active p)(i := b)\<rparr>)"

definition field :: "string \<Rightarrow> string act" where
  "field i = gets (\<lambda>s. ui_field (page s) i)"

definition emit :: "effect \<Rightarrow> unit act" where
  "emit e = modify (\<lambda>s. s\<lparr>effects := effects s @ [e]\<rparr>)"

text \<open>\<open>qr.renderQr\<close> draws the text, or throws what the encoder throws.\<close>

definition renderQr :: "env \<Rightarrow> string \<Rightarrow> string \<Rightarrow> unit act" where
  "renderQr E canvas t =
     (case e_qrError E t of
        Some e \<Rightarrow> lift (Inl e)
      | None \<Rightarrow> modify_page (\<lambda>p. p\<lparr>ui_qr := (ui_qr p)(canvas := t)\<rparr>))"

definition modify_ls :: "(store \<Rightarrow> store) \<Rightarrow> unit act" where
  "modify_ls f = modify (\<lambda>s. s\<lparr>ls := f (ls s)\<rparr>)"

text \<open>\<open>await fetch(\<dots>)\<close>, and a call of the gateway client, which decodes the answer.\<close>

definition fetch :: "env \<Rightarrow> request \<Rightarrow> response act" where
  "fetch E req = (\<lambda>s. (e_fetch E (requests s) req, s\<lparr>requests := requests s @ [req]\<rparr>))"

definition call :: "env \<Rightarrow> (string \<Rightarrow> request) \<Rightarrow> json act" where
  "call E mk = bind (gets st_gateway) (\<lambda>base. bind (fetch E (mk base)) (\<lambda>resp. lift (gw_decode resp)))"

text \<open>\<open>e instanceof GatewayError ? e.message : String(e)\<close> and \<open>e.message\<close>\<close>

definition error_message :: "js_error \<Rightarrow> string" where
  "error_message e = (case e of JsError m \<Rightarrow> m | GatewayErr c m \<Rightarrow> m | TypeErr m \<Rightarrow> m | RangeErr m \<Rightarrow> m | SyntaxErr m \<Rightarrow> m)"

definition named_error :: "string \<Rightarrow> string \<Rightarrow> string" where
  "named_error name m = (if m = [] then name else name @ '': '' @ m)"

definition error_string :: "js_error \<Rightarrow> string" where
  "error_string e =
     (case e of JsError m \<Rightarrow> named_error ''Error'' m | GatewayErr c m \<Rightarrow> named_error ''Error'' m
      | TypeErr m \<Rightarrow> named_error ''TypeError'' m | RangeErr m \<Rightarrow> named_error ''RangeError'' m
      | SyntaxErr m \<Rightarrow> named_error ''SyntaxError'' m)"

definition gateway_or_string :: "js_error \<Rightarrow> string" where
  "gateway_or_string e = (case e of GatewayErr c m \<Rightarrow> m | _ \<Rightarrow> error_string e)"

section \<open>Running actions\<close>

named_theorems act_simps \<open>evaluation of actions on a state\<close>

lemma ret_apply [act_simps]: "ret x s = (Inr x, s)"
  by (simp add: ret_def)

lemma lift_apply [act_simps]: "lift r s = (r, s)"
  by (simp add: lift_def)

lemma bind_apply [act_simps]:
  "bind m f s = (case m s of (Inl e, s') \<Rightarrow> (Inl e, s') | (Inr x, s') \<Rightarrow> f x s')"
  by (simp add: bind_def)

lemma try_catch_apply [act_simps]:
  "try_catch m h s = (case m s of (Inl e, s') \<Rightarrow> h e s' | (Inr x, s') \<Rightarrow> (Inr x, s'))"
  by (simp add: try_catch_def)

lemma try_finally_apply [act_simps]:
  "try_finally m f s = (case m s of (r, s') \<Rightarrow> bind f (\<lambda>_. lift r) s')"
  by (simp add: try_finally_def)

lemma gets_apply [act_simps]: "gets f s = (Inr (f s), s)"
  by (simp add: gets_def)

lemma modify_apply [act_simps]: "modify f s = (Inr (), f s)"
  by (simp add: modify_def)

lemma detach_apply [act_simps]: "detach m s = (Inr (), snd (m s))"
  by (simp add: detach_def)

lemma fetch_apply [act_simps]:
  "fetch E req s = (e_fetch E (requests s) req, s\<lparr>requests := requests s @ [req]\<rparr>)"
  by (simp add: fetch_def)

lemma call_apply [act_simps]:
  "call E mk s = (bindE (e_fetch E (requests s) (mk (st_gateway s))) gw_decode,
     s\<lparr>requests := requests s @ [mk (st_gateway s)]\<rparr>)"
  by (simp add: call_def bind_def gets_def fetch_def lift_def split: sum.split)

lemmas page_defs = setText_def setField_def setDisplay_def setHtml_def setDisabled_def setActive_def

lemmas [act_simps] = page_defs modify_page_def field_def modify_ls_def emit_def

lemma bind_ok: "bind m f s = (Inr y, s') \<longleftrightarrow> (\<exists>x s1. m s = (Inr x, s1) \<and> f x s1 = (Inr y, s'))"
  by (auto simp: bind_def split: prod.splits sum.splits)

section \<open>Invariants of actions\<close>

text \<open>An action keeps a predicate when no run, finished or broken off by an exception, destroys it.\<close>

definition keeps :: "(app \<Rightarrow> bool) \<Rightarrow> 'a act \<Rightarrow> bool" where
  "keeps I m \<longleftrightarrow> (\<forall>s. I s \<longrightarrow> I (snd (m s)))"

named_theorems keeps_rules \<open>actions that keep a predicate\<close>

lemma keepsD: "keeps I m \<Longrightarrow> I s \<Longrightarrow> I (snd (m s))"
  by (simp add: keeps_def)

lemma keeps_state: "keeps I m \<Longrightarrow> I s \<Longrightarrow> m s = (r, s') \<Longrightarrow> I s'"
  by (metis keepsD snd_conv)

lemma keeps_ret [keeps_rules]: "keeps I (ret x)"
  by (simp add: keeps_def ret_def)

lemma keeps_lift [keeps_rules]: "keeps I (lift r)"
  by (simp add: keeps_def lift_def)

lemma keeps_gets [keeps_rules]: "keeps I (gets f)"
  by (simp add: keeps_def gets_def)

lemma keeps_field [keeps_rules]: "keeps I (field i)"
  by (simp add: keeps_def field_def gets_def)

lemma keeps_bind [keeps_rules]: "keeps I m \<Longrightarrow> (\<And>x. keeps I (f x)) \<Longrightarrow> keeps I (bind m f)"
  unfolding keeps_def bind_def by (auto split: prod.splits sum.splits)

lemma keeps_try [keeps_rules]: "keeps I m \<Longrightarrow> (\<And>e. keeps I (h e)) \<Longrightarrow> keeps I (try_catch m h)"
  unfolding keeps_def try_catch_def by (auto split: prod.splits sum.splits)

lemma keeps_finally [keeps_rules]: "keeps I m \<Longrightarrow> keeps I f \<Longrightarrow> keeps I (try_finally m f)"
  unfolding keeps_def try_finally_def bind_def lift_def by (auto split: prod.splits sum.splits)

lemma keeps_detach [keeps_rules]: "keeps I m \<Longrightarrow> keeps I (detach m)"
  by (simp add: keeps_def detach_def)

lemma keeps_seqs [keeps_rules]:
  "keeps I (seqs [])" "keeps I m \<Longrightarrow> keeps I (seqs ms) \<Longrightarrow> keeps I (seqs (m # ms))"
  by (simp_all add: keeps_ret keeps_bind)

lemma keeps_for_each [keeps_rules]: "(\<And>x. keeps I (f x)) \<Longrightarrow> keeps I (for_each xs f)"
  by (induction xs) (simp_all add: keeps_ret keeps_bind)

lemma keeps_map_act [keeps_rules]: "(\<And>x. keeps I (f x)) \<Longrightarrow> keeps I (map_act f xs)"
  by (induction xs) (simp_all add: keeps_ret keeps_bind)

lemma keeps_modify: "(\<And>s. I s \<Longrightarrow> I (f s)) \<Longrightarrow> keeps I (modify f)"
  by (simp add: keeps_def modify_def)

lemma keeps_if [keeps_rules]: "(b \<Longrightarrow> keeps I m) \<Longrightarrow> (\<not> b \<Longrightarrow> keeps I n) \<Longrightarrow> keeps I (if b then m else n)"
  by simp

lemma keeps_option [keeps_rules]:
  "keeps I m \<Longrightarrow> (\<And>x. keeps I (f x)) \<Longrightarrow> keeps I (case x of None \<Rightarrow> m | Some y \<Rightarrow> f y)"
  by (simp split: option.split)

lemma keeps_prod [keeps_rules]: "(\<And>a b. keeps I (f a b)) \<Longrightarrow> keeps I (case p of (a, b) \<Rightarrow> f a b)"
  by (simp split: prod.split)

lemma keeps_sum [keeps_rules]:
  "(\<And>e. keeps I (f e)) \<Longrightarrow> (\<And>x. keeps I (g x)) \<Longrightarrow> keeps I (case r of Inl e \<Rightarrow> f e | Inr x \<Rightarrow> g x)"
  by (simp split: sum.split)

lemma keeps_list [keeps_rules]:
  "keeps I m \<Longrightarrow> (\<And>y ys. keeps I (f y ys)) \<Longrightarrow> keeps I (case xs of [] \<Rightarrow> m | y # ys \<Rightarrow> f y ys)"
  by (simp split: list.split)

lemma keeps_jsnum [keeps_rules]:
  "(\<And>x. keeps I (f x)) \<Longrightarrow> keeps I p \<Longrightarrow> keeps I q \<Longrightarrow> keeps I r \<Longrightarrow>
     keeps I (case a of Fin x \<Rightarrow> f x | PosInf \<Rightarrow> p | NegInf \<Rightarrow> q | NotANumber \<Rightarrow> r)"
  by (simp split: jsnum.split)

lemma keeps_Let [keeps_rules]: "(\<And>x. keeps I (f x)) \<Longrightarrow> keeps I (let x = t in f x)"
  by simp

section \<open>The core of the state\<close>

text \<open>
  The fields a wallet is made of: network, phrase, keys and addresses, their stored form, and the
  phrase of a wallet being created.
  Rendering a screen and asking the network leave them alone; the predicates that depend on
  nothing else are kept by every such action.
\<close>

definition core :: "app \<Rightarrow> (string \<times> string option \<times> nat list \<times> nat \<times> (nat \<rightharpoonup> keypair) \<times> (nat \<rightharpoonup> string))
    \<times> (string option \<times> string option \<times> enc_blob option \<times> (string \<Rightarrow> nat list option)) \<times> (string \<times> (string \<Rightarrow> string) \<times> string option)" where
  "core s = ((st_network s, st_mnemonic s, st_addressIndices s, st_activeIndex s, st_keys s, st_addresses s),
     (ls_network (ls s), ls_mnemonic (ls s), ls_encrypted (ls s), ls_indices (ls s)), (st_gateway s, gatewayUrls s, st_pendingMnemonic s))"

abbreviation core_is where
  "core_is c \<equiv> (\<lambda>s. core s = c)"

lemma core_modify: "(\<And>s. core (f s) = core s) \<Longrightarrow> keeps (core_is c) (modify f)"
  by (rule keeps_modify) simp

lemma core_page [keeps_rules]: "keeps (core_is c) (modify_page f)"
  unfolding modify_page_def by (rule core_modify) (simp add: core_def)

lemma core_ui [keeps_rules]:
  "keeps (core_is c) (setText i t)" "keeps (core_is c) (setField i t)" "keeps (core_is c) (setDisplay i t)"
  "keeps (core_is c) (setHtml i t)" "keeps (core_is c) (setDisabled i b)" "keeps (core_is c) (setActive i b)"
  unfolding page_defs by (rule core_page)+

lemma core_emit [keeps_rules]: "keeps (core_is c) (emit e)"
  unfolding emit_def by (rule core_modify) (simp add: core_def)

lemma core_renderQr [keeps_rules]: "keeps (core_is c) (renderQr E i t)"
  unfolding renderQr_def by (intro keeps_rules)

lemma core_fetch [keeps_rules]: "keeps (core_is c) (fetch E req)"
  by (simp add: keeps_def fetch_def core_def)

lemma core_call [keeps_rules]: "keeps (core_is c) (call E mk)"
  unfolding call_def by (intro keeps_rules)

text \<open>The requests sent since the log was \<open>rs\<close> satisfy \<open>P\<close>.\<close>

definition sent_since :: "request list \<Rightarrow> (request \<Rightarrow> bool) \<Rightarrow> app \<Rightarrow> bool" where
  "sent_since rs P s \<longleftrightarrow> (\<exists>qs. requests s = rs @ qs \<and> list_all P qs)"

lemma sent_modify: "(\<And>s. requests (f s) = requests s) \<Longrightarrow> keeps (sent_since rs P) (modify f)"
  by (rule keeps_modify) (simp add: sent_since_def)

lemma sent_page [keeps_rules]: "keeps (sent_since rs P) (modify_page f)"
  unfolding modify_page_def by (rule sent_modify) simp

lemma sent_ui [keeps_rules]:
  "keeps (sent_since rs P) (setText i t)" "keeps (sent_since rs P) (setField i t)"
  "keeps (sent_since rs P) (setDisplay i t)" "keeps (sent_since rs P) (setHtml i t)"
  "keeps (sent_since rs P) (setDisabled i b)" "keeps (sent_since rs P) (setActive i b)"
  unfolding page_defs by (rule sent_page)+

lemma sent_emit [keeps_rules]: "keeps (sent_since rs P) (emit e)" "keeps (sent_since rs P) (modify_ls g)"
  unfolding emit_def modify_ls_def by (rule sent_modify, simp)+

lemma sent_renderQr [keeps_rules]: "keeps (sent_since rs P) (renderQr E i t)"
  unfolding renderQr_def by (intro keeps_rules)

lemma sent_fetch: "P req \<Longrightarrow> keeps (sent_since rs P) (fetch E req)"
  by (auto simp: keeps_def fetch_def sent_since_def)

lemma sent_call: "(\<And>b. P (mk b)) \<Longrightarrow> keeps (sent_since rs P) (call E mk)"
  unfolding call_def by (intro keeps_rules sent_fetch)

lemma sent_sinceI: "keeps (sent_since (requests s) P) m \<Longrightarrow> sent_since (requests s) P (snd (m s))"
  by (erule keepsD) (simp add: sent_since_def)

lemma seqs_last: "seqs [m] = m" "seqs (m # n # ms) = bind m (\<lambda>_. seqs (n # ms))"
  by (auto simp: bind_def ret_def fun_eq_iff split: prod.split sum.split)

text \<open>Nothing but requests that satisfy \<open>P\<close> happened since the state was \<open>s0\<close>.\<close>

definition reads_since :: "app \<Rightarrow> (request \<Rightarrow> bool) \<Rightarrow> app \<Rightarrow> bool" where
  "reads_since s0 P s \<longleftrightarrow> (\<exists>qs. s = s0\<lparr>requests := requests s0 @ qs\<rparr> \<and> list_all P qs)"

lemma reads_fetch: "P req \<Longrightarrow> keeps (reads_since s0 P) (fetch E req)"
proof -
  assume p: "P req"
  have "reads_since s0 P (snd (fetch E req (s0\<lparr>requests := requests s0 @ qs\<rparr>)))" if "list_all P qs" for qs
    unfolding reads_since_def fetch_def using p that by (intro exI [of _ "qs @ [req]"]) simp
  then show ?thesis unfolding keeps_def by (subst reads_since_def) blast
qed

lemma reads_call: "(\<And>b. P (mk b)) \<Longrightarrow> keeps (reads_since s0 P) (call E mk)"
  unfolding call_def by (intro keeps_rules reads_fetch)

lemma reads_run:
  assumes "\<And>s0. keeps (reads_since s0 P) m" "m s = (r, s')"
  shows "\<exists>qs. s' = s\<lparr>requests := requests s @ qs\<rparr> \<and> list_all P qs"
proof -
  have "reads_since s P s" unfolding reads_since_def by (rule exI [of _ "[]"]) simp
  then show ?thesis using keeps_state [OF assms(1) _ assms(2)] by (simp add: reads_since_def)
qed

abbreviation is_get :: "request \<Rightarrow> bool" where
  "is_get q \<equiv> rq_method q = ''GET''"

lemma call_state: "call E mk s = (r, s') \<Longrightarrow> s' = s\<lparr>requests := requests s @ [mk (st_gateway s)]\<rparr>"
  by (simp add: call_apply)

lemma setText_apply: "setText i t s = (Inr (), s\<lparr>page := (page s)\<lparr>ui_text := (ui_text (page s))(i := t)\<rparr>\<rparr>)"
  by (simp add: act_simps)

locale core_predicate =
  fixes I :: "app \<Rightarrow> bool"
  assumes core_only: "core s = core t \<Longrightarrow> I s = I t"
begin

lemma keeps_frame: "(\<And>c. keeps (core_is c) m) \<Longrightarrow> keeps I m"
  unfolding keeps_def using core_only by blast

lemma frame_modify: "(\<And>s. core (f s) = core s) \<Longrightarrow> keeps I (modify f)"
  by (rule keeps_frame) (rule core_modify)

lemmas page_frames [keeps_rules] =
  core_page [THEN keeps_frame] core_ui [THEN keeps_frame] core_emit [THEN keeps_frame]
  core_renderQr [THEN keeps_frame] core_fetch [THEN keeps_frame] core_call [THEN keeps_frame]

end

end
