(* ===== verification/Price.thy ===== *)
theory Price
  imports AppState
begin

text \<open>
  The price estimate of web-wallet/price.js: the reserves of a liquidity pool read by a raw
  \<open>eth_call\<close>, the price an indexer reports, and the last trade on Stellar, in this order. A source
  that fails in any way gives no price. The properties: a later source is asked only after the
  earlier ones failed and nothing ever throws; the direct price is the ratio of the reserves up to
  the rounding of the code.
\<close>

section \<open>Definitions\<close>

definition CAC_ISSUER :: string where
  "CAC_ISSUER = ''GDFWAGH7DX43XFIGRRCJHIQCJTPP3TTZXTXOJMLAAFV6U2AM7W3L2K4Y''"

definition BNB_POOL_ADDRESS :: string where
  "BNB_POOL_ADDRESS = ''0x610d052dfafdbd0f8ba6d37ec202e58e4cb7de9a''"

definition BSC_RPC_URL :: string where
  "BSC_RPC_URL = ''https://bsc-dataseed.binance.org/''"

definition GET_RESERVES_SELECTOR :: string where
  "GET_RESERVES_SELECTOR = ''0x0902f1ac''"

definition fetch_get :: "string \<Rightarrow> request" where
  "fetch_get url = \<lparr>rq_method = ''GET'', rq_url = url, rq_auth = None, rq_body = None\<rparr>"

definition reserves_request :: request where
  "reserves_request = \<lparr>rq_method = ''POST'', rq_url = BSC_RPC_URL, rq_auth = None,
     rq_body = Some (JObj [(''jsonrpc'', JStr ''2.0''), (''id'', JNum 1), (''method'', JStr ''eth_call''),
       (''params'', JArr [JObj [(''to'', JStr BNB_POOL_ADDRESS), (''data'', JStr GET_RESERVES_SELECTOR)],
          JStr ''latest''])])\<rparr>"

text \<open>
  The price in an answer to \<open>eth_call\<close>. A result that is not a string ends in the same \<open>null\<close>:
  it has no \<open>slice\<close>, or is an array whose text is no number.
\<close>

definition pancake_price :: "json \<Rightarrow> price option res" where
  "pancake_price j =
     (let data = jget_opt j ''result''
      in case data of
           JStr d \<Rightarrow>
             if d = [] \<or> length d < 2 + 64 * 2 then Inr None
             else let hex = js_slice_from d 2
                  in bindE (jBigInt (JStr (''0x'' @ js_slice hex 0 64))) (\<lambda>reserveUsdt.
                     bindE (jBigInt (JStr (''0x'' @ js_slice hex 64 128))) (\<lambda>reserveCac.
                       if reserveCac = 0 then Inr None
                       else let usdPerCac = js_div (to_double (of_int ((reserveUsdt * 1000000000) sdiv reserveCac)))
                                              (Fin 1000000000)
                            in if \<not> truthy usdPerCac \<or> \<not> js_isFinite usdPerCac then Inr None
                               else Inr (Some \<lparr>pr_usdPerCac = usdPerCac, pr_source = ''bnb'', pr_tradeTime = JNull\<rparr>)))
         | _ \<Rightarrow> Inr None)"

definition fetchPancakeDirectPrice :: "env \<Rightarrow> price option act" where
  "fetchPancakeDirectPrice E =
     try_catch
       (bind (fetch E reserves_request) (\<lambda>resp.
        bind (lift (resp_json resp)) (\<lambda>json.
        lift (pancake_price json))))
       (\<lambda>e. ret None)"

definition gecko_url :: string where
  "gecko_url = ''https://api.geckoterminal.com/api/v2/networks/bsc/pools/'' @ BNB_POOL_ADDRESS"

definition fetchBnbPoolPrice :: "env \<Rightarrow> price option act" where
  "fetchBnbPoolPrice E =
     try_catch
       (bind (fetch E (fetch_get gecko_url)) (\<lambda>resp.
        bind (lift (resp_json resp)) (\<lambda>json.
          let usdPerCac = js_Number (jget_opt (jget_opt (jget_opt json ''data'') ''attributes'') ''base_token_price_usd'')
          in if \<not> truthy usdPerCac \<or> \<not> js_isFinite usdPerCac then ret None
             else ret (Some \<lparr>pr_usdPerCac = usdPerCac, pr_source = ''bnb'', pr_tradeTime = JNull\<rparr>))))
       (\<lambda>e. ret None)"

definition trades_url :: string where
  "trades_url = ''https://horizon.stellar.org/trades?base_asset_type=native&counter_asset_type=credit_alphanum4''
     @ ''&counter_asset_code=CAC&counter_asset_issuer='' @ CAC_ISSUER @ ''&order=desc&limit=1''"

definition xlm_url :: string where
  "xlm_url = ''https://api.coingecko.com/api/v3/simple/price?ids=stellar&vs_currencies=usd''"

text \<open>
  \<open>Promise.all\<close> starts both requests before it waits for either; it rejects when one of them does.
\<close>

definition fetch_both :: "env \<Rightarrow> request \<Rightarrow> request \<Rightarrow> (response \<times> response) act" where
  "fetch_both E r1 r2 = (\<lambda>s.
     let (a, s1) = fetch E r1 s; (b, s2) = fetch E r2 s1
     in (bindE a (\<lambda>x. bindE b (\<lambda>y. Inr (x, y))), s2))"

definition fetchStellarPrice :: "env \<Rightarrow> price option act" where
  "fetchStellarPrice E =
     try_catch
       (bind (fetch_both E (fetch_get trades_url) (fetch_get xlm_url)) (\<lambda>(tradesResp, xlmPriceResp).
        bind (lift (resp_json tradesResp)) (\<lambda>trades.
        bind (lift (jget trades ''_embedded'')) (\<lambda>emb.
          let rec = jfirst_opt (jget_opt emb ''records'')
          in if \<not> jtruthy rec then ret None
             else bind (lift (jget rec ''base_amount'')) (\<lambda>ba.
                  bind (lift (jget rec ''counter_amount'')) (\<lambda>ca.
                    let xlmPerCac = js_div (js_Number ba) (js_Number ca)
                    in bind (lift (resp_json xlmPriceResp)) (\<lambda>xlmPriceJson.
                         let usdPerXlm = jget_opt (jget_opt xlmPriceJson ''stellar'') ''usd''
                         in if \<not> jtruthy usdPerXlm then ret None
                            else bind (lift (jget rec ''ledger_close_time'')) (\<lambda>time.
                                   ret (Some \<lparr>pr_usdPerCac = js_mul xlmPerCac (js_Number usdPerXlm),
                                              pr_source = ''stellar'', pr_tradeTime = time\<rparr>)))))))))
       (\<lambda>e. ret None)"

definition fetchCacUsdPrice :: "env \<Rightarrow> price option act" where
  "fetchCacUsdPrice E =
     bind (fetchPancakeDirectPrice E) (\<lambda>p1. if p1 \<noteq> None then ret p1
     else bind (fetchBnbPoolPrice E) (\<lambda>p2. if p2 \<noteq> None then ret p2
     else fetchStellarPrice E))"

section \<open>Lemmas\<close>

lemma core_fetch_both [keeps_rules]: "keeps (core_is c) (fetch_both E r1 r2)"
  by (simp add: keeps_def fetch_both_def fetch_def core_def Let_def)

lemma core_price [keeps_rules]:
  "keeps (core_is c) (fetchPancakeDirectPrice E)" "keeps (core_is c) (fetchBnbPoolPrice E)"
  "keeps (core_is c) (fetchStellarPrice E)" "keeps (core_is c) (fetchCacUsdPrice E)"
  unfolding fetchPancakeDirectPrice_def fetchBnbPoolPrice_def fetchStellarPrice_def fetchCacUsdPrice_def
  by (intro keeps_rules; simp)+

section \<open>The reserves of an answer\<close>

lemma from_digits_zeros: "from_digits b (replicate k 0 @ ds) = from_digits b ds"
  by (induction k) (simp_all add: from_digits_def)

text \<open>A 256-bit word as \<open>eth_call\<close> returns it.\<close>

definition abi_word :: "nat \<Rightarrow> string" where
  "abi_word n = padStart (toString_radix 16 n) 64 (CHR ''0'')"

lemma abi_word_digits:
  assumes "n < 16 ^ 64"
  shows "\<exists>ds. abi_word n = map digit_char ds \<and> length ds = 64 \<and> (\<forall>d\<in>set ds. d < 16) \<and> from_digits 16 ds = n"
proof (cases "n = 0")
  case True
  have "abi_word 0 = map digit_char (replicate 64 0)"
    by (simp add: abi_word_def padStart_def toString_radix_def digit_char_def eval_nat_numeral)
  moreover have "from_digits 16 (replicate 64 0) = 0" using from_digits_zeros [of 16 64 "[]"] by simp
  ultimately show ?thesis using True by (intro exI [of _ "replicate 64 0"]) simp
next
  case False
  let ?ds = "to_digits 16 n []"
  have "length ?ds \<le> 64" using base16.to_digits_length [OF assms] by simp
  moreover have "CHR ''0'' = digit_char 0" by (simp add: digit_char_def)
  ultimately show ?thesis
    using False base16.from_to_digits [of n] from_digits_zeros [of 16 "64 - length ?ds" ?ds]
    by (intro exI [of _ "replicate (64 - length ?ds) 0 @ ?ds"])
      (auto simp: abi_word_def padStart_def toString_radix_def dest: base16.to_digits_less)
qed

lemma parse_BigInt_abi:
  assumes "n < 16 ^ 64"
  shows "jBigInt (JStr (''0x'' @ abi_word n)) = Inr (int n)"
proof -
  obtain ds where ds: "abi_word n = map digit_char ds" "length ds = 64" "\<forall>d\<in>set ds. d < 16" "from_digits 16 ds = n"
    using abi_word_digits [OF assms] by blast
  have v: "map (\<lambda>c. the (digit_val c)) (map digit_char ds) = ds"
    using ds(3) by (induction ds) (simp_all add: digit_val_char)
  have d: "list_all (is_digit 16) (map digit_char ds)"
    using ds(3) by (auto simp: list_all_iff is_digit_def digit_val_char)
  have "trim (''0x'' @ abi_word n) = ''0x'' @ abi_word n"
    by (rule trim_no_space) (use ds(3) digit_char_props in \<open>auto simp: ds(1) is_space_def code_unit_def\<close>)
  moreover have "map digit_char ds \<noteq> []" using ds(2) by auto
  ultimately show ?thesis
    using v d ds(4) by (simp add: jBigInt_def parse_BigInt_def Let_def startsWith_Cons ds(1))
qed

definition reserves_answer :: "nat \<Rightarrow> nat \<Rightarrow> string \<Rightarrow> json" where
  "reserves_answer u c rest = JObj [(''result'', JStr (''0x'' @ abi_word u @ abi_word c @ rest))]"

lemma pancake_reserves:
  assumes "u < 16 ^ 64" "c < 16 ^ 64" "0 < c"
  shows "pancake_price (reserves_answer u c rest) =
    (let x = js_div (to_double (of_nat (u * 10 ^ 9 div c))) (Fin (10 ^ 9))
     in if \<not> truthy x \<or> \<not> js_isFinite x then Inr None
        else Inr (Some \<lparr>pr_usdPerCac = x, pr_source = ''bnb'', pr_tradeTime = JNull\<rparr>))"
proof -
  have l: "length (abi_word u) = 64" "length (abi_word c) = 64"
    using abi_word_digits [OF assms(1)] abi_word_digits [OF assms(2)] by auto
  let ?hex = "abi_word u @ abi_word c @ rest"
  have "js_slice_from (''0x'' @ ?hex) 2 = ?hex" by (simp add: js_slice_from_nonneg)
  moreover have "js_slice ?hex 0 64 = abi_word u" "js_slice ?hex 64 128 = abi_word c"
    using l by (simp_all add: js_slice_nonneg)
  moreover have "(int u * 1000000000) sdiv int c = int (u * 10 ^ 9 div c)"
    using assms(3) by (cases "u = 0") (simp_all add: signed_divide_int_def zdiv_int)
  ultimately show ?thesis
    using l assms(3) parse_BigInt_abi [OF assms(1)] parse_BigInt_abi [OF assms(2)]
    by (simp add: pancake_price_def reserves_answer_def jget_opt_def Let_def)
qed

lemma pancake_error:
  assumes "u < 16 ^ 64" "c < 16 ^ 64" "0 < c" "c \<le> u * 10 ^ 9" "u * 10 ^ 9 div c \<le> 2 ^ 53"
  shows "\<exists>x. pancake_price (reserves_answer u c rest) =
      Inr (Some \<lparr>pr_usdPerCac = Fin x, pr_source = ''bnb'', pr_tradeTime = JNull\<rparr>)
    \<and> \<bar>x - of_nat u / of_nat c\<bar> \<le> 1 / 10 ^ 9 + of_nat u / of_nat c / 2 ^ 53"
proof -
  define q where "q = u * 10 ^ 9 div c"
  have q: "1 \<le> q" "q \<le> 2 ^ 53" using assms div_le_mono [OF assms(4), of c] by (simp_all add: q_def)
  define y where "y = (of_nat q :: rat) / 10 ^ 9"
  have y: "1 / 10 ^ 9 \<le> y" "y \<le> 2 ^ 53 / 10 ^ 9" using q by (simp_all add: y_def field_simps)
  note fl = fl_error_amount [OF y(1)]
  have "q * c \<le> u * 10 ^ 9" "u * 10 ^ 9 < (q + 1) * c"
    unfolding q_def using assms(3) by (simp_all add: dividend_less_times_div mult.commute)
  then have "of_nat (q * c) \<le> (of_nat (u * 10 ^ 9) :: rat)" "(of_nat (u * 10 ^ 9) :: rat) < of_nat ((q + 1) * c)"
    unfolding of_nat_le_iff of_nat_less_iff by blast+
  then have r: "y \<le> of_nat u / of_nat c" "of_nat u / of_nat c < y + 1 / 10 ^ 9"
    using assms(3) by (simp_all add: y_def field_simps)
  have "\<bar>fl y\<bar> \<le> 2 ^ 60" using fl y unfolding abs_le_iff by simp
  then have d: "to_double y = Fin (fl y)" by (rule to_double_Fin)
  have "fl (of_nat q) = of_nat q" using fl_int_exact [of "int q"] q(2) by simp
  then have "to_double (of_nat q) = Fin (of_nat q)" using to_double_Fin [of "of_nat q"] q(2) by simp
  then have "js_div (to_double (of_nat q)) (Fin (10 ^ 9)) = Fin (fl y)" using d by (simp add: js_div_def y_def)
  moreover have "fl y \<noteq> 0" using fl y(1) by (auto simp: abs_le_iff)
  ultimately have "pancake_price (reserves_answer u c rest) =
      Inr (Some \<lparr>pr_usdPerCac = Fin (fl y), pr_source = ''bnb'', pr_tradeTime = JNull\<rparr>)"
    using pancake_reserves [OF assms(1-3)] by (simp add: q_def Let_def truthy_def js_isFinite_def)
  moreover have "\<bar>fl y - of_nat u / of_nat c\<bar> \<le> 1 / 10 ^ 9 + of_nat u / of_nat c / 2 ^ 53"
  proof -
    have "y / 2 ^ 53 \<le> of_nat u / of_nat c / 2 ^ 53" using r(1) by (simp add: divide_right_mono)
    then show ?thesis using fl r unfolding abs_le_iff by linarith
  qed
  ultimately show ?thesis by blast
qed

section \<open>The order of the sources\<close>

definition usable :: "price \<Rightarrow> bool" where
  "usable p \<longleftrightarrow> pr_source p = ''bnb'' \<and> truthy (pr_usdPerCac p) \<and> js_isFinite (pr_usdPerCac p)"

lemma pancake_usable: "pancake_price j = Inr (Some p) \<Longrightarrow> usable p"
  by (auto simp: pancake_price_def Let_def usable_def bindE_eq_Inr split: json.splits if_splits)

text \<open>The price in the answer of the pool, and in that of the indexer, after the requests \<open>h\<close>.\<close>

definition direct_answer :: "env \<Rightarrow> request list \<Rightarrow> price option" where
  "direct_answer E h =
     (case bindE (bindE (e_fetch E h reserves_request) resp_json) pancake_price of Inl e \<Rightarrow> None | Inr p \<Rightarrow> p)"

definition pool_answer :: "env \<Rightarrow> request list \<Rightarrow> price option" where
  "pool_answer E h =
     (case bindE (e_fetch E h (fetch_get gecko_url)) resp_json of
        Inl e \<Rightarrow> None
      | Inr j \<Rightarrow>
          let x = js_Number (jget_opt (jget_opt (jget_opt j ''data'') ''attributes'') ''base_token_price_usd'')
          in if truthy x \<and> js_isFinite x then Some \<lparr>pr_usdPerCac = x, pr_source = ''bnb'', pr_tradeTime = JNull\<rparr> else None)"

lemma direct_run:
  "fetchPancakeDirectPrice E s = (Inr (direct_answer E (requests s)), s\<lparr>requests := requests s @ [reserves_request]\<rparr>)"
  by (simp add: fetchPancakeDirectPrice_def direct_answer_def act_simps split: sum.split)

lemma pool_run:
  "fetchBnbPoolPrice E s = (Inr (pool_answer E (requests s)), s\<lparr>requests := requests s @ [fetch_get gecko_url]\<rparr>)"
  by (simp add: fetchBnbPoolPrice_def pool_answer_def act_simps Let_def split: sum.split)

lemma answers_usable: "pred_option usable (direct_answer E h)" "pred_option usable (pool_answer E h)"
  using pancake_usable
  by (auto simp: pred_option_def direct_answer_def pool_answer_def usable_def bindE_eq_Inr Let_def
      split: sum.splits if_splits)

lemma stellar_run:
  obtains p where "fetchStellarPrice E s = (Inr p, s\<lparr>requests := requests s @ [fetch_get trades_url, fetch_get xlm_url]\<rparr>)"
    "pred_option (\<lambda>q. pr_source q = ''stellar'') p"
proof -
  have "\<exists>p. fetchStellarPrice E s = (Inr p, s\<lparr>requests := requests s @ [fetch_get trades_url, fetch_get xlm_url]\<rparr>)
     \<and> (\<forall>q. p = Some q \<longrightarrow> pr_source q = ''stellar'')"
    by (auto simp: fetchStellarPrice_def fetch_both_def act_simps Let_def split: sum.split)
  then show thesis using that by (auto simp: pred_option_def)
qed

section \<open>Properties\<close>

text \<open>
  C30: The price lookup never throws and changes nothing but the log of requests, and each source
  counts only when the ones before it gave no price. The pool reserves are asked first: a price in
  their answer is the result and nothing else is asked. Otherwise the indexer is asked, and a
  price in its answer is the result. Otherwise the two Stellar requests are sent and the result is
  what they give, a price or none. A price from the first two sources is finite and not zero.
\<close>

theorem fetchCacUsdPrice_sources:
  "\<exists>t. fst (fetchStellarPrice E (s\<lparr>requests := requests s @ [reserves_request, fetch_get gecko_url]\<rparr>)) = Inr t
   \<and> fetchCacUsdPrice E s =
      (case direct_answer E (requests s) of
         Some q \<Rightarrow> (Inr (Some q), s\<lparr>requests := requests s @ [reserves_request]\<rparr>)
       | None \<Rightarrow> (case pool_answer E (requests s @ [reserves_request]) of
           Some q \<Rightarrow> (Inr (Some q), s\<lparr>requests := requests s @ [reserves_request, fetch_get gecko_url]\<rparr>)
         | None \<Rightarrow> (Inr t, s\<lparr>requests := requests s
             @ [reserves_request, fetch_get gecko_url, fetch_get trades_url, fetch_get xlm_url]\<rparr>)))
   \<and> pred_option usable (direct_answer E (requests s))
   \<and> pred_option usable (pool_answer E (requests s @ [reserves_request]))
   \<and> pred_option (\<lambda>q. pr_source q = ''stellar'') t"
proof -
  let ?s = "s\<lparr>requests := requests s @ [reserves_request, fetch_get gecko_url]\<rparr>"
  obtain t where t: "fetchStellarPrice E ?s = (Inr t, ?s\<lparr>requests := requests ?s @ [fetch_get trades_url, fetch_get xlm_url]\<rparr>)"
    "pred_option (\<lambda>q. pr_source q = ''stellar'') t" by (rule stellar_run)
  then show ?thesis
    using direct_run [of E s] pool_run [of E "s\<lparr>requests := requests s @ [reserves_request]\<rparr>"]
    by (intro exI [of _ t]) (simp add: fetchCacUsdPrice_def act_simps answers_usable split: option.split)
qed

text \<open>
  C31: When the pool answers with reserves \<open>u\<close> of USDT and \<open>c\<close> of CAC, each a 256-bit word, the
  price is at least a billionth and the ratio scaled to billionths fits a double exactly, a price
  is reported, and it differs from \<open>u / c\<close> by at most a billionth of a dollar, which the integer
  division cuts off, plus one rounding, \<open>u / c / 2^53\<close>.
\<close>

theorem pancake_price_accuracy:
  assumes "u < 16 ^ 64" and "c < 16 ^ 64" and "0 < c" and "c \<le> u * 10 ^ 9" and "u * 10 ^ 9 div c \<le> 2 ^ 53"
  shows "\<exists>x. pancake_price (reserves_answer u c rest) =
      Inr (Some \<lparr>pr_usdPerCac = Fin x, pr_source = ''bnb'', pr_tradeTime = JNull\<rparr>)
    \<and> \<bar>x - of_nat u / of_nat c\<bar> \<le> 1 / 10 ^ 9 + of_nat u / of_nat c / 2 ^ 53"
  using assms by (rule pancake_error)

theorem pancake_price_accuracy_witness:
  "\<exists>x. pancake_price (reserves_answer (5 * 10 ^ 20) (25 * 10 ^ 24) ''00'') =
      Inr (Some \<lparr>pr_usdPerCac = Fin x, pr_source = ''bnb'', pr_tradeTime = JNull\<rparr>)
    \<and> \<bar>x - of_nat (5 * 10 ^ 20) / of_nat (25 * 10 ^ 24)\<bar> \<le> 1 / 10 ^ 9 + of_nat (5 * 10 ^ 20) / of_nat (25 * 10 ^ 24) / 2 ^ 53"
  by (rule pancake_price_accuracy) simp_all

end
