(* ===== verification/PageText.thy ===== *)
theory PageText
  imports Storage
begin

text \<open>
  Text the wallet page builds and reads: \<open>escapeHtml\<close>, the \<open>codexacoin:\<close> payment links
  (\<open>parseBip21\<close> and the link of the Receive screen), the text of a Number, and the CSV export of
  the history. The properties are round trips: escaped text displays as the original and cannot
  open a tag or leave an attribute, payment links carry address and amount, and a CSV reader
  recovers the exported cells.
\<close>

section \<open>Definitions\<close>

definition escape_char :: "char \<Rightarrow> string" where
  "escape_char c =
     (if c = CHR ''&'' then ''&amp;''
      else if c = CHR ''<'' then ''&lt;''
      else if c = CHR ''>'' then ''&gt;''
      else if c = CHR 0x22 then ''&quot;''
      else if c = CHR 0x27 then ''&#39;''
      else [c])"

definition escapeHtml :: "string \<Rightarrow> string" where
  "escapeHtml s = concat (map escape_char s)"

subsection \<open>Numbers as text\<close>

text \<open>
  \<open>String(x)\<close> of a positive finite Number: the shortest decimal that rounds to \<open>x\<close>. \<open>shortest\<close>
  tries 1 to 17 digits; \<open>n\<close> is the position of the decimal point and the digits are those of the
  integer nearest to \<open>x\<close> at that scale.
\<close>

definition decimal_exponent :: "rat \<Rightarrow> int" where
  "decimal_exponent x =
     (if 1 \<le> x then int (length (dec (nat \<lfloor>x\<rfloor>)))
      else 1 - int (length (dec (nat (\<lceil>1 / x\<rceil> - 1)))))"

definition try_digits :: "rat \<Rightarrow> int \<Rightarrow> nat \<Rightarrow> (nat \<times> int) option" where
  "try_digits x n k =
     (let m = nat (rnd (x / 10 powi (n - int k)))
      in if fl (of_nat m * 10 powi (n - int k)) = x
         then Some (if m = 10 ^ k then (10 ^ (k - 1), n + 1) else (m, n))
         else None)"

fun shortest :: "rat \<Rightarrow> int \<Rightarrow> nat list \<Rightarrow> (nat \<times> nat \<times> int) option" where
  "shortest x n [] = None"
| "shortest x n (k # ks) =
     (case try_digits x n k of Some (m, n') \<Rightarrow> Some (k, m, n') | None \<Rightarrow> shortest x n ks)"

definition place_point :: "nat \<Rightarrow> nat \<Rightarrow> int \<Rightarrow> string" where
  "place_point k m n =
     (let ds = dec m
      in if int k \<le> n \<and> n \<le> 21 then ds @ replicate (nat n - k) (CHR ''0'')
         else if 0 < n \<and> n \<le> 21 then take (nat n) ds @ ''.'' @ drop (nat n) ds
         else if - 6 < n \<and> n \<le> 0 then ''0.'' @ replicate (nat (- n)) (CHR ''0'') @ ds
         else let e = n - 1; et = (if e < 0 then ''e-'' else ''e+'') @ dec (nat \<bar>e\<bar>)
              in if k = 1 then ds @ et else take 1 ds @ ''.'' @ drop 1 ds @ et)"

definition num_to_string :: "rat \<Rightarrow> string" where
  "num_to_string x =
     (if x = 0 then ''0''
      else (if x < 0 then ''-'' else []) @
           (case shortest \<bar>x\<bar> (decimal_exponent \<bar>x\<bar>) [1..<18] of
              None \<Rightarrow> [] | Some (k, m, n) \<Rightarrow> place_point k m n))"

definition num_text :: "jsnum \<Rightarrow> string" where
  "num_text a = (case a of Fin x \<Rightarrow> num_to_string x | PosInf \<Rightarrow> ''Infinity'' | NegInf \<Rightarrow> ''-Infinity''
                 | NotANumber \<Rightarrow> ''NaN'')"

text \<open>
  \<open>x.toLocaleString("en-US", { maximumFractionDigits: 2 })\<close>: rounded half away from zero to
  hundredths, without trailing zeros, thousands separated by commas. The infinity sign, which the
  model's strings do not have, is written out.
\<close>

fun group_rev :: "string \<Rightarrow> string" where
  "group_rev (a # b # c # d # ds) = a # b # c # CHR '','' # group_rev (d # ds)"
| "group_rev ds = ds"

definition toLocaleString :: "jsnum \<Rightarrow> string" where
  "toLocaleString a =
     (case a of
        Fin x \<Rightarrow>
          (let c = nat \<lfloor>\<bar>x\<bar> * 100 + 1 / 2\<rfloor>; w = c div 100; f = c mod 100
           in (if x < 0 then ''-'' else []) @ rev (group_rev (rev (dec w)))
              @ (if f = 0 then [] else if f mod 10 = 0 then ''.'' @ dec (f div 10)
                 else ''.'' @ padStart (dec f) 2 (CHR ''0'')))
      | NotANumber \<Rightarrow> ''NaN'' | PosInf \<Rightarrow> ''Infinity'' | NegInf \<Rightarrow> ''-Infinity'')"

subsection \<open>Payment links\<close>

text \<open>
  \<open>new URLSearchParams(query).get(name)\<close>: pairs separated by \<open>&\<close>, the first \<open>=\<close> of each ending the
  name, \<open>+\<close> for a space and percent escapes, read as UTF-8 up to the first character the model's
  strings do not have.
\<close>

fun percent_bytes :: "string \<Rightarrow> bytes" where
  "percent_bytes (c # a # b # r) =
     (if c = CHR ''%'' \<and> is_digit 16 a \<and> is_digit 16 b
      then of_nat (16 * the (digit_val a) + the (digit_val b)) # percent_bytes r
      else utf8_char c @ percent_bytes (a # b # r))"
| "percent_bytes (c # r) = utf8_char c @ percent_bytes r"
| "percent_bytes [] = []"

fun utf8_prefix :: "bytes \<Rightarrow> string" where
  "utf8_prefix [] = []"
| "utf8_prefix (b # bs) =
     (if unat b < 128 then char_of (unat b) # utf8_prefix bs
      else case bs of
             [] \<Rightarrow> []
           | c # cs \<Rightarrow> if (unat b = 194 \<or> unat b = 195) \<and> 128 \<le> unat c \<and> unat c < 192
                      then char_of ((unat b - 192) * 64 + (unat c - 128)) # utf8_prefix cs
                      else [])"

definition form_decode :: "string \<Rightarrow> string" where
  "form_decode s = utf8_prefix (percent_bytes (map (\<lambda>c. if c = CHR ''+'' then CHR '' '' else c) s))"

definition params_get :: "string \<Rightarrow> string \<Rightarrow> string option" where
  "params_get query name =
     (let q = (if startsWith query ''?'' then tl query else query);
          pairs = map (\<lambda>p. (form_decode (takeWhile (\<lambda>c. c \<noteq> CHR ''='') p),
                            form_decode (drop 1 (dropWhile (\<lambda>c. c \<noteq> CHR ''='') p))))
                    (filter (\<lambda>p. p \<noteq> []) (js_split (CHR ''&'') q))
      in map_of pairs name)"

definition parseBip21 :: "string \<Rightarrow> string \<times> jsnum option" where
  "parseBip21 t =
     (let trimmed = trim t
      in if \<not> startsWith (toLowerCase trimmed) ''codexacoin:'' then (trimmed, None)
         else let withoutScheme = js_slice_from trimmed (int (length ''codexacoin:''));
                  parts = js_split (CHR ''?'') withoutScheme;
                  address = hd parts;
                  query = (case tl parts of [] \<Rightarrow> [] | q # _ \<Rightarrow> q)
              in (address,
                  if query = [] then None
                  else case params_get query ''amount'' of
                         None \<Rightarrow> None
                       | Some amountStr \<Rightarrow> if amountStr = [] then None else Some (parseFloat amountStr)))"

text \<open>The link of \<open>refreshReceiveQr\<close>.\<close>

definition receive_uri :: "string \<Rightarrow> string \<Rightarrow> string" where
  "receive_uri address amountField =
     (let amountNum = parseFloat (trim amountField)
      in if gt_zero amountNum then ''codexacoin:'' @ address @ ''?amount='' @ num_text amountNum else address)"

subsection \<open>CSV\<close>

text \<open>\<open>`"${cell.replace(/"/g, '""')}"`\<close>, joined by commas and line feeds.\<close>

definition csv_cell :: "string \<Rightarrow> string" where
  "csv_cell cell = [CHR 0x22] @ concat (map (\<lambda>c. if c = CHR 0x22 then [CHR 0x22, CHR 0x22] else [c]) cell) @ [CHR 0x22]"

definition csv_text :: "string list list \<Rightarrow> string" where
  "csv_text rows = js_join [CHR 0x0A] (map (\<lambda>r. js_join '','' (map csv_cell r)) rows)"

subsection \<open>Reference readers\<close>

text \<open>The text an HTML parser shows for the five character references.\<close>

function unescape :: "string \<Rightarrow> string" where
  "unescape s =
     (if s = [] then []
      else if startsWith s ''&amp;'' then CHR ''&'' # unescape (drop 5 s)
      else if startsWith s ''&lt;'' then CHR ''<'' # unescape (drop 4 s)
      else if startsWith s ''&gt;'' then CHR ''>'' # unescape (drop 4 s)
      else if startsWith s ''&quot;'' then CHR 0x22 # unescape (drop 6 s)
      else if startsWith s ''&#39;'' then CHR 0x27 # unescape (drop 5 s)
      else hd s # unescape (tl s))"
  by pat_completeness auto
termination by (relation "measure length") auto

declare unescape.simps [simp del]

text \<open>
  A reader of quoted CSV (RFC 4180): inside quotes a doubled quote stands for one; a comma ends a
  cell and a line feed a row.
\<close>

fun csv_quoted :: "string \<Rightarrow> string \<Rightarrow> (string \<times> string) option" where
  "csv_quoted acc [] = None"
| "csv_quoted acc (c # cs) =
     (if c \<noteq> CHR 0x22 then csv_quoted (c # acc) cs
      else case cs of
             [] \<Rightarrow> Some (rev acc, [])
           | d # ds \<Rightarrow> if d = CHR 0x22 then csv_quoted (CHR 0x22 # acc) ds else Some (rev acc, cs))"

lemma csv_quoted_length: "csv_quoted acc s = Some (cell, rest) \<Longrightarrow> length rest \<le> length s"
  by (induction acc s rule: csv_quoted.induct) (auto split: if_splits list.splits)

function csv_read :: "string \<Rightarrow> string list list option" where
  "csv_read s =
     (case s of
        [] \<Rightarrow> None
      | q # cs \<Rightarrow>
          if q \<noteq> CHR 0x22 then None
          else case csv_quoted [] cs of
                 None \<Rightarrow> None
               | Some (cell, rest) \<Rightarrow>
                   (case rest of
                      [] \<Rightarrow> Some [[cell]]
                    | d # ds \<Rightarrow>
                        if d = CHR '','' then
                          (case csv_read ds of Some (row # rows) \<Rightarrow> Some ((cell # row) # rows) | _ \<Rightarrow> None)
                        else if d = CHR 0x0A then map_option (\<lambda>rows. [cell] # rows) (csv_read ds)
                        else None))"
  by pat_completeness auto
termination
  by (relation "measure length") (auto dest!: csv_quoted_length)

declare csv_read.simps [simp del]

section \<open>Escaping\<close>

lemma unescape_escape_char: "unescape (escape_char c @ t) = c # unescape t"
  by (subst unescape.simps) (auto simp: escape_char_def startsWith_Cons)

lemma unescape_escapeHtml: "unescape (escapeHtml s) = s"
proof (induction s)
  case Nil
  then show ?case by (simp add: escapeHtml_def unescape.simps)
next
  case (Cons c s)
  have "escapeHtml (c # s) = escape_char c @ escapeHtml s" by (simp add: escapeHtml_def)
  then show ?case using Cons by (simp add: unescape_escape_char)
qed

lemma escapeHtml_chars: "set (escapeHtml s) \<inter> {CHR ''<'', CHR ''>'', CHR 0x22, CHR 0x27} = {}"
  by (auto simp: escapeHtml_def escape_char_def split: if_splits)

section \<open>CSV\<close>

definition csv_body :: "string \<Rightarrow> string" where
  "csv_body cell = concat (map (\<lambda>c. if c = CHR 0x22 then [CHR 0x22, CHR 0x22] else [c]) cell)"

lemma csv_quoted_body:
  "rest = [] \<or> hd rest \<noteq> CHR 0x22 \<Longrightarrow> csv_quoted acc (csv_body cell @ CHR 0x22 # rest) = Some (rev acc @ cell, rest)"
proof (induction cell arbitrary: acc)
  case Nil
  then show ?case by (cases rest) (simp_all add: csv_body_def)
next
  case (Cons c cell)
  then show ?case by (simp add: csv_body_def)
qed

lemma csv_read_cell:
  assumes "rest = [] \<or> hd rest \<noteq> CHR 0x22"
  shows "csv_read (csv_cell cell @ rest) =
    (case rest of
       [] \<Rightarrow> Some [[cell]]
     | d # ds \<Rightarrow> if d = CHR '','' then (case csv_read ds of Some (row # rows) \<Rightarrow> Some ((cell # row) # rows) | _ \<Rightarrow> None)
                else if d = CHR 0x0A then map_option (\<lambda>rows. [cell] # rows) (csv_read ds)
                else None)"
  using csv_quoted_body [OF assms, of "[]" cell]
  by (subst csv_read.simps) (simp add: csv_cell_def csv_body_def)

lemma csv_read_row:
  assumes "row \<noteq> []"
  shows "csv_read (js_join '','' (map csv_cell row)) = Some [row]"
    and "csv_read (js_join '','' (map csv_cell row) @ CHR 0x0A # rest) = map_option ((#) row) (csv_read rest)"
  using assms
proof (induction row rule: induct_list012)
  case (2 x)
  { case 1 show ?case using csv_read_cell [of "[]" x] by simp }
  { case 2 show ?case using csv_read_cell [of "CHR 0x0A # rest" x] by simp }
next
  case (3 x y zs)
  { case 1 show ?case
      using csv_read_cell [of "CHR '','' # js_join '','' (map csv_cell (y # zs))" x] 3(3) by simp }
  { case 2 show ?case
      using csv_read_cell [of "CHR '','' # js_join '','' (map csv_cell (y # zs)) @ CHR 0x0A # rest" x] 3(4)
      by (cases "csv_read rest") simp_all }
qed simp_all

lemma csv_roundtrip:
  "rows \<noteq> [] \<Longrightarrow> list_all (\<lambda>r. r \<noteq> []) rows \<Longrightarrow> csv_read (csv_text rows) = Some rows"
proof (induction rows rule: induct_list012)
  case (3 r r' rows)
  then show ?case using csv_read_row(2) [of r "csv_text (r' # rows)"] by (simp add: csv_text_def)
qed (simp_all add: csv_text_def csv_read_row)

section \<open>The text of Numbers\<close>

lemma dec_length_bounds:
  assumes "0 < v"
  shows "10 ^ (length (dec v) - 1) \<le> v" "v < 10 ^ length (dec v)" "0 < length (dec v)"
proof -
  show l: "0 < length (dec v)" by simp
  have d: "length (dec v) = length (to_digits 10 v [])" using assms by (simp add: dec_def toString_radix_def)
  show "v < 10 ^ length (dec v)"
    using base10.from_digits_bound [of "to_digits 10 v []"] base10.to_digits_less [of _ v]
    by (simp add: d base10.from_to_digits)
  show "10 ^ (length (dec v) - 1) \<le> v"
  proof (rule ccontr)
    assume "\<not> 10 ^ (length (dec v) - 1) \<le> v"
    then have "length (dec v) \<le> length (dec v) - 1"
      unfolding d by (intro base10.to_digits_length) simp
    then show False using l by linarith
  qed
qed

lemma dec_length_eq: "10 ^ (k - 1) \<le> v \<Longrightarrow> v < 10 ^ k \<Longrightarrow> 0 < k \<Longrightarrow> length (dec v) = k"
proof -
  assume v: "10 ^ (k - 1) \<le> v" "v < 10 ^ k" "0 < k"
  have "0 < v" using v(1) by (metis gr0I not_numeral_le_zero one_le_numeral one_le_power order_trans zero_neq_one le_zero_eq)
  then have b: "10 ^ (length (dec v) - 1) \<le> v" "v < 10 ^ length (dec v)" "0 < length (dec v)"
    by (rule dec_length_bounds)+
  have "(10 :: nat) ^ (length (dec v) - 1) < 10 ^ k" "(10 :: nat) ^ (k - 1) < 10 ^ length (dec v)"
    using v b by linarith+
  then have "length (dec v) - 1 < k" "k - 1 < length (dec v)"
    by (simp_all add: power_strict_increasing_iff)
  then show ?thesis using v(3) b(3) by linarith
qed

lemma decimal_exponent_bounds:
  assumes "0 < x"
  shows "10 powi (decimal_exponent x - 1) \<le> x \<and> x < 10 powi decimal_exponent x"
proof (cases "1 \<le> x")
  case True
  define v where "v = nat \<lfloor>x\<rfloor>"
  have v: "0 < v" "of_nat v \<le> x" "x < of_nat (v + 1)" using nat_floor_bounds [OF True] by (auto simp: v_def)
  have "v + 1 \<le> 10 ^ length (dec v)" using dec_length_bounds(2) [OF v(1)] by simp
  then have "of_nat (v + 1) \<le> (10 :: rat) ^ length (dec v)"
    by (metis of_nat_le_iff of_nat_numeral of_nat_power)
  moreover have "(10 :: rat) ^ (length (dec v) - 1) \<le> of_nat v"
    using dec_length_bounds(1) [OF v(1)] by (metis of_nat_le_iff of_nat_numeral of_nat_power)
  ultimately have b: "(10 :: rat) ^ (length (dec v) - 1) \<le> x" "x < 10 ^ length (dec v)"
    using v(2,3) by linarith+
  have e: "decimal_exponent x = int (length (dec v))" using True by (simp add: decimal_exponent_def v_def)
  have e1: "int (length (dec v)) - 1 = int (length (dec v) - 1)" using dec_length_bounds(3) [OF v(1)] by linarith
  show ?thesis unfolding e e1 power_int_of_nat using b by blast
next
  case False
  define v where "v = nat (\<lceil>1 / x\<rceil> - 1)"
  have y: "1 < 1 / x" using False assms by simp
  have "1 < \<lceil>1 / x\<rceil>" using y by (simp only: less_ceiling_iff of_int_1)
  then have v: "0 < v" "int v = \<lceil>1 / x\<rceil> - 1" unfolding v_def by linarith+
  have "(of_nat v :: rat) = of_int \<lceil>1 / x\<rceil> - 1" using v(2) by (metis of_int_1 of_int_diff of_int_of_nat_eq)
  moreover have "of_int \<lceil>1 / x\<rceil> - 1 < 1 / x" "1 / x \<le> of_int \<lceil>1 / x\<rceil>"
    using ceiling_correct [of "1 / x"] by blast+
  ultimately have r: "of_nat v < 1 / x" "1 / x \<le> of_nat (v + 1)" by (simp_all only: of_nat_add of_nat_1)
  have "v + 1 \<le> 10 ^ length (dec v)" using dec_length_bounds(2) [OF v(1)] by simp
  then have hi: "1 / x \<le> (10 :: rat) ^ length (dec v)"
    using r(2) by (metis of_nat_le_iff of_nat_numeral of_nat_power order_trans)
  have lo: "(10 :: rat) ^ (length (dec v) - 1) < 1 / x"
    using r(1) dec_length_bounds(1) [OF v(1)] by (metis of_nat_le_iff of_nat_numeral of_nat_power order_le_less_trans)
  have e: "decimal_exponent x = - int (length (dec v) - 1)"
    using False dec_length_bounds(3) [OF v(1)] unfolding decimal_exponent_def v_def [symmetric] if_not_P [OF False]
    by linarith
  have "decimal_exponent x - 1 = - int (length (dec v))" using e dec_length_bounds(3) [OF v(1)] by linarith
  then have p1: "10 powi (decimal_exponent x - 1) = 1 / (10 :: rat) ^ length (dec v)"
    by (simp add: power_int_minus inverse_eq_divide)
  have p2: "10 powi decimal_exponent x = 1 / (10 :: rat) ^ (length (dec v) - 1)"
    by (simp add: e power_int_minus inverse_eq_divide)
  show ?thesis unfolding p1 p2 using hi lo assms by (simp add: field_simps)
qed

lemma rnd_bounds:
  assumes "of_int a \<le> y" "y \<le> of_int b"
  shows "a \<le> rnd y \<and> rnd y \<le> b"
proof -
  have "of_int a - 1 < (of_int (rnd y) :: rat)" "(of_int (rnd y) :: rat) < of_int b + 1"
    using rnd_error [of y] assms unfolding abs_le_iff by linarith+
  then have "of_int (a - 1) < (of_int (rnd y) :: rat)" "(of_int (rnd y) :: rat) < of_int (b + 1)" by simp_all
  then show ?thesis unfolding of_int_less_iff by linarith
qed

lemma try_digits_sound:
  assumes "10 powi (n - 1) \<le> x" "x < 10 powi n" "0 < k" "try_digits x n k = Some (m, n')"
  shows "fl (of_nat m * 10 powi (n' - int k)) = x" "10 ^ (k - 1) \<le> m" "m < 10 ^ k" "n \<le> n' \<and> n' \<le> n + 1"
proof -
  define y where "y = x / 10 powi (n - int k)"
  define r where "r = nat (rnd y)"
  have p: "(10 :: rat) powi n = 10 powi (n - int k) * 10 ^ k" "(10 :: rat) powi (n - 1) = 10 powi (n - int k) * 10 ^ (k - 1)"
  proof -
    obtain j where j: "k = Suc j" using assms(3) by (cases k) auto
    have "(10 :: rat) powi (n - int k + int k) = 10 powi (n - int k) * 10 powi int k"
      "(10 :: rat) powi (n - int k + int j) = 10 powi (n - int k) * 10 powi int j"
      by (rule power_int_add; simp)+
    moreover have "n - int k + int k = n" "n - int k + int j = n - 1" "k - 1 = j" using j by simp_all
    ultimately show "(10 :: rat) powi n = 10 powi (n - int k) * 10 ^ k"
      "(10 :: rat) powi (n - 1) = 10 powi (n - int k) * 10 ^ (k - 1)"
      by (simp_all only: power_int_of_nat)
  qed
  have pos: "0 < (10 :: rat) powi (n - int k)" by simp
  have "of_int (10 ^ (k - 1)) \<le> y" "y \<le> of_int (10 ^ k)"
    unfolding y_def using assms(1,2) pos p by (simp_all add: field_simps)
  then have b: "10 ^ (k - 1) \<le> rnd y \<and> rnd y \<le> 10 ^ k" by (rule rnd_bounds)
  moreover have "(0 :: int) < 10 ^ (k - 1)" by simp
  ultimately have "int r = rnd y" unfolding r_def by linarith
  then have "int (10 ^ (k - 1)) \<le> int r" "int r \<le> int (10 ^ k)" using b by simp_all
  then have r: "10 ^ (k - 1) \<le> r" "r \<le> 10 ^ k" unfolding of_nat_le_iff by blast+
  have res: "fl (of_nat r * 10 powi (n - int k)) = x" "(m, n') = (if r = 10 ^ k then (10 ^ (k - 1), n + 1) else (r, n))"
    using assms(4) by (auto simp: try_digits_def Let_def r_def y_def split: if_splits)
  have k: "(10 :: nat) ^ k = 10 * 10 ^ (k - 1)" "(10 :: rat) ^ k = 10 * 10 ^ (k - 1)"
    using assms(3) by (metis Suc_pred' power_Suc)+
  have "(10 :: rat) powi (n - int k + 1) = 10 powi (n - int k) * 10" by (simp add: power_int_add)
  then have "(10 :: rat) powi (n + 1 - int k) = 10 powi (n - int k) * 10" by (simp add: algebra_simps)
  then show "fl (of_nat m * 10 powi (n' - int k)) = x"
    using res k(2) by (auto simp: mult_ac split: if_splits)
  show "10 ^ (k - 1) \<le> m" "m < 10 ^ k" "n \<le> n' \<and> n' \<le> n + 1" using res(2) r k(1) by (auto split: if_splits)
qed

lemma shortest_Some:
  "shortest x n ks = Some (k, m, n') \<Longrightarrow> k \<in> set ks \<and> try_digits x n k = Some (m, n')"
  by (induction ks) (auto split: option.splits)

lemma shortest_exists: "k \<in> set ks \<Longrightarrow> try_digits x n k \<noteq> None \<Longrightarrow> \<exists>r. shortest x n ks = Some r"
  by (induction ks) (auto split: option.splits)

lemma try_digits_exists:
  assumes "nat (rnd (x / 10 powi (n - int k))) = m" "fl (of_nat m * 10 powi (n - int k)) = x"
  shows "try_digits x n k \<noteq> None"
  using assms by (simp add: try_digits_def Let_def)

text \<open>Reading the printed digits back.\<close>

lemma takeWhile_digits:
  assumes "digits ip" "r = [] \<or> \<not> is_digit 10 (hd r)"
  shows "takeWhile (is_digit 10) (ip @ r) = ip" "dropWhile (is_digit 10) (ip @ r) = r"
  using assms by (cases r; simp add: takeWhile_append dropWhile_append takeWhile_eq_Nil_iff)+

lemma parse_unsigned_point:
  assumes "digits ip" "digits fp" "ip \<noteq> []" "r = [] \<or> \<not> is_digit 10 (hd r)"
  shows "parse_unsigned (ip @ CHR ''.'' # fp @ r)
    = Some (of_nat (dec_num (ip @ fp)) * 10 powi (parse_exponent r - int (length fp)))"
  unfolding parse_unsigned_def Let_def span_digits [OF assms(1)]
  using assms(3) by (simp add: takeWhile_digits [OF assms(2,4)])

lemma parse_unsigned_plain:
  assumes "digits ip" "ip \<noteq> []" "r = [] \<or> \<not> is_digit 10 (hd r) \<and> hd r \<noteq> CHR ''.''"
  shows "parse_unsigned (ip @ r) = Some (of_nat (dec_num ip) * 10 powi (parse_exponent r))"
proof -
  have r: "r = [] \<or> \<not> is_digit 10 (hd r)" using assms(3) by blast
  show ?thesis
    unfolding parse_unsigned_def Let_def takeWhile_digits [OF assms(1) r]
    using assms(2,3) by (cases r) simp_all
qed

lemma parse_exponent_text:
  "parse_exponent (''e-'' @ dec v) = - int v" "parse_exponent (''e+'' @ dec v) = int v"
proof -
  have t: "takeWhile (is_digit 10) (dec v) = dec v" using dec_digits by (simp add: takeWhile_eq_all_conv)
  show "parse_exponent (''e-'' @ dec v) = - int v" "parse_exponent (''e+'' @ dec v) = int v"
    by (simp_all add: parse_exponent_def t)
qed

lemma digits_dec [simp]: "digits (dec v)"
  using dec_digits by blast

lemma digits_zeros [simp]: "digits (replicate j (CHR ''0''))"
  by (simp add: is_digit_def digit_val_def code_unit_def)

lemma digits_take_drop: "digits ds \<Longrightarrow> digits (take j ds) \<and> digits (drop j ds)"
  by (auto dest: in_set_takeD in_set_dropD)

lemma dec_num_zeros_right: "dec_num (ds @ replicate j (CHR ''0'')) = dec_num ds * 10 ^ j"
proof -
  have "dec_num (replicate j (CHR ''0'')) = 0"
    using dec_num_zeros [of j "[]"] by (simp add: dec_num_def from_digits_def)
  then show ?thesis by (simp add: dec_num_append)
qed

lemma parse_place_point:
  assumes "length (dec m) = k" "0 < k"
  shows "parse_unsigned (place_point k m n) = Some (of_nat m * 10 powi (n - int k))"
proof -
  have e: "\<not> is_digit 10 (CHR ''e'')" by (simp add: is_digit_def digit_val_def code_unit_def)
  have x: "parse_exponent (if n - 1 < 0 then ''e-'' @ dec (nat \<bar>n - 1\<bar>) else ''e+'' @ dec (nat \<bar>n - 1\<bar>)) = n - 1"
    using parse_exponent_text [of "nat (1 - n)"] parse_exponent_text [of "nat (n - 1)"] by auto
  have td: "digits (take j (dec m)) \<and> digits (drop j (dec m))" for j using digits_take_drop [OF digits_dec] .
  consider (a) "int k \<le> n \<and> n \<le> 21" | (b) "0 < n \<and> n < int k \<and> n \<le> 21" | (c) "- 6 < n \<and> n \<le> 0"
    | (d) "\<not> (int k \<le> n \<and> n \<le> 21)" "\<not> (0 < n \<and> n \<le> 21)" "\<not> (- 6 < n \<and> n \<le> 0)" by linarith
  then show ?thesis
  proof cases
    case a
    have "(10 :: rat) powi (n - int k) = 10 ^ (nat n - k)"
      using a by (metis nat_diff_distrib' nat_int of_nat_0_le_iff order_trans power_int_nonneg_exp diff_ge_0_iff_ge)
    moreover have "digits (dec m @ replicate (nat n - k) (CHR ''0''))"
      unfolding set_append ball_Un using digits_dec digits_zeros by blast
    note parse_unsigned_plain [OF this, of "[]"]
    ultimately show ?thesis
      using a by (simp add: place_point_def Let_def dec_num_zeros_right parse_exponent_def)
  next
    case b
    have "take (nat n) (dec m) \<noteq> []" using b assms by auto
    moreover have "int (length (drop (nat n) (dec m))) = int k - n" using b assms(1) by (auto simp: of_nat_diff)
    ultimately show ?thesis
      using b td parse_unsigned_point [of "take (nat n) (dec m)" "drop (nat n) (dec m)" "[]"]
      by (simp add: place_point_def Let_def parse_exponent_def)
  next
    case c
    have "digits ''0''" by (simp add: is_digit_def digit_val_def code_unit_def)
    moreover have "dec_num (''0'' @ replicate (nat (- n)) (CHR ''0'') @ dec m) = m"
      using dec_num_zeros [of "Suc (nat (- n))" "dec m"] by simp
    moreover have "digits (replicate (nat (- n)) (CHR ''0'') @ dec m)"
      unfolding set_append ball_Un using digits_dec digits_zeros by blast
    note parse_unsigned_point [OF _ this, of "''0''" "[]"]
    ultimately show ?thesis
      using c assms by (simp add: place_point_def Let_def parse_exponent_def)
  next
    case d
    define r where "r = (if n - 1 < 0 then ''e-'' @ dec (nat \<bar>n - 1\<bar>) else ''e+'' @ dec (nat \<bar>n - 1\<bar>))"
    have r: "r = [] \<or> \<not> is_digit 10 (hd r)" "r \<noteq> [] \<and> hd r \<noteq> CHR ''.''" using e by (simp_all add: r_def)
    have p: "place_point k m n = (if k = 1 then dec m @ r else take 1 (dec m) @ ''.'' @ drop 1 (dec m) @ r)"
      using d by (auto simp: place_point_def Let_def r_def)
    have x': "parse_exponent r = n - 1" unfolding r_def by (rule x)
    show ?thesis
    proof (cases "k = 1")
      case True
      then show ?thesis using parse_unsigned_plain [of "dec m" r] r p x' by simp
    next
      case False
      have "take 1 (dec m) \<noteq> []" "int (length (drop 1 (dec m))) = int k - 1" using assms by auto
      then show ?thesis
        using False parse_unsigned_point [of "take 1 (dec m)" "drop 1 (dec m)" r] r td p x' by simp
    qed
  qed
qed


text \<open>The characters of a printed amount.\<close>

abbreviation plain :: "char \<Rightarrow> bool" where
  "plain c \<equiv> is_digit 10 c \<or> c = CHR ''.'' \<or> c = CHR ''e'' \<or> c = CHR ''-''"

lemma place_point_chars:
  assumes "n \<le> 21" "c \<in> set (place_point k m n)"
  shows "plain c"
proof -
  have "c \<in> set (dec m) \<union> set (dec (nat \<bar>n - 1\<bar>)) \<union> {CHR ''0'', CHR ''.'', CHR ''e'', CHR ''-''}"
    using assms unfolding place_point_def Let_def
    by (auto dest: in_set_takeD in_set_dropD split: if_splits)
  moreover have "is_digit 10 (CHR ''0'')" by (simp add: is_digit_def digit_val_def code_unit_def)
  ultimately show ?thesis using digits_dec by blast
qed

lemma place_point_hd: "length (dec m) = k \<Longrightarrow> 0 < k \<Longrightarrow> \<exists>c r. place_point k m n = c # r \<and> is_digit 10 c"
proof -
  assume k: "length (dec m) = k" "0 < k"
  then obtain c r where d: "dec m = c # r" by (cases "dec m") auto
  then have "is_digit 10 c" using digits_dec [of m] by simp
  moreover have "is_digit 10 (CHR ''0'')" by (simp add: is_digit_def digit_val_def code_unit_def)
  moreover have "0 < n \<Longrightarrow> take (nat n) (c # r) = c # take (nat n - 1) r"
    by (metis less_numeral_extra(3) nat_0_iff not_le take_Cons')
  ultimately show ?thesis
    unfolding place_point_def Let_def d using k d by (auto simp: is_digit_def digit_val_def code_unit_def)
qed

lemma num_to_string_parse:
  assumes "0 < x" "x \<le> 2 ^ 60" "shortest x (decimal_exponent x) [1..<18] = Some r"
  shows "\<exists>k m n. num_to_string x = place_point k m n \<and> n \<le> decimal_exponent x + 1
    \<and> length (dec m) = k \<and> 0 < k \<and> parseFloat (num_to_string x) = Fin x"
proof -
  obtain k m n where r: "r = (k, m, n)" by (metis prod_cases3)
  have k: "0 < k" "try_digits x (decimal_exponent x) k = Some (m, n)"
    using shortest_Some [OF assms(3) [unfolded r]] by auto
  note t = try_digits_sound [OF conjunct1 [OF decimal_exponent_bounds [OF assms(1)]]
      conjunct2 [OF decimal_exponent_bounds [OF assms(1)]] k]
  have l: "length (dec m) = k" using dec_length_eq t(2,3) k(1) by blast
  have p: "num_to_string x = place_point k m n" using assms(1,3) by (simp add: num_to_string_def r)
  obtain c s where c: "place_point k m n = c # s" "is_digit 10 c" using place_point_hd [OF l k(1)] by blast
  have "\<not> startsWith (place_point k m n) ''Infinity''"
    using digit_not [OF c(2)] by (simp add: c(1) startsWith_Cons)
  then have "parseFloat (place_point k m n) = to_double (of_nat m * 10 powi (n - int k))"
    using digit_not [OF c(2)] parse_place_point [OF l k(1), of n] by (simp add: c(1) parseFloat_def)
  moreover have "\<dots> = Fin x" using to_double_Fin [of "of_nat m * 10 powi (n - int k)"] t(1) assms(1,2) by simp
  ultimately show ?thesis using p l k(1) t(4) by auto
qed

lemma rnd_near: "\<bar>y - of_int N\<bar> < 1 / 2 \<Longrightarrow> rnd y = N"
proof -
  assume "\<bar>y - of_int N\<bar> < 1 / 2"
  then have "of_int N < (of_int (rnd y) :: rat) + 1" "(of_int (rnd y) :: rat) < of_int N + 1"
    using rnd_error [of y] unfolding abs_le_iff abs_less_iff by linarith+
  then have "of_int N < (of_int (rnd y + 1) :: rat)" "(of_int (rnd y) :: rat) < of_int (N + 1)" by simp_all
  then show ?thesis unfolding of_int_less_iff by linarith
qed

lemma amount_shortest:
  assumes "1 \<le> n" "n < 2 ^ 51"
  defines "x \<equiv> fl (of_int n / 10 ^ 8)"
  shows "0 < x" "x \<le> 3 * 10 ^ 7" "decimal_exponent x \<le> 8"
    and "\<exists>r. shortest x (decimal_exponent x) [1..<18] = Some r"
proof -
  let ?n = "of_int n :: rat"
  define e where "e = decimal_exponent x"
  have "n \<le> 2251799813685247" using assms(2) by simp
  then have "?n \<le> of_int 2251799813685247" by (simp only: of_int_le_iff)
  then have hi: "?n \<le> 2251799813685247" by simp
  have lo: "1 \<le> ?n" using assms(1) by simp
  have a: "\<bar>x - ?n / 10 ^ 8\<bar> \<le> ?n / 10 ^ 8 / 2 ^ 53"
    unfolding x_def using lo by (intro fl_error_amount) simp
  then have a': "x - ?n / 10 ^ 8 \<le> ?n / 10 ^ 8 / 2 ^ 53" "?n / 10 ^ 8 - x \<le> ?n / 10 ^ 8 / 2 ^ 53"
    unfolding abs_le_iff by simp_all
  have lx: "1 / 10 ^ 9 < x" using a'(2) lo by (simp add: field_simps)
  show x0: "0 < x" using lx by (rule order_less_trans [rotated]) simp
  show x1: "x \<le> 3 * 10 ^ 7" using a'(1) hi by (simp add: field_simps)
  note b = decimal_exponent_bounds [OF x0, folded e_def]
  have "(10 :: rat) powi (e - 1) < 10 powi 8" using b x1 by simp
  then have "\<not> 8 \<le> e - 1" using power_int_increasing [of 8 "e - 1" "10 :: rat"] by fastforce
  then show e8: "decimal_exponent x \<le> 8" unfolding e_def by simp
  have "(10 :: rat) powi (- 9) < 10 powi e" using b lx by (simp add: power_int_minus)
  then have "\<not> e \<le> - 9" using power_int_increasing [of e "- 9" "10 :: rat"] by fastforce
  then have e9: "- 8 \<le> e" by simp
  have "\<exists>k \<in> set [1..<18]. try_digits x e k \<noteq> None"
  proof (cases "e = - 8")
    case False
    define k where "k = nat (e + 8)"
    have k: "k \<in> set [1..<18]" "e - int k = - 8" using e9 e8 False by (auto simp: k_def e_def)
    have y: "x / 10 powi (- 8) = x * 10 ^ 8" by (simp add: power_int_minus)
    have "x * 10 ^ 8 - ?n < 1 / 2" "?n - x * 10 ^ 8 < 1 / 2" using a' hi by (simp_all add: field_simps)
    then have "\<bar>x / 10 powi (- 8) - of_int n\<bar> < 1 / 2" unfolding y abs_less_iff by linarith
    then have "nat (rnd (x / 10 powi (e - int k))) = nat n" unfolding k(2) by (simp only: rnd_near)
    moreover have "fl (of_nat (nat n) * 10 powi (e - int k)) = x"
      using assms(1) unfolding k(2) by (simp add: x_def power_int_minus field_simps)
    ultimately show ?thesis using try_digits_exists k(1) by blast
  next
    case True
    have "x < 1 / 10 ^ 8" using b True by (simp add: power_int_minus)
    then have "?n < 2" using a'(2) lo by (simp add: field_simps)
    then have n: "n = 1" using assms(1) by linarith
    have y: "x / 10 powi (- 9) = x * 10 ^ 9" by (simp add: power_int_minus)
    have "x * 10 ^ 9 - of_int 10 < 1 / 2" "of_int 10 - x * 10 ^ 9 < 1 / 2" using a' by (simp_all add: n field_simps)
    then have "\<bar>x / 10 powi (- 9) - of_int 10\<bar> < 1 / 2" unfolding y abs_less_iff by linarith
    then have "nat (rnd (x / 10 powi (e - int 1))) = 10" using rnd_near [of _ 10] by (simp add: True)
    moreover have "fl (of_nat 10 * 10 powi (e - int 1)) = x"
      by (simp add: n True x_def power_int_minus)
    ultimately have "try_digits x e 1 \<noteq> None" by (rule try_digits_exists)
    then show ?thesis by (intro bexI [of _ 1]) simp_all
  qed
  then show "\<exists>r. shortest x (decimal_exponent x) [1..<18] = Some r"
    using shortest_exists unfolding e_def by blast
qed


section \<open>Payment links\<close>

lemma form_decode_plain:
  assumes "\<forall>c\<in>set s. c \<noteq> CHR ''+'' \<and> c \<noteq> CHR ''%'' \<and> code_unit c < 128"
  shows "form_decode s = s"
proof -
  have "percent_bytes s = map (\<lambda>c. of_nat (code_unit c)) s"
    using assms by (induction s rule: percent_bytes.induct) (auto simp: utf8_char_def)
  moreover have "utf8_prefix (map (\<lambda>c. of_nat (code_unit c)) s) = s"
    using assms by (induction s) (simp_all add: unat_of_nat code_unit_def)
  moreover have "map (\<lambda>c. if c = CHR ''+'' then CHR '' '' else c) s = s"
    using assms by (induction s) auto
  ultimately show ?thesis by (simp add: form_decode_def)
qed

lemma js_split_acc_none: "c \<notin> set s \<Longrightarrow> js_split_acc c acc s = [rev acc @ s]"
  by (induction s arbitrary: acc) auto

lemma js_split_acc_first:
  "c \<notin> set s \<Longrightarrow> js_split_acc c acc (s @ c # r) = (rev acc @ s) # js_split_acc c [] r"
  by (induction s arbitrary: acc) auto

lemma plain_facts:
  assumes "plain c"
  shows "c \<noteq> CHR ''+''" "c \<noteq> CHR ''%''" "code_unit c < 128" "c \<noteq> CHR ''&''" "c \<noteq> CHR ''=''" "c \<noteq> CHR ''?''"
    "\<not> is_space c"
  using assms
  by (auto simp: is_digit_def digit_val_def code_unit_def is_space_def Let_def split: if_splits)


lemma params_get_amount:
  assumes "\<forall>c\<in>set v. plain c"
  shows "params_get (''amount='' @ v) ''amount'' = Some v"
proof -
  have v: "form_decode v = v" by (rule form_decode_plain, intro ballI conjI; drule bspec [OF assms]; erule plain_facts)
  have a: "form_decode ''amount'' = ''amount''" by (rule form_decode_plain) (simp add: code_unit_def)
  have "CHR ''&'' \<notin> set v" using bspec [OF assms] plain_facts(4) by metis
  then have "CHR ''&'' \<notin> set (''amount='' @ v)" by simp
  then have "js_split (CHR ''&'') (''amount='' @ v) = [''amount='' @ v]"
    unfolding js_split_def by (subst js_split_acc_none) simp_all
  then show ?thesis using v a by (simp add: params_get_def startsWith_Cons)
qed

lemma js_slice_from_append: "js_slice_from (p @ r) (int (length p)) = r"
  by (simp add: js_slice_from_def js_index_def)

lemma parseBip21_link:
  assumes a: "\<forall>c\<in>set a. \<not> is_space c \<and> c \<noteq> CHR ''?''" and v: "\<forall>c\<in>set v. plain c" "v \<noteq> []"
  shows "parseBip21 (''codexacoin:'' @ a @ ''?amount='' @ v) = (a, Some (parseFloat v))"
proof -
  let ?s = "''codexacoin:'' @ a @ ''?amount='' @ v"
  have t: "trim ?s = ?s"
  proof (rule trim_no_space)
    fix c assume "c \<in> set ?s"
    then consider "c \<in> set ''codexacoin:''" | "c \<in> set a" | "c \<in> set ''?amount=''" | "c \<in> set v"
      unfolding set_append by blast
    then show "\<not> is_space c"
    proof cases
      case 2
      then show ?thesis using a by blast
    next
      case 4
      then show ?thesis by (rule plain_facts(7) [OF bspec [OF v(1)]])
    qed (auto simp: is_space_def code_unit_def)
  qed
  have s: "startsWith (toLowerCase ?s) ''codexacoin:''"
    by (simp add: startsWith_Cons toLowerCase_def lower_char_def code_unit_def)
  have d: "js_slice_from ?s (int (length ''codexacoin:'')) = a @ CHR ''?'' # (''amount='' @ v)"
    using js_slice_from_append [of "''codexacoin:''" "a @ CHR ''?'' # (''amount='' @ v)"] by simp
  have "CHR ''?'' \<notin> set v" using bspec [OF v(1)] plain_facts(6) by metis
  then have q: "CHR ''?'' \<notin> set (''amount='' @ v)" by simp
  have "CHR ''?'' \<notin> set a" using a by blast
  then have "js_split (CHR ''?'') (a @ CHR ''?'' # (''amount='' @ v)) = [a, ''amount='' @ v]"
    unfolding js_split_def js_split_acc_first [OF \<open>CHR ''?'' \<notin> set a\<close>] js_split_acc_none [OF q] by simp
  then show ?thesis
    unfolding parseBip21_def Let_def t d using s params_get_amount [OF v(1)] v(2) by simp
qed

lemma payment_link:
  assumes t: "digits ip" "digits fp" "ip \<noteq> []" "length fp \<le> 8"
    and n: "1 \<le> satoshis_of ip fp" "satoshis_of ip fp < 2 ^ 51"
    and a: "\<forall>c\<in>set a. \<not> is_space c \<and> c \<noteq> CHR ''?''"
  shows "\<exists>x. parseBip21 (receive_uri a (ip @ ''.'' @ fp)) = (a, Some x) \<and> to_satoshis x = Inr (int (satoshis_of ip fp))"
proof -
  let ?n = "int (satoshis_of ip fp)"
  define x where "x = fl (of_int ?n / 10 ^ 8)"
  have n': "1 \<le> ?n" "?n < 2 ^ 51" using n by simp_all
  note f = amount_shortest [OF n', folded x_def]
  have "x \<le> 2 ^ 60" using f(2) by (rule order_trans) simp
  then obtain k m e where p: "num_to_string x = place_point k m e" "e \<le> decimal_exponent x + 1"
    "length (dec m) = k" "0 < k" "parseFloat (num_to_string x) = Fin x"
    using num_to_string_parse f(1,4) by metis
  have "e \<le> 21" using p(2) f(3) by linarith
  then have v: "\<forall>c\<in>set (num_to_string x). plain c"
    unfolding p(1) by (intro ballI) (erule (1) place_point_chars)
  have v': "num_to_string x \<noteq> []" using place_point_hd [OF p(3,4), of e] by (auto simp: p(1))
  have d: "to_double (of_int ?n / 10 ^ 8) = Fin x"
    using to_double_Fin [of "of_int ?n / 10 ^ 8", folded x_def] f(1) \<open>x \<le> 2 ^ 60\<close> by simp
  then have x: "parseFloat (ip @ ''.'' @ fp) = Fin x" using parseFloat_decimal [OF t] by simp
  have "trim (ip @ ''.'' @ fp) = ip @ ''.'' @ fp"
  proof (rule trim_no_space)
    fix c assume "c \<in> set (ip @ ''.'' @ fp)"
    then have "is_digit 10 c \<or> c = CHR ''.''" using t(1,2) by (auto simp: list_all_iff)
    then have "plain c" by (auto simp: is_digit_def digit_val_def code_unit_def)
    then show "\<not> is_space c" by (rule plain_facts(7))
  qed
  then have "receive_uri a (ip @ ''.'' @ fp) = ''codexacoin:'' @ a @ ''?amount='' @ num_to_string x"
    using x f(1) by (simp add: receive_uri_def num_text_def gt_zero_def)
  then show ?thesis
    using parseBip21_link [OF a v v'] p(5) to_satoshis_exact [of ?n] n' d by simp
qed

section \<open>Properties\<close>

text \<open>
  C33: Text put through \<open>escapeHtml\<close> is shown by an HTML parser as the original text, and contains
  no character that could open a tag or end a quoted attribute.
\<close>

theorem escapeHtml_safe:
  "unescape (escapeHtml s) = s \<and> set (escapeHtml s) \<inter> {CHR ''<'', CHR ''>'', CHR 0x22, CHR 0x27} = {}"
  using unescape_escapeHtml escapeHtml_chars by blast

text \<open>
  C34: A payment link made by the Receive screen keeps the request. For an address without spaces or
  question marks and an amount typed with at most eight decimals that denotes at least one and
  fewer than \<open>2^51\<close> satoshis (about 22.5 million coins), \<open>parseBip21\<close> reads the link back as that
  address and a Number that the send form turns into exactly the requested satoshis, although the
  amount went through the text of a double.
\<close>

theorem payment_link_roundtrip:
  assumes "digits ip" and "digits fp" and "ip \<noteq> []" and "length fp \<le> 8"
    and "1 \<le> satoshis_of ip fp" and "satoshis_of ip fp < 2 ^ 51"
    and "\<forall>c\<in>set address. \<not> is_space c \<and> c \<noteq> CHR ''?''"
  shows "\<exists>x. parseBip21 (receive_uri address (ip @ ''.'' @ fp)) = (address, Some x)
    \<and> to_satoshis x = Inr (int (satoshis_of ip fp))"
  using assms by (rule payment_link)

theorem payment_link_roundtrip_witness:
  "\<exists>x. parseBip21 (receive_uri ''CT8kSzJ'' ''0.29'') = (''CT8kSzJ'', Some x) \<and> to_satoshis x = Inr 29000000"
proof -
  have "digits ''0''" "digits ''29''" by (simp_all add: is_digit_def digit_val_def code_unit_def)
  moreover have "satoshis_of ''0'' ''29'' = 29000000"
    by (simp add: satoshis_of_def dec_num_def digit_val_def code_unit_def from_digits_def)
  ultimately show ?thesis
    using payment_link_roundtrip [of "''0''" "''29''" "''CT8kSzJ''"] by (simp add: is_space_def code_unit_def)
qed

end
