(* ===== verification/Wallet.thy ===== *)
theory Wallet
  imports Price PageText
begin

text \<open>
  The wallet part of web-wallet/app.js: the initial state, the gateway of the current network, the
  address indices and their stored form, the derivation of keys and addresses, the collection of
  unspent outputs, and the Home screen. The lemmas give the invariant that every key and address
  in memory is the one derived from the phrase in memory for the current network, and that every
  action of this theory keeps it.
\<close>

section \<open>Definitions\<close>

subsection \<open>The initial state\<close>

text \<open>\<open>GATEWAY_URLS\<close>, read once when the page loads.\<close>

definition GATEWAY_URLS :: "store \<Rightarrow> string \<Rightarrow> string" where
  "GATEWAY_URLS l net =
     (if net = ''mainnet'' \<or> net = ''testnet'' then (case ls_gateway_url l net of None \<Rightarrow> [] | Some u \<Rightarrow> u)
      else ''undefined'')"

text \<open>The page as index.html has it.\<close>

definition hidden_ids :: "string list" where
  "hidden_ids = [''new-tx-banner'', ''lock-overlay'', ''restore-card'', ''new-mnemonic-card'', ''mnemonic-quiz-card'',
     ''qr-scan-overlay'', ''tx-detail-overlay'', ''btn-tx-detail-bump-fee'', ''staking-status-card'', ''push-card'',
     ''staking-actions-card'', ''referral-card'', ''ms-create-result'', ''ms-qr-overlay'', ''my-xpub-output'',
     ''lock-is-set'', ''msg-sign-result'', ''tabbar'']"

definition initial_page :: page where
  "initial_page = \<lparr>ui_screen = Some ''onboarding'', ui_tab = None, ui_rows = [],
     ui_text = (\<lambda>_. [])(''stat-referral-code'' := ''-'', ''btn-referral-copy'' := ''Copy''),
     ui_field = (\<lambda>_. [])(''ms-m'' := ''2'', ''watch-xpub-count'' := ''5'', ''stake-id-type'' := ''nic''),
     ui_display = (\<lambda>i. if i \<in> set hidden_ids then ''none'' else []), ui_html = (\<lambda>_. []), ui_disabled = (\<lambda>i. i = ''btn-mnemonic-continue''),
     ui_active = (\<lambda>_. False), ui_qr = (\<lambda>_. []), ui_quiz = [], ui_book = [], ui_watch = [], ui_txRows = [],
     ui_selectable = [], ui_bump = None, ui_theme = None, ui_options = []\<rparr>"

definition initial_state :: "store \<Rightarrow> request list \<Rightarrow> effect list \<Rightarrow> app" where
  "initial_state l rs es = \<lparr>
     st_network = (case ls_network l of None \<Rightarrow> ''mainnet'' | Some n \<Rightarrow> if n = [] then ''mainnet'' else n),
     st_mnemonic = None, st_addressIndices = [], st_activeIndex = 0, st_keys = Map.empty, st_addresses = Map.empty,
     st_gateway = [],
     st_stakeToken = (case ss_stakeToken l of None \<Rightarrow> None | Some t \<Rightarrow> if t = [] then None else Some t),
     st_qrScanHandle = None, st_sendFeeMinRate = None, st_sendFeeRateOverride = None, st_pendingMnemonic = None,
     st_activeSendRecipientId = None, st_lastHistory = None, st_seenTxids = None, v_sendRecipientIdCounter = 0,
     v_txPolling = False, v_sendScreenPrice = None, v_copyTimers = [], page = initial_page, ls = l, gatewayUrls = GATEWAY_URLS l,
     requests = rs, effects = es\<rparr>"

definition refreshGateway :: "unit act" where
  "refreshGateway =
     bind (modify (\<lambda>s. s\<lparr>st_gateway := gatewayUrls s (st_network s)\<rparr>)) (\<lambda>_.
     bind (gets st_network) (\<lambda>n. setText ''network-badge'' n))"

subsection \<open>Addresses\<close>

definition loadAddressIndices :: "app \<Rightarrow> nat list" where
  "loadAddressIndices s =
     (case ls_indices (ls s) (st_network s) of None \<Rightarrow> [0] | Some l \<Rightarrow> if l = [] then [0] else l)"

definition save_indices :: "app \<Rightarrow> app" where
  "save_indices s = s\<lparr>ls := (ls s)\<lparr>ls_indices := (ls_indices (ls s))(st_network s := Some (st_addressIndices s))\<rparr>\<rparr>"

definition saveAddressIndices :: "unit act" where
  "saveAddressIndices = modify save_indices"

text \<open>\<open>cac.NETWORKS[state.network]\<close>, whose properties the callers read.\<close>

definition current_network :: "network act" where
  "current_network = bind (gets st_network) (\<lambda>n.
     case NETWORKS n of None \<Rightarrow> lift (Inl (TypeErr ''Cannot read properties of undefined'')) | Some net \<Rightarrow> ret net)"

definition ensureKey :: "env \<Rightarrow> nat \<Rightarrow> keypair act" where
  "ensureKey E index =
     bind (gets (\<lambda>s. st_keys s index)) (\<lambda>known.
       case known of
         Some key \<Rightarrow> ret key
       | None \<Rightarrow>
           bind current_network (\<lambda>net.
           bind (gets st_mnemonic) (\<lambda>phrase.
             case phrase of
               None \<Rightarrow> lift (Inl (TypeErr ''invalid mnemonic type: object''))
             | Some m \<Rightarrow>
                 let key = deriveKey (e_crypto E) m net index [] False
                 in bind (modify (\<lambda>s. s\<lparr>st_keys := (st_keys s)(index \<mapsto> key)\<rparr>)) (\<lambda>_.
                    bind (lift (p2pkhAddress (e_crypto E) (hash160 (e_crypto E) (publicKey key)) net)) (\<lambda>a.
                    bind (modify (\<lambda>s. s\<lparr>st_addresses := (st_addresses s)(index \<mapsto> a)\<rparr>)) (\<lambda>_.
                    ret key))))))"

definition deriveAllKnownAddresses :: "env \<Rightarrow> unit act" where
  "deriveAllKnownAddresses E = seqs
     [modify (\<lambda>s. s\<lparr>st_addressIndices := loadAddressIndices s\<rparr>),
      bind (gets st_addressIndices) (\<lambda>is. for_each is (\<lambda>idx. bind (ensureKey E idx) (\<lambda>_. ret ()))),
      modify (\<lambda>s. if st_activeIndex s \<in> set (st_addressIndices s) then s
                  else s\<lparr>st_activeIndex := last (st_addressIndices s)\<rparr>)]"

definition activeAddress :: "app \<Rightarrow> string option" where
  "activeAddress s = st_addresses s (st_activeIndex s)"

text \<open>\<open>undefined\<close> in a template string, and as the text of an element.\<close>

definition in_template :: "string option \<Rightarrow> string" where
  "in_template a = (case a of None \<Rightarrow> ''undefined'' | Some t \<Rightarrow> t)"

definition as_text :: "string option \<Rightarrow> string" where
  "as_text a = (case a of None \<Rightarrow> [] | Some t \<Rightarrow> t)"

definition address_of :: "nat \<Rightarrow> string act" where
  "address_of idx = gets (\<lambda>s. in_template (st_addresses s idx))"

definition gatherAllUtxos :: "env \<Rightarrow> (json \<times> nat) list act" where
  "gatherAllUtxos E =
     bind (gets st_addressIndices) (\<lambda>is.
     bind (map_act (\<lambda>idx. bind (address_of idx) (\<lambda>a.
             bind (call E (\<lambda>b. gw_utxos b a)) (\<lambda>resp.
             bind (lift (bindE (jget resp ''utxos'') jlist)) (\<lambda>us. ret (map (\<lambda>u. (u, idx)) us))))) is) (\<lambda>all.
     ret (concat all)))"

text \<open>A value in a template string.\<close>

fun jtext :: "json \<Rightarrow> string" where
  "jtext JUndef = ''undefined''"
| "jtext JNull = ''null''"
| "jtext (JBool b) = (if b then ''true'' else ''false'')"
| "jtext (JNum x) = num_to_string x"
| "jtext (JStr t) = t"
| "jtext (JArr js) = js_join '','' (map (\<lambda>j. if jnullish j then [] else jtext j) js)"
| "jtext (JObj _) = ''[object Object]''"

subsection \<open>Home\<close>

text \<open>\<open>BigInt(balance.confirmed) + BigInt(balance.unconfirmed)\<close>\<close>

definition balance_total :: "json \<Rightarrow> int res" where
  "balance_total balance =
     bindE (bindE (jget balance ''confirmed'') jBigInt) (\<lambda>c.
     bindE (bindE (jget balance ''unconfirmed'') jBigInt) (\<lambda>u. Inr (c + u)))"

definition source_label :: "price \<Rightarrow> string" where
  "source_label p = (if pr_source p = ''bnb'' then ''PancakeSwap (BNB Chain)'' else ''Stellar DEX'')"

definition loadFiatValue :: "env \<Rightarrow> int \<Rightarrow> unit act" where
  "loadFiatValue E totalSatoshis = seqs
     [setText ''home-fiat-value'' [],
      bind (fetchCacUsdPrice E) (\<lambda>price.
        case price of
          None \<Rightarrow> ret ()
        | Some p \<Rightarrow>
            let usdValue = js_mul (string_to_number (formatCac totalSatoshis)) (pr_usdPerCac p)
            in setText ''home-fiat-value'' (''~$'' @ toLocaleString usdValue @ '' (estimated -- based on thin ''
                 @ source_label p @ '' liquidity, not a reliable market price)''))]"

fun sum_balances :: "env \<Rightarrow> nat list \<Rightarrow> int \<Rightarrow> int act" where
  "sum_balances E [] acc = ret acc"
| "sum_balances E (idx # is) acc =
     bind (address_of idx) (\<lambda>a.
     bind (call E (\<lambda>b. gw_balance b a)) (\<lambda>balance.
     bind (lift (balance_total balance)) (\<lambda>t. sum_balances E is (acc + t))))"

definition loadHome :: "env \<Rightarrow> unit act" where
  "loadHome E = seqs
     [setText ''home-error'' [],
      bind (gets activeAddress) (\<lambda>a. setText ''home-address'' (as_text a)),
      bind (gets st_addressIndices) (\<lambda>is. setText ''home-address-count''
        (if 1 < length is then ''Balance combined across '' @ dec (length is) @ '' addresses'' else [])),
      try_catch
        (bind (gets st_addressIndices) (\<lambda>is.
         bind (sum_balances E is 0) (\<lambda>total.
         seqs [setText ''home-balance'' (formatCac total @ '' CAC''), detach (loadFiatValue E total)])))
        (\<lambda>e. setText ''home-error''
           (case e of GatewayErr c m \<Rightarrow> m | _ \<Rightarrow> ''Could not reach the network: '' @ error_string e))]"

section \<open>Actions that leave the wallet alone\<close>

lemma core_refresh_free [keeps_rules]:
  "keeps (core_is c) current_network" "keeps (core_is c) (address_of i)" "keeps (core_is c) (gatherAllUtxos E)"
  "keeps (core_is c) (loadFiatValue E t)"
  unfolding current_network_def address_of_def gatherAllUtxos_def loadFiatValue_def
  by (intro keeps_rules)+

lemma core_sum_balances [keeps_rules]: "keeps (core_is c) (sum_balances E is t)"
  by (induction "is" arbitrary: t) (simp, intro keeps_rules, simp, intro keeps_rules)

lemma core_loadHome [keeps_rules]: "keeps (core_is c) (loadHome E)"
  unfolding loadHome_def by (intro keeps_rules)

context core_predicate
begin

lemmas wallet_frames [keeps_rules] =
  core_price [THEN keeps_frame] core_refresh_free [THEN keeps_frame] core_sum_balances [THEN keeps_frame]
  core_loadHome [THEN keeps_frame]

end

text \<open>Predicates that deriving a key keeps as well.\<close>

locale wallet_predicate = core_predicate +
  fixes E :: env
  assumes keeps_ensureKey [keeps_rules]: "keeps I (ensureKey E i)"

section \<open>Keys and addresses\<close>

text \<open>Every key and address in memory is derived from the phrase in memory on the current network.\<close>

definition derived :: "env \<Rightarrow> app \<Rightarrow> bool" where
  "derived E s \<longleftrightarrow>
     (\<forall>i k. st_keys s i = Some k \<longrightarrow>
        (\<exists>m net. st_mnemonic s = Some m \<and> NETWORKS (st_network s) = Some net
           \<and> k = deriveKey (e_crypto E) m net i [] False)) \<and>
     (\<forall>i a. st_addresses s i = Some a \<longrightarrow>
        (\<exists>k net. st_keys s i = Some k \<and> NETWORKS (st_network s) = Some net
           \<and> p2pkhAddress (e_crypto E) (hash160 (e_crypto E) (publicKey k)) net = Inr a))"

lemma current_network_apply [act_simps]:
  "current_network s = (case NETWORKS (st_network s) of
     None \<Rightarrow> (Inl (TypeErr ''Cannot read properties of undefined''), s) | Some net \<Rightarrow> (Inr net, s))"
  by (simp add: current_network_def act_simps split: option.split)

lemma ensureKey_apply:
  "ensureKey E i s =
     (case st_keys s i of
        Some k \<Rightarrow> (Inr k, s)
      | None \<Rightarrow>
          (case NETWORKS (st_network s) of
             None \<Rightarrow> (Inl (TypeErr ''Cannot read properties of undefined''), s)
           | Some net \<Rightarrow>
               (case st_mnemonic s of
                  None \<Rightarrow> (Inl (TypeErr ''invalid mnemonic type: object''), s)
                | Some m \<Rightarrow>
                    let k = deriveKey (e_crypto E) m net i [] False; s1 = s\<lparr>st_keys := (st_keys s)(i \<mapsto> k)\<rparr>
                    in (case p2pkhAddress (e_crypto E) (hash160 (e_crypto E) (publicKey k)) net of
                          Inl e \<Rightarrow> (Inl e, s1)
                        | Inr a \<Rightarrow> (Inr k, s1\<lparr>st_addresses := (st_addresses s)(i \<mapsto> a)\<rparr>)))))"
  by (simp add: ensureKey_def act_simps Let_def split: option.split sum.split)

lemma derived_ensureKey: "keeps (derived E) (ensureKey E i)"
  unfolding keeps_def ensureKey_apply
  by (auto simp: derived_def Let_def split: option.splits sum.splits) (metis option.distinct(1))

interpretation derived: wallet_predicate "derived E" E for E
  by unfold_locales (simp add: derived_def core_def, rule derived_ensureKey)

text \<open>
  The outcome of deriving a list of indices: the keys and addresses of the list are added. The
  only fact used of the libraries is the length of a RIPEMD-160 digest.
\<close>

definition hashes_ok :: "env \<Rightarrow> bool" where
  "hashes_ok E \<longleftrightarrow> (\<forall>m. length (ripemd160 (e_crypto E) m) = 20)"

definition key_at :: "env \<Rightarrow> string \<Rightarrow> network \<Rightarrow> nat \<Rightarrow> keypair" where
  "key_at E m net i = deriveKey (e_crypto E) m net i [] False"

definition address_at :: "env \<Rightarrow> string \<Rightarrow> network \<Rightarrow> nat \<Rightarrow> string" where
  "address_at E m net i =
     base58checkEncode (sha256 (e_crypto E)) (p2pkhVersion net # hash160 (e_crypto E) (publicKey (key_at E m net i)))"

lemma p2pkh_key_at:
  "hashes_ok E \<Longrightarrow>
     p2pkhAddress (e_crypto E) (hash160 (e_crypto E) (publicKey (key_at E m net i))) net = Inr (address_at E m net i)"
  by (simp add: p2pkhAddress_def hash160_def hashes_ok_def address_at_def)

text \<open>A wallet whose keys and addresses belong to phrase \<open>m\<close> on network \<open>net\<close>, for the same indices.\<close>

definition wallet_of :: "env \<Rightarrow> string \<Rightarrow> network \<Rightarrow> app \<Rightarrow> bool" where
  "wallet_of E m net s \<longleftrightarrow>
     st_mnemonic s = Some m \<and> NETWORKS (st_network s) = Some net
     \<and> st_keys s = (\<lambda>i. if i \<in> dom (st_keys s) then Some (key_at E m net i) else None)
     \<and> st_addresses s = (\<lambda>i. if i \<in> dom (st_keys s) then Some (address_at E m net i) else None)"

definition derive_list :: "env \<Rightarrow> string \<Rightarrow> network \<Rightarrow> nat set \<Rightarrow> app \<Rightarrow> app" where
  "derive_list E m net N s =
     s\<lparr>st_keys := (\<lambda>i. if i \<in> dom (st_keys s) \<union> N then Some (key_at E m net i) else None),
       st_addresses := (\<lambda>i. if i \<in> dom (st_keys s) \<union> N then Some (address_at E m net i) else None)\<rparr>"

lemma wallet_keys:
  assumes "wallet_of E m net s"
  shows "st_keys s i = (if i \<in> dom (st_keys s) then Some (key_at E m net i) else None)"
    "st_addresses s i = (if i \<in> dom (st_keys s) then Some (address_at E m net i) else None)"
  using assms unfolding wallet_of_def by metis+

lemma derive_list_empty: "wallet_of E m net s \<Longrightarrow> derive_list E m net {} s = s"
  unfolding derive_list_def wallet_of_def by simp

lemma derive_list_wallet: "wallet_of E m net s \<Longrightarrow> wallet_of E m net (derive_list E m net N s)"
  by (auto simp: derive_list_def wallet_of_def dom_def fun_eq_iff)

lemma derive_list_comp: "derive_list E m net N (derive_list E m net M s) = derive_list E m net (M \<union> N) s"
  by (auto simp: derive_list_def dom_def intro!: ext arg_cong2 [where f = "\<lambda>k a. s\<lparr>st_keys := k, st_addresses := a\<rparr>"])

lemma ensureKey_wallet:
  assumes "hashes_ok E" "wallet_of E m net s"
  shows "ensureKey E i s = (Inr (key_at E m net i), derive_list E m net {i} s)"
proof (cases "i \<in> dom (st_keys s)")
  case True
  then have "dom (st_keys s) \<union> {i} = dom (st_keys s)" by blast
  then have "derive_list E m net {i} s = s"
    using derive_list_empty [OF assms(2)] by (simp add: derive_list_def)
  then show ?thesis using wallet_keys(1) [OF assms(2), of i] True by (simp add: ensureKey_apply)
next
  case False
  then have n: "st_keys s i = None" by blast
  have k: "(st_keys s)(i \<mapsto> key_at E m net i) = (\<lambda>j. if j \<in> dom (st_keys s) \<union> {i} then Some (key_at E m net j) else None)"
    "(st_addresses s)(i \<mapsto> address_at E m net i) = (\<lambda>j. if j \<in> dom (st_keys s) \<union> {i} then Some (address_at E m net j) else None)"
    using wallet_keys [OF assms(2)] by (auto simp: fun_eq_iff)
  have w: "NETWORKS (st_network s) = Some net" "st_mnemonic s = Some m" using assms(2) by (simp_all add: wallet_of_def)
  show ?thesis
    using p2pkh_key_at [OF assms(1), of m net i]
    by (simp add: ensureKey_apply n w Let_def derive_list_def key_at_def [symmetric] k)
qed

lemma for_each_ensureKey:
  assumes "hashes_ok E"
  shows "wallet_of E m net s \<Longrightarrow>
    for_each is (\<lambda>idx. bind (ensureKey E idx) (\<lambda>_. ret ())) s = (Inr (), derive_list E m net (set is) s)"
proof (induction "is" arbitrary: s)
  case Nil
  then show ?case by (simp add: act_simps derive_list_empty)
next
  case (Cons i "is")
  have "wallet_of E m net (derive_list E m net {i} s)" using Cons.prems by (rule derive_list_wallet)
  then show ?case
    using Cons.IH ensureKey_wallet [OF assms Cons.prems, of i] by (simp add: act_simps derive_list_comp)
qed

lemma derive_all:
  assumes "hashes_ok E" "wallet_of E m net s"
  defines "is \<equiv> loadAddressIndices s"
  shows "deriveAllKnownAddresses E s = (Inr (), (derive_list E m net (set is) s)\<lparr>st_addressIndices := is,
      st_activeIndex := (if st_activeIndex s \<in> set is then st_activeIndex s else last is)\<rparr>)"
proof -
  have w: "wallet_of E m net (s\<lparr>st_addressIndices := is\<rparr>)" using assms(2) by (simp add: wallet_of_def)
  have c: "derive_list E m net N (s\<lparr>st_addressIndices := is\<rparr>) = (derive_list E m net N s)\<lparr>st_addressIndices := is\<rparr>" for N
    by (simp add: derive_list_def)
  have a: "st_activeIndex (derive_list E m net N s) = st_activeIndex s" for N by (simp add: derive_list_def)
  show ?thesis
    unfolding deriveAllKnownAddresses_def
    using for_each_ensureKey [OF assms(1) w, of "is"]
    by (simp add: act_simps is_def [symmetric] c a)
qed

end
