(* ===== verification/Demo.thy ===== *)
theory Demo
  imports Wallet
begin

text \<open>
  A concrete wallet for evaluation: one key on the test network, one unspent output of 5000
  satoshis, a fee rate of 1000 per kilobyte, two transactions in the history, and a gateway that
  accepts every broadcast.
\<close>

definition demo_answer :: json where
  "demo_answer = JObj [(''utxos'', JArr [JObj [(''txid'', JStr ''00''), (''vout'', JNum 1), (''value'', JNum 5000)]]),
     (''fee_rate_sat_per_vbyte'', JNum 1000), (''txid'', JStr ''beef''),
     (''transactions'', JArr [JObj [(''txid'', JStr ''t1''), (''height'', JNum 5)], JObj [(''txid'', JStr ''t2'')],
        JObj [(''txid'', JStr ''t1''), (''height'', JNum 6)]])]"

definition demo_webcrypto :: webcrypto where
  "demo_webcrypto = \<lparr>derive_key = (\<lambda>p s n. p @ s), aes_encrypt = (\<lambda>k iv m. k @ iv @ m),
     aes_decrypt = (\<lambda>k iv c. if take (length (k @ iv)) c = k @ iv then Inr (drop (length (k @ iv)) c)
        else Inl (JsError ''OperationError''))\<rparr>"

definition demo_env :: env where
  "demo_env = \<lparr>e_crypto = demo_crypto, e_webcrypto = demo_webcrypto,
     e_fetch = (\<lambda>log req. Inr \<lparr>resp_ok = True, resp_status = 200, resp_json = Inr demo_answer\<rparr>),
     e_qrError = (\<lambda>_. None), e_localDate = (\<lambda>_. []), e_pushSupported = True\<rparr>"

definition demo_store :: store where
  "demo_store = \<lparr>ls_network = Some ''testnet'', ls_mnemonic = Some ''abc'', ls_encrypted = None, ls_indices = (\<lambda>_. None),
     ls_book = None, ls_watch = None, ls_sent = None, ls_theme = None, ls_gateway_url = (\<lambda>_. None), ss_stakeToken = None\<rparr>"

definition demo_key :: keypair where
  "demo_key = \<lparr>privateKey = [1], publicKey = replicate 33 2\<rparr>"

definition demo_app :: app where
  "demo_app = (initial_state demo_store [] [])
     \<lparr>st_mnemonic := Some ''abc'', st_addressIndices := [0], st_keys := [0 \<mapsto> demo_key], st_addresses := [0 \<mapsto> ''m'']\<rparr>"

end
