(* ===== verification/Send.thy ===== *)
theory Send
  imports Demo
begin

text \<open>
  The Send screen of web-wallet/app.js: the network fee control, the dollar estimate, the rows of
  recipients, the confirm handler with its coin selection, the log of sent transactions and the
  fee bump. The properties: the fee control clamps to one to fifty times the recommended rate; a
  form with a bad row sends nothing; a broadcast transaction spends exactly what it pays plus the
  fee, with the shortest sufficient prefix of the unspent outputs; a fee bump raises the fee by
  half at least and replaces the logged transaction.
\<close>

section \<open>Definitions\<close>

subsection \<open>Network fee\<close>

text \<open>\<open>(rate * vsize + 999n) / 1000n\<close>\<close>

definition fee_for :: "int \<Rightarrow> int \<Rightarrow> int" where
  "fee_for rate vsize = (rate * vsize + 999) sdiv 1000"

definition effectiveSendFeeRate :: "app \<Rightarrow> int" where
  "effectiveSendFeeRate s =
     (case st_sendFeeRateOverride s of Some r \<Rightarrow> r
      | None \<Rightarrow> (case st_sendFeeMinRate s of Some r \<Rightarrow> r | None \<Rightarrow> 0))"

definition updateSendFeeEstimate :: "unit act" where
  "updateSendFeeEstimate =
     bind (gets st_sendFeeMinRate) (\<lambda>mn.
       case mn of
         None \<Rightarrow> setText ''send-fee-estimate'' []
       | Some minRate \<Rightarrow>
           bind (gets effectiveSendFeeRate) (\<lambda>rate.
           bind (gets (\<lambda>s. length (ui_rows (page s)))) (\<lambda>n.
             let rowCount = (if n = 0 then 1 else n); outputCount = rowCount + 1;
                 roughVsize = 10 + 148 + int outputCount * 34;
                 roughFee = fee_for rate roughVsize
             in setText ''send-fee-estimate'' (''~'' @ formatCac roughFee
                  @ '' CAC for a single-input send (scales up with more inputs/recipients) -- recommended: ''
                  @ dec_int minRate @ '' sat/vB''))))"

text \<open>\<open>BigInt(feeResp.fee_rate_sat_per_vbyte)\<close> of a fresh estimate\<close>

definition fetch_fee_rate :: "env \<Rightarrow> int act" where
  "fetch_fee_rate E =
     bind (call E (\<lambda>b. gw_feeEstimate b 6)) (\<lambda>feeResp. lift (bindE (jget feeResp ''fee_rate_sat_per_vbyte'') jBigInt))"

definition loadSendFeeRate :: "env \<Rightarrow> unit act" where
  "loadSendFeeRate E = seqs
     [try_catch
        (bind (fetch_fee_rate E) (\<lambda>rate. seqs
           [modify (\<lambda>s. s\<lparr>st_sendFeeMinRate := Some rate, st_sendFeeRateOverride := None\<rparr>),
            setField ''send-fee-rate'' (dec_int rate)]))
        (\<lambda>e. modify (\<lambda>s. s\<lparr>st_sendFeeMinRate := None\<rparr>)),
      updateSendFeeEstimate]"

definition setSendFeeRate :: "int \<Rightarrow> unit act" where
  "setSendFeeRate rate =
     bind (gets st_sendFeeMinRate) (\<lambda>mn.
       case mn of
         None \<Rightarrow> ret ()
       | Some minRate \<Rightarrow>
           let ceiling = minRate * 50;
               clamped = (if rate < minRate then minRate else if ceiling < rate then ceiling else rate)
           in seqs [modify (\<lambda>s. s\<lparr>st_sendFeeRateOverride := (if clamped = minRate then None else Some clamped)\<rparr>),
                    setField ''send-fee-rate'' (dec_int clamped),
                    updateSendFeeEstimate])"

definition feeDecrease :: "unit act" where
  "feeDecrease = bind (gets effectiveSendFeeRate) (\<lambda>r. setSendFeeRate (r - 10))"

definition feeIncrease :: "unit act" where
  "feeIncrease = bind (gets effectiveSendFeeRate) (\<lambda>r. setSendFeeRate (r + 10))"

definition feeReset :: "unit act" where
  "feeReset = bind (gets st_sendFeeMinRate) (\<lambda>mn. setSendFeeRate (case mn of None \<Rightarrow> 0 | Some r \<Rightarrow> r))"

definition feeRateChange :: "unit act" where
  "feeRateChange =
     bind (field ''send-fee-rate'') (\<lambda>v.
       case map_option (\<lambda>n. to_double (of_int n)) (parseInt 10 v) of
         Some (Fin x) \<Rightarrow> if x \<le> 0 then feeReset else setSendFeeRate \<lfloor>x\<rfloor>
       | _ \<Rightarrow> feeReset)"

subsection \<open>The dollar estimate\<close>

definition updateSendAmountFiat :: "unit act" where
  "updateSendAmountFiat =
     bind (gets (\<lambda>s. ui_rows (page s))) (\<lambda>rows.
     bind (gets v_sendScreenPrice) (\<lambda>price.
       let amounts = filter gt_zero (map (\<lambda>r. parseFloat (row_amount r)) rows)
       in case price of
            None \<Rightarrow> setText ''send-amount-fiat'' []
          | Some p \<Rightarrow>
              if amounts = [] then setText ''send-amount-fiat'' []
              else let tot = foldl js_add (Fin 0) amounts; usdValue = js_mul tot (pr_usdPerCac p);
                       prefix = (if 1 < length rows then ''Total: '' else [])
                   in seqs [setText ''send-amount-fiat'' (prefix @ ''~$'' @ toLocaleString usdValue
                              @ '' (estimated -- thin '' @ source_label p @ '' liquidity, not a reliable market price)''),
                            updateSendFeeEstimate]))"

definition loadSendAmountFiat :: "env \<Rightarrow> unit act" where
  "loadSendAmountFiat E =
     bind (fetchCacUsdPrice E) (\<lambda>p. seqs [modify (\<lambda>s. s\<lparr>v_sendScreenPrice := p\<rparr>), updateSendAmountFiat])"

subsection \<open>Recipients\<close>

definition modify_rows :: "(recipient_row list \<Rightarrow> recipient_row list) \<Rightarrow> unit act" where
  "modify_rows f = modify_page (\<lambda>p. p\<lparr>ui_rows := f (ui_rows p)\<rparr>)"

definition updateRecipientRemoveButtons :: "unit act" where
  "updateRecipientRemoveButtons =
     modify_rows (\<lambda>rows. map (\<lambda>r. r\<lparr>row_removeDisplay := (if 1 < length rows then [] else ''none'')\<rparr>) rows)"

definition addRecipientRow :: "unit act" where
  "addRecipientRow =
     bind (gets v_sendRecipientIdCounter) (\<lambda>i. seqs
       [modify (\<lambda>s. s\<lparr>v_sendRecipientIdCounter := i + 1\<rparr>),
        modify_rows (\<lambda>rows. rows @ [\<lparr>row_id = i, row_address = [], row_amount = [], row_removeDisplay = []\<rparr>]),
        modify (\<lambda>s. if st_activeSendRecipientId s = None then s\<lparr>st_activeSendRecipientId := Some i\<rparr> else s),
        updateRecipientRemoveButtons])"

definition resetSendRecipients :: "unit act" where
  "resetSendRecipients = seqs
     [modify_rows (\<lambda>_. []),
      modify (\<lambda>s. s\<lparr>v_sendRecipientIdCounter := 0, st_activeSendRecipientId := None\<rparr>),
      addRecipientRow]"

definition update_row :: "nat \<Rightarrow> (recipient_row \<Rightarrow> recipient_row) \<Rightarrow> unit act" where
  "update_row i f = modify_rows (map (\<lambda>r. if row_id r = i then f r else r))"

text \<open>A number input keeps a number as its text, and nothing else.\<close>

definition number_field :: "jsnum \<Rightarrow> string" where
  "number_field a = (case a of Fin x \<Rightarrow> num_to_string x | _ \<Rightarrow> [])"

definition set_recipient :: "nat \<Rightarrow> string \<Rightarrow> jsnum option \<Rightarrow> unit act" where
  "set_recipient i address amount = seqs
     [update_row i (\<lambda>r. r\<lparr>row_address := address\<rparr>),
      (case amount of None \<Rightarrow> ret () | Some a \<Rightarrow> update_row i (\<lambda>r. r\<lparr>row_amount := number_field a\<rparr>))]"

definition rowFocus :: "nat \<Rightarrow> unit act" where
  "rowFocus i = modify (\<lambda>s. s\<lparr>st_activeSendRecipientId := Some i\<rparr>)"

text \<open>The \<open>change\<close> listener of a row's address, with the value the user entered.\<close>

definition rowAddressChange :: "nat \<Rightarrow> string \<Rightarrow> unit act" where
  "rowAddressChange i v =
     (let (address, amount) = parseBip21 v
      in seqs [update_row i (\<lambda>r. r\<lparr>row_address := v\<rparr>),
               if address \<noteq> v then set_recipient i address amount else ret ()])"

definition rowAmountInput :: "nat \<Rightarrow> string \<Rightarrow> unit act" where
  "rowAmountInput i v = seqs [update_row i (\<lambda>r. r\<lparr>row_amount := v\<rparr>), updateSendAmountFiat]"

definition rowRemove :: "nat \<Rightarrow> unit act" where
  "rowRemove i = seqs
     [modify_rows (filter (\<lambda>r. row_id r \<noteq> i)), updateRecipientRemoveButtons, updateSendAmountFiat]"

text \<open>The callback of the scanner opened from a row.\<close>

definition rowScanned :: "nat \<Rightarrow> string \<Rightarrow> unit act" where
  "rowScanned i t = (let (address, amount) = parseBip21 t in set_recipient i address amount)"

subsection \<open>The log of sent transactions\<close>

definition loadSentTxLog :: "store \<Rightarrow> string \<rightharpoonup> sent_record" where
  "loadSentTxLog l = (case ls_sent l of None \<Rightarrow> Map.empty | Some m \<Rightarrow> m)"

definition saveSentTxLog :: "(string \<rightharpoonup> sent_record) \<Rightarrow> unit act" where
  "saveSentTxLog m = modify_ls (\<lambda>l. l\<lparr>ls_sent := Some m\<rparr>)"

definition recordSentTx :: "string \<Rightarrow> sent_record \<Rightarrow> unit act" where
  "recordSentTx txid r =
     bind (gets (\<lambda>s. loadSentTxLog (ls s))) (\<lambda>m. saveSentTxLog (m(txid \<mapsto> r)))"

subsection \<open>Sending\<close>

record recipient =
  rc_address :: string
  rc_amount :: int

text \<open>
  The loop over the rows: \<open>None\<close> is the early return with the message, an error the exception that
  \<open>BigInt\<close> throws on a number that is not finite.
\<close>

fun read_recipients :: "recipient_row list \<Rightarrow> recipient list option res" where
  "read_recipients [] = Inr (Some [])"
| "read_recipients (r # rs) =
     (let address = trim (row_address r); amountCac = parseFloat (row_amount r)
      in if address = [] \<or> \<not> truthy amountCac \<or> le_zero amountCac then Inr None
         else bindE (to_satoshis amountCac) (\<lambda>n.
              bindE (read_recipients rs) (\<lambda>rest.
                Inr (map_option ((#) \<lparr>rc_address = address, rc_amount = n\<rparr>) rest))))"

definition script_for :: "crypto \<Rightarrow> network \<Rightarrow> string \<Rightarrow> bytes res" where
  "script_for C net address =
     bindE (decodeAddress C address net) (\<lambda>(t, h). Inr
       (case t of P2pkh \<Rightarrow> p2pkhScriptPubKey h | P2sh \<Rightarrow> p2shScriptPubKey h | P2wpkh \<Rightarrow> p2wpkhScriptPubKey h))"

definition dest_output :: "crypto \<Rightarrow> network \<Rightarrow> recipient \<Rightarrow> tx_output res" where
  "dest_output C net r =
     bindE (script_for C net (rc_address r)) (\<lambda>sp. Inr \<lparr>scriptPubKey = sp, valueSatoshis = num_of_int (rc_amount r)\<rparr>)"

text \<open>
  The selection loop over the unspent outputs, for a fee that depends on the number of inputs:
  the chosen outputs with their values, and their sum.
\<close>

fun select_coins ::
    "(nat \<Rightarrow> int) \<Rightarrow> int \<Rightarrow> (json \<times> nat) list \<Rightarrow> (json \<times> nat \<times> int) list \<Rightarrow> int \<Rightarrow> ((json \<times> nat \<times> int) list \<times> int) res" where
  "select_coins fee amount [] chosen totalIn = Inr (chosen, totalIn)"
| "select_coins fee amount ((u, idx) # us) chosen totalIn =
     bindE (bindE (jget u ''value'') jBigInt) (\<lambda>v.
       let chosen' = chosen @ [(u, idx, v)]; totalIn' = totalIn + v
       in if amount + fee (length chosen') \<le> totalIn' then Inr (chosen', totalIn')
          else select_coins fee amount us chosen' totalIn')"

text \<open>\<open>10 + inputs * 148 + outputs * 34\<close>\<close>

definition send_vsize :: "nat \<Rightarrow> nat \<Rightarrow> int" where
  "send_vsize inputs outputCount = 10 + int inputs * 148 + int outputCount * 34"

definition outpoint :: "json \<Rightarrow> (string \<times> nat) res" where
  "outpoint u = bindE (bindE (jget u ''txid'') jstring) (\<lambda>t. bindE (bindE (jget u ''vout'') jnat) (\<lambda>n. Inr (t, n)))"

definition spend_input :: "crypto \<Rightarrow> (nat \<rightharpoonup> keypair) \<Rightarrow> json \<times> nat \<times> int \<Rightarrow> sign_input res" where
  "spend_input C keys c =
     (case c of (u, idx, v) \<Rightarrow>
       (case keys idx of
          None \<Rightarrow> Inl (TypeErr ''Cannot read properties of undefined (reading publicKey)'')
        | Some key \<Rightarrow> bindE (outpoint u) (\<lambda>(t, n). Inr
            \<lparr>si_txid = rev (hexToBytes t), si_vout = n, si_value = num_of_int v,
             si_pubkeyHash = hash160 C (publicKey key), si_privateKey = Some (privateKey key),
             si_publicKey = Some (publicKey key), si_sequence = None\<rparr>)))"

definition sent_input_of :: "json \<times> nat \<times> int \<Rightarrow> sent_input res" where
  "sent_input_of c =
     (case c of (u, idx, v) \<Rightarrow> bindE (outpoint u) (\<lambda>(t, n). Inr
        \<lparr>sin_txid = t, sin_vout = n, sin_value = num_of_int v, sin_derivationIndex = idx\<rparr>))"

definition sent_outputs :: "bool \<Rightarrow> nat \<Rightarrow> tx_output list \<Rightarrow> sent_output list" where
  "sent_outputs has_change active outs =
     map (\<lambda>(i, out). let isChange = (has_change \<and> i = length outs - 1)
                    in \<lparr>so_scriptPubKeyHex = bytesToHex (scriptPubKey out), so_value = valueSatoshis out,
                        so_isChange = isChange, so_changeIndex = (if isChange then Some active else None)\<rparr>)
       (zip [0..<length outs] outs)"

text \<open>The second half of the try block: building, broadcasting and recording.\<close>

definition send_chosen :: "env \<Rightarrow> tx_output list \<Rightarrow> int \<Rightarrow> int \<Rightarrow> (json \<times> nat \<times> int) list \<Rightarrow> string act" where
  "send_chosen E destOutputs feeSatoshis change chosen =
     (let C = e_crypto E in
      bind (gets st_activeIndex) (\<lambda>active.
      bind (ensureKey E active) (\<lambda>changeKey.
      let outputs = destOutputs @ (if 0 < change
            then [\<lparr>scriptPubKey = p2pkhScriptPubKey (hash160 C (publicKey changeKey)), valueSatoshis = num_of_int change\<rparr>]
            else []) in
      bind (gets st_keys) (\<lambda>keys.
      bind (lift (mapE (spend_input C keys) chosen)) (\<lambda>inputs.
      bind (lift (buildAndSignTransaction C inputs outputs None None 0)) (\<lambda>rawTx.
      bind (call E (\<lambda>b. gw_broadcast b (bytesToHex rawTx))) (\<lambda>result.
      bind (lift (jget result ''txid'')) (\<lambda>t.
      bind (setText ''send-success'' (''Broadcast: '' @ jtext t)) (\<lambda>_.
      bind (lift (mapE sent_input_of chosen)) (\<lambda>sentInputs.
      bind (recordSentTx (jtext t) \<lparr>sr_inputs = sentInputs, sr_outputs = sent_outputs (0 < change) active outputs,
              sr_fee = num_of_int feeSatoshis, sr_replacesTxid = None\<rparr>) (\<lambda>_.
      bind resetSendRecipients (\<lambda>_.
      bind updateSendAmountFiat (\<lambda>_.
      ret (jtext t))))))))))))))"

text \<open>
  The try block of the confirm handler. The result is the id of the broadcast transaction, or
  \<open>None\<close> after the early return for lack of funds.
\<close>

definition send_transaction :: "env \<Rightarrow> recipient list \<Rightarrow> string option act" where
  "send_transaction E recipients =
     (let C = e_crypto E in
      bind current_network (\<lambda>net.
      bind (lift (mapE (dest_output C net) recipients)) (\<lambda>destOutputs.
      let amountTotal = sum_list (map rc_amount recipients) in
      bind (gatherAllUtxos E) (\<lambda>allUtxos.
      bind (fetch_fee_rate E) (\<lambda>minRate.
      bind (modify (\<lambda>s. s\<lparr>st_sendFeeMinRate := Some minRate\<rparr>)) (\<lambda>_.
      bind (gets st_sendFeeRateOverride) (\<lambda>override.
      let feeRate = (case override of None \<Rightarrow> minRate | Some r \<Rightarrow> if minRate < r then r else minRate);
          outputCount = length recipients + 1;
          fee = (\<lambda>n. fee_for feeRate (send_vsize n outputCount)) in
      bind (lift (select_coins fee amountTotal allUtxos [] 0)) (\<lambda>(chosen, totalIn).
      let feeSatoshis = fee (length chosen) in
      if totalIn < amountTotal + feeSatoshis
      then bind (setText ''send-error'' (''Insufficient funds: have '' @ formatCac totalIn @ '', need ''
                   @ formatCac (amountTotal + feeSatoshis))) (\<lambda>_. ret None)
      else
        let change = totalIn - amountTotal - feeSatoshis in
        bind (send_chosen E destOutputs feeSatoshis change chosen) (\<lambda>t. ret (Some t))))))))))"

definition sendConfirm :: "env \<Rightarrow> unit act" where
  "sendConfirm E =
     bind (setText ''send-error'' []) (\<lambda>_.
     bind (setText ''send-success'' []) (\<lambda>_.
     bind (gets (\<lambda>s. ui_rows (page s))) (\<lambda>rows.
     bind (lift (read_recipients rows)) (\<lambda>form.
       case form of
         None \<Rightarrow> setText ''send-error'' ''Enter a destination address and a positive amount for every recipient.''
       | Some recipients \<Rightarrow>
           try_catch (bind (send_transaction E recipients) (\<lambda>_. ret ()))
             (\<lambda>e. setText ''send-error'' (gateway_or_string e))))))"

subsection \<open>Fee bumping\<close>

text \<open>\<open>Math.max(rateBasedFee, Math.round(fee * 1.5))\<close>\<close>

definition bumped_fee :: "int \<Rightarrow> sent_record \<Rightarrow> int" where
  "bumped_fee feeRate r =
     (let estimatedVsize = send_vsize (length (sr_inputs r)) (length (sr_outputs r));
          rateBasedFee = num_of_int (fee_for feeRate estimatedVsize)
      in max rateBasedFee \<lfloor>fl (of_int (sr_fee r) * (3 / 2)) + 1 / 2\<rfloor>)"

definition bumpFee :: "env \<Rightarrow> string \<Rightarrow> string act" where
  "bumpFee E txid =
     bind (gets (\<lambda>s. loadSentTxLog (ls s))) (\<lambda>log1.
       case log1 txid of
         None \<Rightarrow> lift (Inl (JsError (''No local record of this transaction -- it was either sent from a different device/browser, ''
           @ ''or before this feature existed. Can'' @ [CHR 0x27] @ ''t bump its fee here.'')))
       | Some r \<Rightarrow>
           bind (fetch_fee_rate E) (\<lambda>feeRate.
           let newFee = bumped_fee feeRate r in
           bind (map_act (\<lambda>inp. ensureKey E (sin_derivationIndex inp)) (sr_inputs r)) (\<lambda>inputKeys.
           bind (lift (buildBumpFeeTransaction (e_crypto E) r newFee inputKeys)) (\<lambda>(rawTx, newOutputs).
           bind (call E (\<lambda>b. gw_broadcast b (bytesToHex rawTx))) (\<lambda>result.
           bind (gets (\<lambda>s. loadSentTxLog (ls s))) (\<lambda>log2.
           bind (lift (jget result ''txid'')) (\<lambda>t.
           bind (saveSentTxLog ((log2(txid := None))(jtext t \<mapsto>
                   \<lparr>sr_inputs = sr_inputs r, sr_outputs = newOutputs, sr_fee = newFee, sr_replacesTxid = Some txid\<rparr>))) (\<lambda>_.
           ret (jtext t)))))))))"

section \<open>Frames\<close>

lemmas fee_defs = updateSendFeeEstimate_def fetch_fee_rate_def loadSendFeeRate_def setSendFeeRate_def
  feeDecrease_def feeIncrease_def feeReset_def feeRateChange_def updateSendAmountFiat_def loadSendAmountFiat_def

lemma core_fee [keeps_rules]:
  "keeps (core_is c) updateSendFeeEstimate" "keeps (core_is c) (fetch_fee_rate E)" "keeps (core_is c) (loadSendFeeRate E)"
  "keeps (core_is c) (setSendFeeRate r)" "keeps (core_is c) feeDecrease" "keeps (core_is c) feeIncrease"
  "keeps (core_is c) feeReset" "keeps (core_is c) feeRateChange" "keeps (core_is c) updateSendAmountFiat"
  "keeps (core_is c) (loadSendAmountFiat E)"
  unfolding fee_defs by (intro keeps_rules core_modify; simp add: core_def)+

lemmas row_defs = modify_rows_def updateRecipientRemoveButtons_def addRecipientRow_def resetSendRecipients_def
  update_row_def set_recipient_def rowFocus_def rowAddressChange_def rowAmountInput_def rowRemove_def rowScanned_def

lemma core_rows [keeps_rules]:
  "keeps (core_is c) addRecipientRow" "keeps (core_is c) resetSendRecipients" "keeps (core_is c) (rowFocus i)"
  "keeps (core_is c) (rowAddressChange i v)" "keeps (core_is c) (rowAmountInput i v)" "keeps (core_is c) (rowRemove i)"
  "keeps (core_is c) (rowScanned i v)" "keeps (core_is c) (update_row i f)"
  unfolding row_defs by (intro keeps_rules core_modify; simp add: core_def)+

lemma core_log [keeps_rules]: "keeps (core_is c) (saveSentTxLog m)" "keeps (core_is c) (recordSentTx t r)"
  unfolding recordSentTx_def saveSentTxLog_def modify_ls_def
  by (intro keeps_rules core_modify; simp add: core_def)+

context core_predicate
begin

lemmas send_frames [keeps_rules] =
  core_fee [THEN keeps_frame] core_rows [THEN keeps_frame] core_log [THEN keeps_frame]

end

context wallet_predicate
begin

lemma keeps_send [keeps_rules]: "keeps I (sendConfirm E)"
  unfolding sendConfirm_def send_transaction_def send_chosen_def
  by (intro keeps_rules frame_modify; simp add: core_def)

lemma keeps_bumpFee [keeps_rules]: "keeps I (bumpFee E txid)"
  unfolding bumpFee_def by (intro keeps_rules)

end

section \<open>The fee control\<close>

lemma updateSendFeeEstimate_run: "\<exists>t. updateSendFeeEstimate s = setText ''send-fee-estimate'' t s"
  by (auto simp: updateSendFeeEstimate_def act_simps split: option.split)

lemma clamp:
  "0 \<le> mn \<Longrightarrow> (if rate < mn then mn else if mn * 50 < rate then mn * 50 else rate) = max mn (min (mn * 50) rate)"
  for mn :: int
  by auto

lemma setSendFeeRate_run:
  fixes rate :: int
  assumes "st_sendFeeMinRate s = Some mn" "0 \<le> mn"
  defines "r \<equiv> max mn (min (mn * 50) rate)"
  shows "\<exists>t. setSendFeeRate rate s = setText ''send-fee-estimate'' t
     (snd (setField ''send-fee-rate'' (dec_int r) (s\<lparr>st_sendFeeRateOverride := (if r = mn then None else Some r)\<rparr>)))"
proof -
  let ?s = "snd (setField ''send-fee-rate'' (dec_int r) (s\<lparr>st_sendFeeRateOverride := (if r = mn then None else Some r)\<rparr>))"
  obtain t where "updateSendFeeEstimate ?s = setText ''send-fee-estimate'' t ?s"
    using updateSendFeeEstimate_run by blast
  moreover have "setSendFeeRate rate s = updateSendFeeEstimate ?s"
    unfolding setSendFeeRate_def bind_apply gets_apply assms(1) Let_def
    by (simp add: clamp [OF assms(2)] seqs_last r_def [symmetric] act_simps del: seqs.simps(2))
  ultimately show ?thesis by metis
qed

section \<open>Coin selection\<close>

lemma select_coins_spec:
  assumes "select_coins fee amount us chosen0 t0 = Inr (chosen, t)"
  shows "\<exists>new. chosen = chosen0 @ new \<and> t = t0 + sum_list (map (\<lambda>(u, i, v). v) new)
    \<and> map (\<lambda>(u, i, v). (u, i)) new = take (length new) us
    \<and> (\<forall>(u, i, v)\<in>set new. bindE (jget u ''value'') jBigInt = Inr v)
    \<and> (\<forall>k. 0 < k \<longrightarrow> k < length new \<longrightarrow>
         t0 + sum_list (map (\<lambda>(u, i, v). v) (take k new)) < amount + fee (length chosen0 + k))
    \<and> (t < amount + fee (length chosen) \<longrightarrow> length new = length us)"
  using assms
proof (induction us arbitrary: chosen0 t0)
  case Nil
  then show ?case by (intro exI [of _ "[]"]) auto
next
  case (Cons ui us)
  obtain u i where ui: "ui = (u, i)" by fastforce
  obtain v where v: "bindE (jget u ''value'') jBigInt = Inr v"
    using Cons.prems by (cases "bindE (jget u ''value'') jBigInt") (auto simp: ui)
  show ?case
  proof (cases "amount + fee (Suc (length chosen0)) \<le> t0 + v")
    case True
    then show ?thesis using Cons.prems v by (intro exI [of _ "[(u, i, v)]"]) (auto simp: ui)
  next
    case False
    then have "select_coins fee amount us (chosen0 @ [(u, i, v)]) (t0 + v) = Inr (chosen, t)"
      using Cons.prems v by (simp add: ui)
    then obtain new where new: "chosen = (chosen0 @ [(u, i, v)]) @ new" "t = t0 + v + sum_list (map (\<lambda>(u, i, v). v) new)"
      "map (\<lambda>(u, i, v). (u, i)) new = take (length new) us"
      "\<forall>(u, i, v)\<in>set new. bindE (jget u ''value'') jBigInt = Inr v"
      "\<forall>k. 0 < k \<longrightarrow> k < length new \<longrightarrow>
         t0 + v + sum_list (map (\<lambda>(u, i, v). v) (take k new)) < amount + fee (length (chosen0 @ [(u, i, v)]) + k)"
      "t < amount + fee (length chosen) \<longrightarrow> length new = length us"
      using Cons.IH by blast
    have k: "t0 + sum_list (map (\<lambda>(u, i, v). v) (take k ((u, i, v) # new))) < amount + fee (length chosen0 + k)"
      if kk: "0 < k" "k < length ((u, i, v) # new)" for k
    proof -
      obtain m where m: "k = Suc m" using kk(1) by (cases k) auto
      show ?thesis
        using kk(2) new(5) [rule_format, of m] False by (cases "m = 0") (auto simp: m algebra_simps)
    qed
    show ?thesis
      using new k v by (intro exI [of _ "(u, i, v) # new"]) (auto simp: ui)
  qed
qed

lemma reads_send:
  "keeps (reads_since s0 is_get) (gatherAllUtxos E)" "keeps (reads_since s0 is_get) (fetch_fee_rate E)"
  unfolding gatherAllUtxos_def fetch_fee_rate_def address_of_def
  by (intro keeps_rules reads_call; simp add: gw_defs gw_get_def)+

lemmas gather_run = reads_run [OF reads_send(1)]
lemmas fee_rate_run = reads_run [OF reads_send(2)]

lemma ensureKey_state: "ensureKey E i s = (r, s') \<Longrightarrow> \<exists>k a. s' = s\<lparr>st_keys := k, st_addresses := a\<rparr>"
  unfolding ensureKey_apply
  by (cases s) (auto simp: Let_def split: option.splits sum.splits)

lemma updateSendAmountFiat_run: "\<exists>p. updateSendAmountFiat s = (Inr (), s\<lparr>page := p\<rparr>)"
  by (cases s) (auto simp: updateSendAmountFiat_def updateSendFeeEstimate_def act_simps Let_def split: option.split)

lemma resetSendRecipients_run:
  "\<exists>p. resetSendRecipients s =
     (Inr (), s\<lparr>page := p, v_sendRecipientIdCounter := 1, st_activeSendRecipientId := Some 0\<rparr>)"
  by (cases s) (simp add: row_defs act_simps)

text \<open>
  What a payment consists of. A coin is an unspent output as the gateway reported it, with the
  index of its address and its value; it is spent by an input with its outpoint and value, signed
  with the key of its index, and recorded with the same data. A row of the form is paid by an
  output with the script of the address typed and the number of satoshis typed.
\<close>

definition spends_coin :: "crypto \<Rightarrow> (nat \<rightharpoonup> keypair) \<Rightarrow> json \<times> nat \<times> int \<Rightarrow> sign_input \<Rightarrow> bool" where
  "spends_coin C keys c inp \<longleftrightarrow> (case c of (u, idx, v) \<Rightarrow>
     (\<exists>t n key. bindE (jget u ''txid'') jstring = Inr t \<and> bindE (jget u ''vout'') jnat = Inr n \<and> keys idx = Some key
      \<and> inp = \<lparr>si_txid = rev (hexToBytes t), si_vout = n, si_value = num_of_int v,
          si_pubkeyHash = hash160 C (publicKey key), si_privateKey = Some (privateKey key),
          si_publicKey = Some (publicKey key), si_sequence = None\<rparr>))"

definition records_coin :: "json \<times> nat \<times> int \<Rightarrow> sent_input \<Rightarrow> bool" where
  "records_coin c r \<longleftrightarrow> (case c of (u, idx, v) \<Rightarrow>
      bindE (jget u ''txid'') jstring = Inr (sin_txid r) \<and> bindE (jget u ''vout'') jnat = Inr (sin_vout r)
    \<and> sin_value r = num_of_int v \<and> sin_derivationIndex r = idx)"

definition typed_satoshis :: "recipient_row \<Rightarrow> int" where
  "typed_satoshis row = (case to_satoshis (parseFloat (row_amount row)) of Inr n \<Rightarrow> n | Inl e \<Rightarrow> 0)"

definition pays_row :: "crypto \<Rightarrow> network \<Rightarrow> recipient_row \<Rightarrow> tx_output \<Rightarrow> bool" where
  "pays_row C net row out \<longleftrightarrow>
     (\<exists>ty h. decodeAddress C (trim (row_address row)) net = Inr (ty, h)
      \<and> to_satoshis (parseFloat (row_amount row)) = Inr (typed_satoshis row)
      \<and> out = \<lparr>scriptPubKey = (case ty of P2pkh \<Rightarrow> p2pkhScriptPubKey h | P2sh \<Rightarrow> p2shScriptPubKey h
           | P2wpkh \<Rightarrow> p2wpkhScriptPubKey h), valueSatoshis = num_of_int (typed_satoshis row)\<rparr>)"

lemma mapE_list_all2: "mapE f xs = Inr ys \<longleftrightarrow> list_all2 (\<lambda>x y. f x = Inr y) xs ys"
  by (induction xs arbitrary: ys) (auto simp: bindE_eq_Inr list_all2_Cons1)

lemma spend_input_spends: "spend_input C keys c = Inr inp \<longleftrightarrow> spends_coin C keys c inp"
  by (cases c) (auto simp: spend_input_def spends_coin_def outpoint_def bindE_eq_Inr split: option.splits)

lemma sent_input_records: "sent_input_of c = Inr r \<longleftrightarrow> records_coin c r"
  by (cases c; cases r) (auto simp: sent_input_of_def records_coin_def outpoint_def bindE_eq_Inr)

lemma spend_then_record:
  "mapE (spend_input C keys) cs = Inr ins \<Longrightarrow> \<exists>rs. mapE sent_input_of cs = Inr rs"
  by (induction cs arbitrary: ins)
    (force simp: spend_input_def sent_input_of_def bindE_eq_Inr split: option.splits)+

lemma read_recipients_typed:
  "read_recipients rows = Inr (Some rs) \<Longrightarrow>
     list_all2 (\<lambda>row r. rc_address r = trim (row_address row)
       \<and> to_satoshis (parseFloat (row_amount row)) = Inr (typed_satoshis row) \<and> rc_amount r = typed_satoshis row) rows rs"
proof (induction rows arbitrary: rs)
  case (Cons row rows)
  then show ?case by (auto simp: Let_def bindE_eq_Inr typed_satoshis_def split: if_splits)
qed simp

lemma dest_pays:
  assumes "read_recipients rows = Inr (Some rs)" "mapE (dest_output C net) rs = Inr outs"
  shows "list_all2 (pays_row C net) rows outs" "map rc_amount rs = map typed_satoshis rows" "length rs = length rows"
proof -
  note t = read_recipients_typed [OF assms(1)]
  have d: "list_all2 (\<lambda>r out. dest_output C net r = Inr out) rs outs" using assms(2) by (simp add: mapE_list_all2)
  show "list_all2 (pays_row C net) rows outs"
    by (rule list_all2_trans [OF _ t d])
      (auto simp: dest_output_def script_for_def pays_row_def bindE_eq_Inr split: prod.splits)
  show "map rc_amount rs = map typed_satoshis rows" "length rs = length rows"
    using t by (auto simp: list_all2_conv_all_nth intro: nth_equalityI)
qed

text \<open>The output that returns the change, and the entry of the log for a payment.\<close>

definition change_output :: "crypto \<Rightarrow> keypair \<Rightarrow> int \<Rightarrow> tx_output list" where
  "change_output C key change = (if 0 < change
     then [\<lparr>scriptPubKey = p2pkhScriptPubKey (hash160 C (publicKey key)), valueSatoshis = num_of_int change\<rparr>] else [])"

definition broadcast_id :: "env \<Rightarrow> request list \<Rightarrow> request \<Rightarrow> json res" where
  "broadcast_id E h q = bindE (bindE (e_fetch E h q) gw_decode) (\<lambda>j. jget j ''txid'')"

lemma send_chosen_outcome:
  assumes run: "send_chosen E dest fee change chosen s = (res, s')" and posted: "requests s' \<noteq> requests s"
  defines "C \<equiv> e_crypto E"
  obtains key s1 inputs raw sent where
    "ensureKey E (st_activeIndex s) s = (Inr key, s1)"
    "mapE (spend_input C (st_keys s1)) chosen = Inr inputs"
    "buildAndSignTransaction C inputs (dest @ change_output C key change) None None 0 = Inr raw"
    "requests s' = requests s @ [gw_broadcast (st_gateway s) (bytesToHex raw)]"
    "st_keys s' = st_keys s1" "st_sendFeeMinRate s' = st_sendFeeMinRate s"
    "mapE sent_input_of chosen = Inr sent"
    "loadSentTxLog (ls s') = (case broadcast_id E (requests s) (gw_broadcast (st_gateway s) (bytesToHex raw)) of
        Inl e \<Rightarrow> loadSentTxLog (ls s)
      | Inr t \<Rightarrow> (loadSentTxLog (ls s))(jtext t \<mapsto> \<lparr>sr_inputs = sent,
          sr_outputs = sent_outputs (0 < change) (st_activeIndex s) (dest @ change_output C key change),
          sr_fee = num_of_int fee, sr_replacesTxid = None\<rparr>))"
proof -
  obtain rk s1 where rk: "ensureKey E (st_activeIndex s) s = (rk, s1)" by fastforce
  obtain k a where s1: "s1 = s\<lparr>st_keys := k, st_addresses := a\<rparr>" using ensureKey_state [OF rk] by blast
  note run' = run [unfolded send_chosen_def Let_def C_def [symmetric] change_output_def [symmetric] bind_apply [of "gets _"]
      bind_apply [of "ensureKey _ _"] gets_apply rk prod.case sum.case]
  obtain key where key: "rk = Inr key"
    using run' posted s1 by (cases rk) auto
  note run2 = run' [unfolded key sum.case bind_apply [of "gets _"] bind_apply [of "lift _"] gets_apply lift_apply prod.case]
  obtain inputs where inputs: "mapE (spend_input C (st_keys s1)) chosen = Inr inputs"
    using run2 posted s1 by (cases "mapE (spend_input C (st_keys s1)) chosen") auto
  obtain raw where raw: "buildAndSignTransaction C inputs (dest @ change_output C key change) None None 0 = Inr raw"
    using run2 [unfolded inputs sum.case] posted s1
    by (cases "buildAndSignTransaction C inputs (dest @ change_output C key change) None None 0") auto
  obtain sent where sent: "mapE sent_input_of chosen = Inr sent" using spend_then_record [OF inputs] by blast
  let ?q = "gw_broadcast (st_gateway s) (bytesToHex raw)"
  let ?s2 = "s1\<lparr>requests := requests s @ [?q]\<rparr>"
  have c: "call E (\<lambda>b. gw_broadcast b (bytesToHex raw)) s1 = (bindE (e_fetch E (requests s) ?q) gw_decode, ?s2)"
    by (simp add: call_apply s1)
  let ?r = "\<lparr>sr_inputs = sent, sr_outputs = sent_outputs (0 < change) (st_activeIndex s) (dest @ change_output C key change),
    sr_fee = num_of_int fee, sr_replacesTxid = None\<rparr>"
  note run3 = run2 [unfolded inputs raw sum.case bind_apply [of "call _ _"] c prod.case sent]
  show thesis
  proof (cases "bindE (e_fetch E (requests s) ?q) gw_decode")
    case (Inl e)
    then have "s' = ?s2" using run3 by simp
    then show thesis
      using Inl by (intro that [OF rk [unfolded key] inputs raw _ _ _ sent]) (simp_all add: s1 broadcast_id_def)
  next
    case (Inr j)
    note run4 = run3 [unfolded Inr sum.case bind_apply [of "lift _"] lift_apply prod.case]
    show thesis
    proof (cases "jget j ''txid''")
      case (Inl e)
      then have "s' = ?s2" using run4 by (simp add: bind_apply)
      then show thesis
        using Inr Inl by (intro that [OF rk [unfolded key] inputs raw _ _ _ sent]) (simp_all add: s1 broadcast_id_def)
    next
      case t: (Inr t)
      define s3 where "s3 = snd (setText ''send-success'' (''Broadcast: '' @ jtext t) ?s2)"
      define s4 where "s4 = snd (recordSentTx (jtext t) ?r s3)"
      have 3: "setText ''send-success'' (''Broadcast: '' @ jtext t) ?s2 = (Inr (), s3)" by (simp add: s3_def act_simps)
      have 4: "recordSentTx (jtext t) ?r s3 = (Inr (), s4)"
        by (simp add: s4_def recordSentTx_def saveSentTxLog_def act_simps)
      obtain p1 where 5: "resetSendRecipients s4 = (Inr (), s4\<lparr>page := p1, v_sendRecipientIdCounter := 1, st_activeSendRecipientId := Some 0\<rparr>)"
        using resetSendRecipients_run by blast
      let ?s5 = "s4\<lparr>page := p1, v_sendRecipientIdCounter := 1, st_activeSendRecipientId := Some 0\<rparr>"
      obtain p2 where 6: "updateSendAmountFiat ?s5 = (Inr (), ?s5\<lparr>page := p2\<rparr>)"
        using updateSendAmountFiat_run by blast
      have "s' = ?s5\<lparr>page := p2\<rparr>"
        using run4 by (simp only: t sum.case prod.case bind_apply lift_apply ret_apply 3 4 5 6 prod.inject)
      then show thesis
        using Inr t by (intro that [OF rk [unfolded key] inputs raw _ _ _ sent])
          (simp_all add: s1 s3_def s4_def broadcast_id_def recordSentTx_def saveSentTxLog_def act_simps loadSentTxLog_def)
    qed
  qed
qed

text \<open>The fee rate of a send: the one chosen, when it is above the gateway's current rate.\<close>

abbreviation send_rate :: "int \<Rightarrow> int option \<Rightarrow> int" where
  "send_rate minRate override \<equiv> (case override of None \<Rightarrow> minRate | Some r \<Rightarrow> if minRate < r then r else minRate)"

lemma send_transaction_outcome:
  assumes run: "send_transaction E rs s = (res, s')"
    and posted: "\<And>qs. requests s' = requests s @ qs \<Longrightarrow> \<not> list_all is_get qs"
  defines "amount \<equiv> sum_list (map rc_amount rs)"
    and "fee \<equiv> (\<lambda>rate n. fee_for rate (send_vsize n (length rs + 1)))"
  obtains net dest us s1 minRate s2 qs chosen totalIn res' where
    "NETWORKS (st_network s) = Some net" "mapE (dest_output (e_crypto E) net) rs = Inr dest"
    "gatherAllUtxos E s = (Inr us, s1)" "fetch_fee_rate E s1 = (Inr minRate, s2)"
    "s2 = s\<lparr>requests := requests s @ qs\<rparr>" "list_all is_get qs"
    "select_coins (fee (send_rate minRate (st_sendFeeRateOverride s))) amount us [] 0 = Inr (chosen, totalIn)"
    "amount + fee (send_rate minRate (st_sendFeeRateOverride s)) (length chosen) \<le> totalIn"
    "send_chosen E dest (fee (send_rate minRate (st_sendFeeRateOverride s)) (length chosen))
       (totalIn - amount - fee (send_rate minRate (st_sendFeeRateOverride s)) (length chosen)) chosen
       (s2\<lparr>st_sendFeeMinRate := Some minRate\<rparr>) = (res', s')"
proof -
  have quiet: False if "s' = s\<lparr>requests := requests s @ qs\<rparr>" "list_all is_get qs" for qs
    using posted [of qs] that by simp
  have quiet': False if "requests s' = requests s" using posted [of "[]"] that by simp
  note run0 = run [unfolded send_transaction_def Let_def amount_def [symmetric]]
  obtain net where net: "NETWORKS (st_network s) = Some net"
    using run0 quiet' by (cases "NETWORKS (st_network s)") (auto simp: bind_apply current_network_def gets_apply lift_apply)
  have n: "current_network s = (Inr net, s)" using net by (simp add: act_simps)
  note run1 = run0 [unfolded bind_apply [of current_network] n bind_apply [of "lift _"] lift_apply prod.case sum.case]
  obtain dest where dest: "mapE (dest_output (e_crypto E) net) rs = Inr dest"
    using run1 quiet' by (cases "mapE (dest_output (e_crypto E) net) rs") auto
  obtain ru s1 where ru: "gatherAllUtxos E s = (ru, s1)" by fastforce
  obtain qs1 where qs1: "s1 = s\<lparr>requests := requests s @ qs1\<rparr>" "list_all is_get qs1" using gather_run [OF ru] by blast
  note run2 = run1 [unfolded dest sum.case bind_apply [of "gatherAllUtxos _"] ru prod.case]
  obtain us where us: "ru = Inr us" using run2 qs1 quiet by (cases ru) auto
  obtain rf s2 where rf: "fetch_fee_rate E s1 = (rf, s2)" by fastforce
  obtain qs2 where qs2: "s2 = s1\<lparr>requests := requests s1 @ qs2\<rparr>" "list_all is_get qs2" using fee_rate_run [OF rf] by blast
  have s2: "s2 = s\<lparr>requests := requests s @ (qs1 @ qs2)\<rparr>" "list_all is_get (qs1 @ qs2)" using qs1 qs2 by simp_all
  note run3 = run2 [unfolded us sum.case bind_apply [of "fetch_fee_rate _"] rf prod.case]
  obtain minRate where mn: "rf = Inr minRate" using run3 quiet [OF _ s2(2)] by (cases rf) (auto simp: s2(1))
  let ?s2 = "s2\<lparr>st_sendFeeMinRate := Some minRate\<rparr>" and ?rate = "send_rate minRate (st_sendFeeRateOverride s)"
  have ov: "st_sendFeeRateOverride ?s2 = st_sendFeeRateOverride s" by (simp add: s2(1))
  have loud: False if "requests s' = requests s2" using posted [of "qs1 @ qs2"] that s2 by simp
  note run4 = run3 [unfolded mn sum.case bind_apply [of "modify _"] modify_apply bind_apply [of "gets _"] gets_apply
      lift_apply bind_apply [of "Pair _"] prod.case ov]
  let ?f = "\<lambda>n. fee_for ?rate (send_vsize n (length rs + 1))"
  have f: "fee ?rate = ?f" by (simp add: fee_def)
  obtain chosen totalIn where sel: "select_coins ?f amount us [] 0 = Inr (chosen, totalIn)"
    using run4 loud by (cases "select_coins ?f amount us [] 0") (auto split: prod.splits)
  note run5 = run4 [unfolded sel sum.case prod.case]
  have enough: "\<not> totalIn < amount + ?f (length chosen)"
  proof
    assume "totalIn < amount + ?f (length chosen)"
    then show False using run5 loud by (auto simp: bind_apply setText_apply ret_apply)
  qed
  note run6 = run5 [unfolded if_not_P [OF enough] bind_apply [of "send_chosen _ _ _ _ _"]]
  obtain res' s'' where c: "send_chosen E dest (?f (length chosen)) (totalIn - amount - ?f (length chosen)) chosen ?s2 = (res', s'')"
    by fastforce
  then have "s'' = s'" using run6 by (auto simp: ret_apply split: sum.splits)
  then show thesis
    using that [OF net dest ru [unfolded us] rf [unfolded mn] s2] sel enough c unfolding f by auto
qed

lemma ensureKey_known: "ensureKey E i s = (Inr key, s1) \<Longrightarrow> st_keys s1 i = Some key"
  unfolding ensureKey_apply by (auto simp: Let_def split: option.splits sum.splits)

text \<open>The page when the confirm handler starts its work: both messages are cleared.\<close>

definition cleared :: "app \<Rightarrow> app" where
  "cleared s = snd (setText ''send-success'' [] (snd (setText ''send-error'' [] s)))"

lemma cleared_simps: "requests (cleared s) = requests s" "ls (cleared s) = ls s" "st_network (cleared s) = st_network s"
  "st_gateway (cleared s) = st_gateway s" "st_activeIndex (cleared s) = st_activeIndex s"
  "st_sendFeeRateOverride (cleared s) = st_sendFeeRateOverride s" "ui_rows (page (cleared s)) = ui_rows (page s)"
  by (simp_all add: cleared_def setText_apply)

lemma sendConfirm_outcome:
  assumes run: "sendConfirm E s = (res, s')" and posted: "\<And>qs. requests s' = requests s @ qs \<Longrightarrow> \<not> list_all is_get qs"
  obtains rs r s'' where "read_recipients (ui_rows (page s)) = Inr (Some rs)"
    "send_transaction E rs (cleared s) = (r, s'')" "requests s'' = requests s'" "ls s'' = ls s'" "st_keys s'' = st_keys s'"
    "st_sendFeeMinRate s'' = st_sendFeeMinRate s'"
proof -
  have c: "bind (setText ''send-error'' []) (\<lambda>_. bind (setText ''send-success'' []) (\<lambda>_. f)) s = f (cleared s)" for f :: "unit act"
    by (simp add: bind_apply setText_apply cleared_def)
  note run1 = run [unfolded sendConfirm_def c bind_apply [of "gets _"] gets_apply bind_apply [of "lift _"] lift_apply
      prod.case sum.case cleared_simps(7)]
  have quiet: False if "requests s' = requests s" using posted [of "[]"] that by simp
  obtain form where form: "read_recipients (ui_rows (page s)) = Inr form"
    using run1 quiet by (cases "read_recipients (ui_rows (page s))") (auto simp: cleared_simps)
  note run2 = run1 [unfolded form sum.case]
  obtain rs where rs: "form = Some rs"
    using run2 quiet by (cases form) (auto simp: setText_apply cleared_simps)
  obtain r s'' where t: "send_transaction E rs (cleared s) = (r, s'')" by fastforce
  have "requests s'' = requests s' \<and> ls s'' = ls s' \<and> st_keys s'' = st_keys s' \<and> st_sendFeeMinRate s'' = st_sendFeeMinRate s'"
    using run2 [unfolded rs option.case] by (auto simp: try_catch_apply bind_apply t ret_apply setText_apply split: sum.splits)
  then show thesis using that form rs t by blast
qed

lemma sent_outputs_change:
  "sent_outputs (0 < change) active (dest @ change_output C key change) =
     map (\<lambda>out. \<lparr>so_scriptPubKeyHex = bytesToHex (scriptPubKey out), so_value = valueSatoshis out,
        so_isChange = False, so_changeIndex = None\<rparr>) dest
     @ map (\<lambda>out. \<lparr>so_scriptPubKeyHex = bytesToHex (scriptPubKey out), so_value = valueSatoshis out,
        so_isChange = True, so_changeIndex = Some active\<rparr>) (change_output C key change)"
  by (cases "0 < change"; rule nth_equalityI; auto simp: sent_outputs_def change_output_def Let_def nth_append less_Suc_eq)

lemma exact_sum:
  assumes "\<forall>n\<in>set ns. \<bar>n\<bar> \<le> 2 ^ 53" shows "sum_list (map num_of_int ns) = sum_list ns"
  using assms by (induction ns) (simp_all add: num_of_int_exact)

lemma spends_values: "list_all2 (spends_coin C keys) cs ins \<Longrightarrow> map si_value ins = map num_of_int (map (\<lambda>(u, i, v). v) cs)"
  by (induction rule: list_all2_induct) (auto simp: spends_coin_def)

lemma pays_values: "list_all2 (pays_row C net) rows outs \<Longrightarrow> map valueSatoshis outs = map num_of_int (map typed_satoshis rows)"
  by (induction rule: list_all2_induct) (auto simp: pays_row_def)

lemma send_payment:
  assumes run: "sendConfirm E s = (res, s')" and posted: "\<And>qs. requests s' = requests s @ qs \<Longrightarrow> \<not> list_all is_get qs"
  defines "C \<equiv> e_crypto E" and "rows \<equiv> ui_rows (page s)"
  shows "\<exists>net us s1 minRate s2 qs chosen fee change key inputs dest raw sent.
    NETWORKS (st_network s) = Some net
  \<and> gatherAllUtxos E (cleared s) = (Inr us, s1) \<and> fetch_fee_rate E s1 = (Inr minRate, s2)
  \<and> map (\<lambda>(u, i, v). (u, i)) chosen = take (length chosen) us
  \<and> (\<forall>(u, i, v)\<in>set chosen. bindE (jget u ''value'') jBigInt = Inr v)
  \<and> fee = ((case st_sendFeeRateOverride s of None \<Rightarrow> minRate | Some r \<Rightarrow> max minRate r)
        * (10 + 148 * int (length chosen) + 34 * int (length rows + 1)) + 999) sdiv 1000
  \<and> 0 \<le> change
  \<and> sum_list (map (\<lambda>(u, i, v). v) chosen) = sum_list (map typed_satoshis rows) + fee + change
  \<and> st_keys s' (st_activeIndex s) = Some key
  \<and> list_all2 (spends_coin C (st_keys s')) chosen inputs \<and> list_all2 (pays_row C net) rows dest
  \<and> buildAndSignTransaction C inputs (dest @ change_output C key change) None None 0 = Inr raw
  \<and> requests s2 = requests s @ qs \<and> list_all is_get qs
  \<and> requests s' = requests s2 @ [gw_broadcast (st_gateway s) (bytesToHex raw)]
  \<and> list_all2 records_coin chosen sent
  \<and> loadSentTxLog (ls s') =
      (case broadcast_id E (requests s2) (gw_broadcast (st_gateway s) (bytesToHex raw)) of
         Inl e \<Rightarrow> loadSentTxLog (ls s)
       | Inr t \<Rightarrow> (loadSentTxLog (ls s))(jtext t \<mapsto> \<lparr>sr_inputs = sent,
           sr_outputs = map (\<lambda>out. \<lparr>so_scriptPubKeyHex = bytesToHex (scriptPubKey out), so_value = valueSatoshis out,
                so_isChange = False, so_changeIndex = None\<rparr>) dest
             @ map (\<lambda>out. \<lparr>so_scriptPubKeyHex = bytesToHex (scriptPubKey out), so_value = valueSatoshis out,
                so_isChange = True, so_changeIndex = Some (st_activeIndex s)\<rparr>) (change_output C key change),
           sr_fee = num_of_int fee, sr_replacesTxid = None\<rparr>))
  \<and> ((\<forall>n\<in>set (change # map typed_satoshis rows @ map (\<lambda>(u, i, v). v) chosen). \<bar>n\<bar> \<le> 2 ^ 53) \<longrightarrow>
      sum_list (map si_value inputs) = sum_list (map valueSatoshis (dest @ change_output C key change)) + fee)"
proof -
  obtain rs r t where form: "read_recipients rows = Inr (Some rs)" and st: "send_transaction E rs (cleared s) = (r, t)"
    and t: "requests t = requests s'" "ls t = ls s'" "st_keys t = st_keys s'"
    using sendConfirm_outcome [OF run posted] unfolding rows_def by metis
  have posted': "\<not> list_all is_get qs" if "requests t = requests (cleared s) @ qs" for qs
    using posted that t(1) by (simp add: cleared_simps)
  define rate where "rate minRate = (case st_sendFeeRateOverride s of None \<Rightarrow> minRate | Some r \<Rightarrow> max minRate r)" for minRate
  have rate: "send_rate minRate (st_sendFeeRateOverride (cleared s)) = rate minRate" for minRate
    by (auto simp: rate_def cleared_simps split: option.split)
  obtain net dest us s1 minRate s2 qs chosen totalIn res' where
    x: "NETWORKS (st_network s) = Some net" "mapE (dest_output C net) rs = Inr dest"
    "gatherAllUtxos E (cleared s) = (Inr us, s1)" "fetch_fee_rate E s1 = (Inr minRate, s2)"
    "s2 = (cleared s)\<lparr>requests := requests s @ qs\<rparr>" "list_all is_get qs"
    "select_coins (\<lambda>n. fee_for (rate minRate) (send_vsize n (length rs + 1))) (sum_list (map rc_amount rs)) us [] 0
       = Inr (chosen, totalIn)"
    "sum_list (map rc_amount rs) + fee_for (rate minRate) (send_vsize (length chosen) (length rs + 1)) \<le> totalIn"
    "send_chosen E dest (fee_for (rate minRate) (send_vsize (length chosen) (length rs + 1)))
       (totalIn - sum_list (map rc_amount rs) - fee_for (rate minRate) (send_vsize (length chosen) (length rs + 1))) chosen
       (s2\<lparr>st_sendFeeMinRate := Some minRate\<rparr>) = (res', t)"
    by (rule send_transaction_outcome [OF st posted', unfolded rate cleared_simps(1,3), folded C_def])
  define fee where "fee = fee_for (rate minRate) (send_vsize (length chosen) (length rs + 1))"
  define change where "change = totalIn - sum_list (map rc_amount rs) - fee"
  let ?t = "s2\<lparr>st_sendFeeMinRate := Some minRate\<rparr>"
  have ne: "requests t \<noteq> requests ?t" using posted' [of qs] x(5,6) by (auto simp: cleared_simps)
  have eq: "st_activeIndex ?t = st_activeIndex s" "requests ?t = requests s2" "st_gateway ?t = st_gateway s" "ls ?t = ls s"
    by (simp_all add: x(5) cleared_simps)
  obtain key s3 inputs raw sent where y:
    "ensureKey E (st_activeIndex s) ?t = (Inr key, s3)" "mapE (spend_input C (st_keys s3)) chosen = Inr inputs"
    "buildAndSignTransaction C inputs (dest @ change_output C key change) None None 0 = Inr raw"
    "requests t = requests s2 @ [gw_broadcast (st_gateway s) (bytesToHex raw)]" "st_keys t = st_keys s3"
    "mapE sent_input_of chosen = Inr sent"
    "loadSentTxLog (ls t) = (case broadcast_id E (requests s2) (gw_broadcast (st_gateway s) (bytesToHex raw)) of
        Inl e \<Rightarrow> loadSentTxLog (ls s)
      | Inr j \<Rightarrow> (loadSentTxLog (ls s))(jtext j \<mapsto> \<lparr>sr_inputs = sent,
          sr_outputs = sent_outputs (0 < change) (st_activeIndex s) (dest @ change_output C key change),
          sr_fee = num_of_int fee, sr_replacesTxid = None\<rparr>))"
    by (rule send_chosen_outcome [OF x(9) ne]) (simp only: eq C_def fee_def change_def)
  note d = dest_pays [OF form x(2)]
  have fee: "fee = (rate minRate * (10 + 148 * int (length chosen) + 34 * int (length rows + 1)) + 999) sdiv 1000"
    by (simp add: fee_def fee_for_def send_vsize_def d(3) algebra_simps)
  have sel: "totalIn = sum_list (map (\<lambda>(u, i, v). v) chosen)" "map (\<lambda>(u, i, v). (u, i)) chosen = take (length chosen) us"
    "\<forall>(u, i, v)\<in>set chosen. bindE (jget u ''value'') jBigInt = Inr v"
    using select_coins_spec [OF x(7)] by auto
  have "0 \<le> change" "sum_list (map (\<lambda>(u, i, v). v) chosen) = sum_list (map typed_satoshis rows) + fee + change"
    using x(8) sel(1) d(2) by (simp_all add: change_def fee_def)
  moreover from this have "(\<forall>n\<in>set (change # map typed_satoshis rows @ map (\<lambda>(u, i, v). v) chosen). \<bar>n\<bar> \<le> 2 ^ 53) \<longrightarrow>
      sum_list (map si_value inputs) = sum_list (map valueSatoshis (dest @ change_output C key change)) + fee"
    using spends_values [of C "st_keys s3" chosen inputs] pays_values [OF d(1)] y(2)
    by (auto simp: mapE_list_all2 spend_input_spends exact_sum change_output_def num_of_int_exact simp del: map_map)
  moreover have "list_all2 (spends_coin C (st_keys s')) chosen inputs" "list_all2 records_coin chosen sent"
    using y(2,5,6) t(3) by (simp_all add: mapE_list_all2 spend_input_spends sent_input_records)
  moreover have "st_keys s' (st_activeIndex s) = Some key" using ensureKey_known [OF y(1)] y(5) t(3) by simp
  moreover have "requests s2 = requests s @ qs" by (simp add: x(5) cleared_simps)
  ultimately show ?thesis
    using x(1,3,4,6) sel(2,3) fee [unfolded rate_def] d(1) y(3) y(4) [unfolded t(1)] y(7) [unfolded t(2) sent_outputs_change]
    by blast
qed

section \<open>Fee bumping\<close>

lemma fl_half_exact:
  assumes "0 \<le> k" "k < 2 ^ 53"
  shows "fl (of_int k / 2) = of_int k / 2"
proof (cases "k = 0")
  case False
  let ?x = "of_int k / 2 :: rat"
  have pos: "0 < ?x" using assms False by simp
  obtain u where u: "fl ?x = of_int (rnd (?x / u)) * u" "u = 2 powi (max (-1074) (expo ?x))" "0 < u"
    using fl_pos [OF pos] by blast
  have "?x < of_int (2 ^ 53) / 2" using assms(2) by (intro divide_strict_right_mono) (simp_all only: of_int_less_iff zero_less_numeral)
  then have lt: "?x < 2 ^ 52" by simp
  have "expo ?x \<le> - 1"
  proof (rule ccontr)
    assume "\<not> expo ?x \<le> - 1"
    then have "(2 :: rat) powi 0 \<le> 2 powi expo ?x" by (intro powi_mono2) simp
    then have "2 ^ 52 \<le> (2 ^ 52 * 2 powi expo ?x :: rat)" by simp
    then show False using expo_bounds [OF pos] lt by linarith
  qed
  then obtain j :: nat where j: "max (-1074) (expo ?x) = - int (Suc j)"
    by (intro that [of "nat (- max (-1074) (expo ?x) - 1)"]) simp
  have "u = 1 / 2 ^ Suc j" unfolding u(2) j by (simp only: power_int_minus power_int_of_nat inverse_eq_divide)
  then have "?x / u = of_int (k * 2 ^ j)" by simp
  then have "fl ?x = ?x / u * u" using u(1) by (metis rnd_of_int)
  then show ?thesis using u(3) by simp
qed simp

lemma bumped_fee_exact:
  assumes "0 \<le> sr_fee r" "sr_fee r \<le> 2 ^ 51"
  shows "bumped_fee rate r = max (num_of_int ((rate * (10 + 148 * int (length (sr_inputs r)) + 34 * int (length (sr_outputs r))) + 999) sdiv 1000))
      ((3 * sr_fee r + 1) div 2)"
proof -
  have "fl (of_int (3 * sr_fee r) / 2) = of_int (3 * sr_fee r) / 2" using assms by (intro fl_half_exact) simp_all
  then have "fl (of_int (sr_fee r) * (3 / 2)) + 1 / 2 = (of_int (3 * sr_fee r + 1) / of_int 2 :: rat)" by (simp add: field_simps)
  then have "\<lfloor>fl (of_int (sr_fee r) * (3 / 2)) + 1 / 2\<rfloor> = (3 * sr_fee r + 1) div 2" by (simp only: floor_divide_of_int_eq)
  then show ?thesis by (simp add: bumped_fee_def fee_for_def send_vsize_def Let_def algebra_simps)
qed

lemma ensureKey_keeps: "ensureKey E i s = (r, s') \<Longrightarrow> st_keys s j = Some k \<Longrightarrow> st_keys s' j = Some k"
  unfolding ensureKey_apply by (auto simp: Let_def split: option.splits sum.splits)

lemma map_ensureKey_keeps:
  "map_act (\<lambda>x. ensureKey E (f x)) xs s = (r, s') \<Longrightarrow> st_keys s j = Some k \<Longrightarrow> st_keys s' j = Some k"
proof (induction xs arbitrary: r s s')
  case (Cons x xs)
  obtain r1 s1 where 1: "ensureKey E (f x) s = (r1, s1)" by fastforce
  obtain r2 s2 where 2: "map_act (\<lambda>x. ensureKey E (f x)) xs s1 = (r2, s2)" by fastforce
  have "s' = s1 \<or> s' = s2" using Cons.prems(1) 1 2 by (auto simp: act_simps split: sum.splits)
  then show ?case using ensureKey_keeps [OF 1 Cons.prems(2)] Cons.IH [OF 2] by auto
qed (simp add: act_simps)

lemma map_ensureKey_known:
  "map_act (\<lambda>x. ensureKey E (f x)) xs s = (Inr keys, s') \<Longrightarrow> list_all2 (\<lambda>x k. st_keys s' (f x) = Some k) xs keys"
proof (induction xs arbitrary: s keys)
  case (Cons x xs)
  obtain k s1 ks where 1: "ensureKey E (f x) s = (Inr k, s1)" and 2: "map_act (\<lambda>x. ensureKey E (f x)) xs s1 = (Inr ks, s')"
    and "keys = k # ks"
    using Cons.prems by (auto simp: act_simps split: sum.splits prod.splits)
  then show ?case using Cons.IH [OF 2] map_ensureKey_keeps [OF 2 ensureKey_known [OF 1]] by simp
qed (simp add: act_simps)

lemma map_ensureKey_state:
  "map_act (\<lambda>inp. ensureKey E (f inp)) xs s = (r, s') \<Longrightarrow> \<exists>k a. s' = s\<lparr>st_keys := k, st_addresses := a\<rparr>"
proof (induction xs arbitrary: r s s')
  case Nil
  then show ?case by (cases s) (auto simp: act_simps)
next
  case (Cons x xs)
  obtain r1 s1 where 1: "ensureKey E (f x) s = (r1, s1)" by fastforce
  obtain k a where s1: "s1 = s\<lparr>st_keys := k, st_addresses := a\<rparr>" using ensureKey_state [OF 1] by blast
  obtain r2 s2 where 2: "map_act (\<lambda>inp. ensureKey E (f inp)) xs s1 = (r2, s2)" by fastforce
  have "s' = s1 \<or> s' = s2" using Cons.prems 1 2 by (auto simp: act_simps split: sum.splits)
  then show ?case using Cons.IH [OF 2] s1 by auto
qed

lemma bumpFee_run:
  assumes "bumpFee E txid s = (Inr t, s')"
  shows "\<exists>r rate s1 keys raw outs. loadSentTxLog (ls s) txid = Some r \<and> fetch_fee_rate E s = (Inr rate, s1)
    \<and> list_all2 (\<lambda>inp key. st_keys s' (sin_derivationIndex inp) = Some key) (sr_inputs r) keys
    \<and> buildBumpFeeTransaction (e_crypto E) r (bumped_fee rate r) keys = Inr (raw, outs)
    \<and> loadSentTxLog (ls s') = ((loadSentTxLog (ls s))(txid := None))
        (t \<mapsto> \<lparr>sr_inputs = sr_inputs r, sr_outputs = outs, sr_fee = bumped_fee rate r, sr_replacesTxid = Some txid\<rparr>)
    \<and> requests s' = requests s @ [gw_feeEstimate (st_gateway s) 6, gw_broadcast (st_gateway s) (bytesToHex raw)]"
proof -
  obtain r where r: "loadSentTxLog (ls s) txid = Some r"
    using assms by (auto simp: bumpFee_def act_simps split: option.splits)
  obtain rate s1 keys s2 raw outs result s3 j where
    rate: "fetch_fee_rate E s = (Inr rate, s1)" and
    keys: "map_act (\<lambda>inp. ensureKey E (sin_derivationIndex inp)) (sr_inputs r) s1 = (Inr keys, s2)" and
    b: "buildBumpFeeTransaction (e_crypto E) r (bumped_fee rate r) keys = Inr (raw, outs)" and
    sent: "call E (\<lambda>b. gw_broadcast b (bytesToHex raw)) s2 = (Inr result, s3)" and
    fin: "bind (saveSentTxLog (((loadSentTxLog (ls s3))(txid := None))(jtext j \<mapsto>
        \<lparr>sr_inputs = sr_inputs r, sr_outputs = outs, sr_fee = bumped_fee rate r, sr_replacesTxid = Some txid\<rparr>)))
        (\<lambda>_. ret (jtext j)) s3 = (Inr t, s')"
    using assms unfolding bumpFee_def Let_def
    by (clarsimp simp: bind_ok gets_apply lift_apply r split del: if_split) metis
  have s1: "s1 = s\<lparr>requests := requests s @ [gw_feeEstimate (st_gateway s) 6]\<rparr>"
    using rate by (auto simp: fetch_fee_rate_def act_simps split: sum.splits)
  obtain k a where s2: "s2 = s1\<lparr>st_keys := k, st_addresses := a\<rparr>" using map_ensureKey_state [OF keys] by blast
  have s3: "s3 = s2\<lparr>requests := requests s2 @ [gw_broadcast (st_gateway s2) (bytesToHex raw)]\<rparr>"
    using call_state [OF sent] .
  have "t = jtext j" "ls s' = (ls s)\<lparr>ls_sent := Some (((loadSentTxLog (ls s))(txid := None))(jtext j \<mapsto>
        \<lparr>sr_inputs = sr_inputs r, sr_outputs = outs, sr_fee = bumped_fee rate r, sr_replacesTxid = Some txid\<rparr>))\<rparr>"
    "requests s' = requests s3" "st_keys s' = st_keys s2"
    using fin by (auto simp: saveSentTxLog_def act_simps s3 s2 s1)
  then show ?thesis
    using r b rate map_ensureKey_known [OF keys]
    by (intro exI [of _ r] exI [of _ rate] exI [of _ s1] exI [of _ keys] exI [of _ raw] exI [of _ outs])
      (simp add: loadSentTxLog_def s3 s2 s1)
qed

section \<open>Forms with a bad row\<close>

definition bad_row :: "recipient_row \<Rightarrow> bool" where
  "bad_row r \<longleftrightarrow> trim (row_address r) = [] \<or> \<not> truthy (parseFloat (row_amount r)) \<or> le_zero (parseFloat (row_amount r))"

lemma read_bad: "r \<in> set rows \<Longrightarrow> bad_row r \<Longrightarrow> read_recipients rows = Inr None \<or> (\<exists>e. read_recipients rows = Inl e)"
proof (induction rows)
  case (Cons x rows)
  show ?case
  proof (cases "bad_row x")
    case True
    then show ?thesis by (auto simp: bad_row_def Let_def)
  next
    case False
    then have "read_recipients rows = Inr None \<or> (\<exists>e. read_recipients rows = Inl e)" using Cons by auto
    then show ?thesis using False by (cases "to_satoshis (parseFloat (row_amount x))") (auto simp: bad_row_def Let_def)
  qed
qed simp

lemma sendConfirm_bad:
  assumes "r \<in> set (ui_rows (page s))" "bad_row r"
  shows "\<exists>p. snd (sendConfirm E s) = s\<lparr>page := p\<rparr> \<and> ui_text p ''send-success'' = []"
  using read_bad [OF assms] by (auto simp: sendConfirm_def act_simps)

section \<open>A send on the example wallet\<close>

definition demo_destination :: string where
  "demo_destination = (case p2wpkhAddress (replicate 20 7) testnet of Inr a \<Rightarrow> a | Inl e \<Rightarrow> [])"

lemma demo_script: "script_for demo_crypto testnet demo_destination = Inr (p2wpkhScriptPubKey (replicate 20 7))"
  using p2wpkh_decodes [of "replicate 20 7" testnet demo_crypto]
  by (cases "p2wpkhAddress (replicate 20 7) testnet") (simp_all add: script_for_def demo_destination_def)

lemma demo_build:
  "si_privateKey u = Some k \<Longrightarrow> si_publicKey u = Some p \<Longrightarrow>
     \<exists>raw. buildAndSignTransaction demo_crypto [u] outs None None 0 = Inr raw"
  by (simp add: build_eq sign_one_def demo_crypto_def Let_def)

definition demo_utxo :: json where
  "demo_utxo = JObj [(''txid'', JStr ''00''), (''vout'', JNum 1), (''value'', JNum 5000)]"

lemma record_tail:
  "\<exists>s'. bind (recordSentTx a r) (\<lambda>_. bind resetSendRecipients (\<lambda>_. bind updateSendAmountFiat (\<lambda>_. ret x))) s = (Inr x, s')
     \<and> requests s' = requests s"
proof -
  obtain s1 where 1: "recordSentTx a r s = (Inr (), s1)" "requests s1 = requests s"
    by (simp add: recordSentTx_def saveSentTxLog_def act_simps)
  obtain s2 where 2: "resetSendRecipients s1 = (Inr (), s2)" "requests s2 = requests s1"
    using resetSendRecipients_run [of s1] by fastforce
  obtain s3 where 3: "updateSendAmountFiat s2 = (Inr (), s3)" "requests s3 = requests s2"
    using updateSendAmountFiat_run [of s2] by fastforce
  show ?thesis using 1 2 3 by (simp add: bind_apply ret_apply)
qed

lemma demo_send_chosen:
  assumes "st_activeIndex s = 0" "st_keys s = [0 \<mapsto> demo_key]"
  shows "\<exists>s' h. send_chosen demo_env dest fee change [(demo_utxo, 0, 5000)] s = (Inr ''beef'', s')
    \<and> requests s' = requests s @ [gw_broadcast (st_gateway s) h]"
proof -
  define outputs where "outputs = dest @ (if 0 < change
      then [\<lparr>scriptPubKey = p2pkhScriptPubKey (hash160 demo_crypto (publicKey demo_key)), valueSatoshis = num_of_int change\<rparr>]
      else [])"
  define u where "u = \<lparr>si_txid = rev (hexToBytes ''00''), si_vout = 1, si_value = 5000, si_pubkeyHash = hash160 demo_crypto (publicKey demo_key),
    si_privateKey = Some (privateKey demo_key), si_publicKey = Some (publicKey demo_key), si_sequence = None\<rparr>"
  have o: "outpoint demo_utxo = Inr (''00'', 1)"
    by (simp add: outpoint_def demo_utxo_def jget_def jstring_def jnat_def)
  have i: "spend_input demo_crypto (st_keys s) (demo_utxo, 0, 5000) = Inr u"
    by (simp add: spend_input_def assms o u_def num_of_int_exact)
  obtain raw where raw: "buildAndSignTransaction demo_crypto [u] outputs None None 0 = Inr raw"
    using demo_build [of u "privateKey demo_key" "publicKey demo_key" outputs] unfolding u_def by auto
  have key: "ensureKey demo_env 0 s = (Inr demo_key, s)" by (simp add: ensureKey_apply assms)
  have C: "e_crypto demo_env = demo_crypto" by (simp add: demo_env_def)
  have call: "call demo_env (\<lambda>b. gw_broadcast b h) s = (Inr demo_answer, s\<lparr>requests := requests s @ [gw_broadcast (st_gateway s) h]\<rparr>)" for h
    by (simp add: act_simps demo_env_def gw_decode_def)
  have t: "jget demo_answer ''txid'' = Inr (JStr ''beef'')" by (simp add: demo_answer_def jget_def)
  have ins: "mapE (spend_input demo_crypto (st_keys s)) [(demo_utxo, 0, 5000)] = Inr [u]" using i by simp
  have sent: "\<exists>x. mapE sent_input_of [(demo_utxo, 0, 5000)] = Inr x" using o by (simp add: sent_input_of_def)
  then obtain x where x: "mapE sent_input_of [(demo_utxo, 0, 5000)] = Inr x" ..
  define s2 where "s2 = s\<lparr>requests := requests s @ [gw_broadcast (st_gateway s) (bytesToHex raw)],
    page := (page s)\<lparr>ui_text := (ui_text (page s))(''send-success'' := ''Broadcast: '' @ ''beef'')\<rparr>\<rparr>"
  have s2: "setText ''send-success'' (''Broadcast: '' @ ''beef'')
      (s\<lparr>requests := requests s @ [gw_broadcast (st_gateway s) (bytesToHex raw)]\<rparr>) = (Inr (), s2)"
    by (simp add: setText_apply s2_def)
  obtain s' where "send_chosen demo_env dest fee change [(demo_utxo, 0, 5000)] s = (Inr ''beef'', s')" "requests s' = requests s2"
    using record_tail [of "''beef''" "\<lparr>sr_inputs = x, sr_outputs = sent_outputs (0 < change) 0 outputs,
        sr_fee = num_of_int fee, sr_replacesTxid = None\<rparr>" "''beef''" s2]
    unfolding send_chosen_def Let_def C
    by (simp only: bind_apply [of "gets _"] bind_apply [of "lift _"] bind_apply [of "ensureKey _ _"]
        bind_apply [of "call _ _"] bind_apply [of "setText _ _"] gets_apply lift_apply assms(1) key ins raw call t x
        s2 outputs_def [symmetric] prod.case sum.case jtext.simps) blast
  then show ?thesis by (auto simp: s2_def)
qed

definition demo_send_row :: recipient_row where
  "demo_send_row = \<lparr>row_id = 0, row_address = demo_destination, row_amount = ''0.00001'', row_removeDisplay = []\<rparr>"

definition demo_form :: app where
  "demo_form = demo_app\<lparr>page := initial_page\<lparr>ui_rows := [demo_send_row]\<rparr>\<rparr>"

lemma demo_send:
  "\<exists>s' h. send_transaction demo_env [\<lparr>rc_address = demo_destination, rc_amount = 1000\<rparr>] (demo_app\<lparr>page := p\<rparr>) = (Inr (Some ''beef''), s')
     \<and> gw_broadcast [] h \<in> set (requests s')"
proof -
  let ?start = "demo_app\<lparr>page := p\<rparr>"
  let ?gathered = "?start\<lparr>requests := [gw_utxos [] ''m'']\<rparr>" and ?estimated = "?start\<lparr>requests := [gw_utxos [] ''m'', gw_feeEstimate [] 6]\<rparr>"
  have f: "fetch_fee_rate demo_env ?gathered = (Inr 1000, ?estimated)"
    by (simp add: fetch_fee_rate_def act_simps demo_env_def gw_decode_def demo_answer_def jget_def jBigInt_def to_BigInt_def
        demo_app_def initial_state_def)
  have g: "gatherAllUtxos demo_env ?start = (Inr [(demo_utxo, 0)], ?gathered)"
    by (simp add: gatherAllUtxos_def act_simps demo_app_def initial_state_def demo_store_def demo_env_def gw_decode_def
        demo_answer_def demo_utxo_def jget_def jlist_def address_of_def in_template_def)
  have n: "current_network ?start = (Inr testnet, ?start)"
    by (simp add: act_simps demo_app_def initial_state_def demo_store_def NETWORKS_def)
  have d: "mapE (dest_output (e_crypto demo_env) testnet) [\<lparr>rc_address = demo_destination, rc_amount = 1000\<rparr>]
      = Inr [\<lparr>scriptPubKey = p2wpkhScriptPubKey (replicate 20 7), valueSatoshis = 1000\<rparr>]"
    using demo_script by (simp add: dest_output_def demo_env_def num_of_int_exact)
  have sel: "select_coins (\<lambda>n. fee_for 1000 (send_vsize n 2)) 1000 [(demo_utxo, 0)] [] 0 = Inr ([(demo_utxo, 0, 5000)], 5000)"
    by (simp add: demo_utxo_def jget_def jBigInt_def to_BigInt_def fee_for_def send_vsize_def signed_divide_int_def)
  define R where "R = [\<lparr>rc_address = demo_destination, rc_amount = 1000 :: int\<rparr>]"
  have R: "length R + 1 = 2" "sum_list (map rc_amount R) = 1000" by (simp_all add: R_def)
  let ?s = "?estimated\<lparr>st_sendFeeMinRate := Some 1000\<rparr>"
  have s: "st_activeIndex ?s = 0" "st_keys ?s = [0 \<mapsto> demo_key]" "st_sendFeeRateOverride ?s = None" "st_gateway ?s = []"
    by (simp_all add: demo_app_def initial_state_def)
  have fee: "\<not> 5000 < 1000 + fee_for 1000 (send_vsize (length [(demo_utxo, 0 :: nat, 5000 :: int)]) 2)"
    by (simp add: fee_for_def send_vsize_def signed_divide_int_def)
  obtain s' h where c: "send_chosen demo_env [\<lparr>scriptPubKey = p2wpkhScriptPubKey (replicate 20 7), valueSatoshis = 1000\<rparr>]
      (fee_for 1000 (send_vsize (length [(demo_utxo, 0 :: nat, 5000 :: int)]) 2))
      (5000 - 1000 - fee_for 1000 (send_vsize (length [(demo_utxo, 0 :: nat, 5000 :: int)]) 2)) [(demo_utxo, 0, 5000)] ?s = (Inr ''beef'', s')"
    "requests s' = requests ?s @ [gw_broadcast (st_gateway ?s) h]"
    using demo_send_chosen [OF s(1,2)] by blast
  have "send_transaction demo_env R ?start = (Inr (Some ''beef''), s')"
    unfolding send_transaction_def Let_def
    by (simp only: bind_apply gets_apply lift_apply modify_apply ret_apply n d [folded R_def] g f s(3) R sel fee c(1)
        prod.case sum.case option.case if_False)
  then show ?thesis using c(2) s(4) by (intro exI [of _ s'] exI [of _ h]) (simp add: R_def)
qed

lemma charset_at_chars: "set (charset_at d) \<subseteq> set BECH32_CHARSET"
  by (cases "0 \<le> d"; cases "nat d < 32") (simp_all add: charset_at_def js_get_def)

lemma demo_destination_text: "trim demo_destination = demo_destination" "demo_destination \<noteq> []"
proof -
  obtain a where a: "p2wpkhAddress (replicate 20 7) testnet = Inr a"
    using p2wpkh_decodes [of "replicate 20 7" testnet demo_crypto] by (auto simp: bindE_eq_Inr)
  then obtain prog where "a = bech32Encode ''tcac'' ([0] @ prog)" by (auto simp: p2wpkhAddress_def bindE_eq_Inr network_simps)
  then have "a = ''tcac1'' @ concat (map charset_at (([0] @ prog) @ bech32CreateChecksum ''tcac'' ([0] @ prog)))"
    unfolding bech32Encode_def Let_def by simp
  then obtain ds where "a = ''tcac1'' @ concat (map charset_at ds)" ..
  then have d: "demo_destination = ''tcac1'' @ concat (map charset_at ds)" by (simp add: demo_destination_def a)
  show "demo_destination \<noteq> []" unfolding d by simp
  have "list_all (\<lambda>c. \<not> is_space c) BECH32_CHARSET" by (simp add: BECH32_CHARSET_def is_space_def code_unit_def)
  then have "\<not> is_space c" if "c \<in> set (concat (map charset_at ds))" for c
    using that charset_at_chars by (fastforce simp: list_all_iff)
  then show "trim demo_destination = demo_destination"
    unfolding d by (intro trim_no_space) (auto simp: is_space_def code_unit_def)
qed

lemma demo_amount: "to_satoshis (parseFloat ''0.00001'') = Inr 1000" "truthy (parseFloat ''0.00001'')" "\<not> le_zero (parseFloat ''0.00001'')"
proof -
  have t: "digits ''0''" "digits ''00001''" by (simp_all add: is_digit_def digit_val_def code_unit_def)
  have n: "satoshis_of ''0'' ''00001'' = 1000"
    by (simp add: satoshis_of_def dec_num_def digit_val_def code_unit_def from_digits_def)
  define x :: rat where "x = fl (of_int 1000 / 10 ^ 8)"
  have p: "0 < x" "x \<le> 3 * 10 ^ 7" using amount_shortest(1,2) [of 1000] unfolding x_def by simp_all
  then have "parseFloat ''0.00001'' = Fin x"
    using parseFloat_decimal [OF t] n to_double_Fin [of "of_int 1000 / 10 ^ 8"] by (simp add: x_def)
  then show "truthy (parseFloat ''0.00001'')" "\<not> le_zero (parseFloat ''0.00001'')"
    using p by (simp_all add: truthy_def le_zero_def)
  show "to_satoshis (parseFloat ''0.00001'') = Inr 1000"
    using parseFloat_decimal [OF t] n to_satoshis_exact [of 1000] by simp
qed

lemma demo_confirm:
  "\<exists>s' h. sendConfirm demo_env demo_form = (Inr (), s') \<and> gw_broadcast [] h \<in> set (requests s')"
proof -
  have r: "read_recipients (ui_rows (page (cleared demo_form))) = Inr (Some [\<lparr>rc_address = demo_destination, rc_amount = 1000\<rparr>])"
    using demo_amount demo_destination_text by (simp add: demo_form_def cleared_simps demo_send_row_def Let_def)
  obtain p where p: "cleared demo_form = demo_app\<lparr>page := p\<rparr>" by (simp add: cleared_def setText_apply demo_form_def)
  obtain s' h where s': "send_transaction demo_env [\<lparr>rc_address = demo_destination, rc_amount = 1000\<rparr>] (cleared demo_form)
      = (Inr (Some ''beef''), s')" "gw_broadcast [] h \<in> set (requests s')"
    using demo_send unfolding p by blast
  have c: "bind (setText ''send-error'' []) (\<lambda>_. bind (setText ''send-success'' []) (\<lambda>_. f)) demo_form = f (cleared demo_form)" for f :: "unit act"
    by (simp add: bind_apply setText_apply cleared_def)
  have "sendConfirm demo_env demo_form = (Inr (), s')"
    unfolding sendConfirm_def c
    by (simp only: bind_apply gets_apply lift_apply r try_catch_apply s'(1) ret_apply prod.case sum.case option.case)
  then show ?thesis using s'(2) by blast
qed

section \<open>Properties\<close>

text \<open>
  The fee control stays between the recommended rate and fifty times it: whatever rate is asked
  for, the rate in effect afterwards is that rate clamped to this range, and the field shows it.
\<close>

theorem setSendFeeRate_clamps:
  assumes "st_sendFeeMinRate s = Some mn" and "0 \<le> mn" and "setSendFeeRate rate s = (res, s')"
  shows "res = Inr () \<and> effectiveSendFeeRate s' = max mn (min (mn * 50) rate)
    \<and> ui_field (page s') ''send-fee-rate'' = dec_int (effectiveSendFeeRate s')"
  using setSendFeeRate_run [OF assms(1,2), of rate] assms(1,3)
  by (auto simp: act_simps effectiveSendFeeRate_def)

theorem setSendFeeRate_clamps_witness:
  "effectiveSendFeeRate (snd (setSendFeeRate 700 (demo_app\<lparr>st_sendFeeMinRate := Some 10\<rparr>))) = 500"
  using setSendFeeRate_clamps [of "demo_app\<lparr>st_sendFeeMinRate := Some 10\<rparr>" 10 700 "fst (setSendFeeRate 700 (demo_app\<lparr>st_sendFeeMinRate := Some 10\<rparr>))"
      "snd (setSendFeeRate 700 (demo_app\<lparr>st_sendFeeMinRate := Some 10\<rparr>))"]
  by simp

text \<open>
  C23: Coin selection takes the shortest sufficient prefix of the unspent outputs. When it returns,
  the chosen outputs are a prefix in the given order with the values the gateway reported, their
  total is the reported sum, no shorter non-empty prefix covers amount and fee, and when even the
  total does not cover them, every output was taken.
\<close>

theorem select_coins_shortest:
  assumes "select_coins fee amount us [] 0 = Inr (chosen, tot)"
  shows "tot = sum_list (map (\<lambda>(u, i, v). v) chosen)
    \<and> map (\<lambda>(u, i, v). (u, i)) chosen = take (length chosen) us
    \<and> (\<forall>(u, i, v)\<in>set chosen. bindE (jget u ''value'') jBigInt = Inr v)
    \<and> (\<forall>k. 0 < k \<and> k < length chosen \<longrightarrow> sum_list (map (\<lambda>(u, i, v). v) (take k chosen)) < amount + fee k)
    \<and> (tot < amount + fee (length chosen) \<longrightarrow> length chosen = length us)"
  using select_coins_spec [OF assms] by auto

theorem select_coins_shortest_witness:
  "select_coins (\<lambda>n. 10 * int n) 900 [(JObj [(''value'', JNum 500)], 0), (JObj [(''value'', JNum 600)], 3), (demo_utxo, 0)] [] 0
     = Inr ([(JObj [(''value'', JNum 500)], 0, 500), (JObj [(''value'', JNum 600)], 3, 600)], 1100)
   \<and> sum_list (map (\<lambda>(u :: json, i :: nat, v). v) [(JObj [(''value'', JNum 500)], 0, 500 :: int)]) < 900 + 10 * int 1"
proof -
  have s: "select_coins (\<lambda>n. 10 * int n) 900 [(JObj [(''value'', JNum 500)], 0), (JObj [(''value'', JNum 600)], 3), (demo_utxo, 0)] [] 0
     = Inr ([(JObj [(''value'', JNum 500)], 0, 500), (JObj [(''value'', JNum 600)], 3, 600)], 1100)"
    by (simp add: jget_def jBigInt_def to_BigInt_def)
  note k = select_coins_shortest [OF s, THEN conjunct2, THEN conjunct2, THEN conjunct2, THEN conjunct1]
  show ?thesis using s k [THEN spec [of _ 1]] by simp
qed

text \<open>
  C4: A send pays exactly what was typed and conserves money. Whenever the confirm handler sends a
  request that is not a GET, however it ends, that request is one broadcast, the last request it
  makes, of a transaction built as follows. The coins spent are a prefix of the unspent outputs
  that the gateway reported for the wallet's addresses, each with the reported outpoint and value
  and the key of its address. Every row of the form is paid, in order, by an output with the script
  of the address typed and the number of satoshis typed. The fee is the ceiling of rate times
  estimated size, at the gateway's current rate or the user's higher one. The values of the coins
  are exactly the typed amounts, the fee and the change, and the change, when there is any, goes to
  the script of the key of the active address. The log gains exactly this transaction under the id
  the gateway answers, or stays as it was when the gateway gives none. Amounts are signed as
  Numbers: when each of them is at most \<open>2^53\<close> nothing is rounded and the inputs signed are worth
  exactly the outputs and the fee.
\<close>

theorem send_conserves:
  assumes "sendConfirm E s = (res, s')" and "\<not> list_all is_get (drop (length (requests s)) (requests s'))"
  shows "\<exists>net us s1 minRate s2 qs chosen fee change key inputs dest raw sent.
    NETWORKS (st_network s) = Some net
  \<and> gatherAllUtxos E (cleared s) = (Inr us, s1) \<and> fetch_fee_rate E s1 = (Inr minRate, s2)
  \<and> map (\<lambda>(u, i, v). (u, i)) chosen = take (length chosen) us
  \<and> (\<forall>(u, i, v)\<in>set chosen. bindE (jget u ''value'') jBigInt = Inr v)
  \<and> fee = ((case st_sendFeeRateOverride s of None \<Rightarrow> minRate | Some r \<Rightarrow> max minRate r)
        * (10 + 148 * int (length chosen) + 34 * int (length (ui_rows (page s)) + 1)) + 999) sdiv 1000
  \<and> 0 \<le> change
  \<and> sum_list (map (\<lambda>(u, i, v). v) chosen) = sum_list (map typed_satoshis (ui_rows (page s))) + fee + change
  \<and> st_keys s' (st_activeIndex s) = Some key
  \<and> list_all2 (spends_coin (e_crypto E) (st_keys s')) chosen inputs \<and> list_all2 (pays_row (e_crypto E) net) (ui_rows (page s)) dest
  \<and> buildAndSignTransaction (e_crypto E) inputs (dest @ change_output (e_crypto E) key change) None None 0 = Inr raw
  \<and> requests s2 = requests s @ qs \<and> list_all is_get qs
  \<and> requests s' = requests s2 @ [gw_broadcast (st_gateway s) (bytesToHex raw)]
  \<and> list_all2 records_coin chosen sent
  \<and> loadSentTxLog (ls s') =
      (case broadcast_id E (requests s2) (gw_broadcast (st_gateway s) (bytesToHex raw)) of
         Inl e \<Rightarrow> loadSentTxLog (ls s)
       | Inr t \<Rightarrow> (loadSentTxLog (ls s))(jtext t \<mapsto> \<lparr>sr_inputs = sent,
           sr_outputs = map (\<lambda>out. \<lparr>so_scriptPubKeyHex = bytesToHex (scriptPubKey out), so_value = valueSatoshis out,
                so_isChange = False, so_changeIndex = None\<rparr>) dest
             @ map (\<lambda>out. \<lparr>so_scriptPubKeyHex = bytesToHex (scriptPubKey out), so_value = valueSatoshis out,
                so_isChange = True, so_changeIndex = Some (st_activeIndex s)\<rparr>) (change_output (e_crypto E) key change),
           sr_fee = num_of_int fee, sr_replacesTxid = None\<rparr>))
  \<and> ((\<forall>n\<in>set (change # map typed_satoshis (ui_rows (page s)) @ map (\<lambda>(u, i, v). v) chosen). \<bar>n\<bar> \<le> 2 ^ 53) \<longrightarrow>
      sum_list (map si_value inputs) = sum_list (map valueSatoshis (dest @ change_output (e_crypto E) key change)) + fee)"
  using assms by (intro send_payment) auto

theorem send_conserves_witness:
  "\<exists>s' key inputs dest change. sendConfirm demo_env demo_form = (Inr (), s') \<and> st_keys s' 0 = Some key
     \<and> list_all2 (pays_row demo_crypto testnet) [demo_send_row] dest
     \<and> (\<exists>raw. buildAndSignTransaction demo_crypto inputs (dest @ change_output demo_crypto key change) None None 0 = Inr raw)"
proof -
  obtain s' h where s': "sendConfirm demo_env demo_form = (Inr (), s')" "gw_broadcast [] h \<in> set (requests s')"
    using demo_confirm by blast
  have d: "st_activeIndex demo_form = 0" "NETWORKS (st_network demo_form) = Some testnet" "ui_rows (page demo_form) = [demo_send_row]"
    "requests demo_form = []" "e_crypto demo_env = demo_crypto"
    by (simp_all add: demo_form_def demo_app_def initial_state_def demo_store_def NETWORKS_def demo_env_def)
  have "\<not> is_get (gw_broadcast [] h)" by (simp add: gw_defs gw_post_def)
  then have p: "\<not> list_all is_get (drop (length (requests demo_form)) (requests s'))"
    using s'(2) d(4) by (auto simp: list_all_iff)
  obtain net key inputs dest change raw where "Some testnet = Some net" "st_keys s' 0 = Some key"
    "list_all2 (pays_row demo_crypto net) [demo_send_row] dest"
    "buildAndSignTransaction demo_crypto inputs (dest @ change_output demo_crypto key change) None None 0 = Inr raw"
    using send_conserves [OF s'(1) p] unfolding d by (elim exE conjE) (rule that; assumption)
  then show ?thesis using s'(1) by blast
qed

text \<open>
  C24: A form with an empty address or an amount that is not a positive number sends nothing: no
  request is made, nothing is stored, and only the page changes, without a success message.
\<close>

theorem sendConfirm_rejects_bad_rows:
  assumes "r \<in> set (ui_rows (page s))" and "bad_row r"
  shows "\<exists>p. snd (sendConfirm E s) = s\<lparr>page := p\<rparr> \<and> ui_text p ''send-success'' = []"
  using assms by (rule sendConfirm_bad)

definition demo_row :: recipient_row where
  "demo_row = \<lparr>row_id = 0, row_address = ''CAC'', row_amount = ''x'', row_removeDisplay = []\<rparr>"

theorem sendConfirm_rejects_bad_rows_witness:
  "\<exists>p. snd (sendConfirm demo_env (demo_app\<lparr>page := initial_page\<lparr>ui_rows := [demo_row]\<rparr>\<rparr>))
     = demo_app\<lparr>page := p\<rparr> \<and> ui_text p ''send-success'' = []"
  using sendConfirm_rejects_bad_rows [of demo_row "demo_app\<lparr>page := initial_page\<lparr>ui_rows := [demo_row]\<rparr>\<rparr>" demo_env]
  by (simp add: demo_row_def bad_row_def parseFloat_def parse_unsigned_def is_space_def code_unit_def is_digit_def
      digit_val_def startsWith_Cons truthy_def)

text \<open>
  C22: A fee bump replaces a logged transaction at a higher fee. When it returns, the transaction was
  in the log; its rebuilt version, signed with the wallet's keys of the recorded inputs, was the only
  thing broadcast, after one fee estimate; the log has the new transaction, with its new fee and
  outputs and the id it replaces, in place of the old one. For a logged fee of at most \<open>2^51\<close>
  satoshis the new fee is the larger of one and a half times the old fee, rounded up to a whole
  satoshi, and the fee of the gateway's current rate for the estimated size; so it is at least
  one and a half times the old one.
\<close>

theorem bumpFee_replaces:
  assumes "bumpFee E txid s = (Inr t, s')"
  shows "\<exists>r rate s1 keys raw outs newFee. loadSentTxLog (ls s) txid = Some r \<and> fetch_fee_rate E s = (Inr rate, s1)
    \<and> list_all2 (\<lambda>inp key. st_keys s' (sin_derivationIndex inp) = Some key) (sr_inputs r) keys
    \<and> buildBumpFeeTransaction (e_crypto E) r newFee keys = Inr (raw, outs)
    \<and> loadSentTxLog (ls s') = ((loadSentTxLog (ls s))(txid := None))
        (t \<mapsto> \<lparr>sr_inputs = sr_inputs r, sr_outputs = outs, sr_fee = newFee, sr_replacesTxid = Some txid\<rparr>)
    \<and> requests s' = requests s @ [gw_feeEstimate (st_gateway s) 6, gw_broadcast (st_gateway s) (bytesToHex raw)]
    \<and> (0 \<le> sr_fee r \<and> sr_fee r \<le> 2 ^ 51 \<longrightarrow>
         newFee = max (num_of_int ((rate * (10 + 148 * int (length (sr_inputs r)) + 34 * int (length (sr_outputs r))) + 999) sdiv 1000))
           ((3 * sr_fee r + 1) div 2)
       \<and> 3 * sr_fee r \<le> 2 * newFee)"
proof -
  have "3 * sr_fee r \<le> 2 * bumped_fee rate r" if "0 \<le> sr_fee r" "sr_fee r \<le> 2 ^ 51" for r rate
    unfolding bumped_fee_exact [OF that] by linarith
  then show ?thesis using bumpFee_run [OF assms] bumped_fee_exact by meson
qed

definition demo_bump_app :: app where
  "demo_bump_app = demo_app\<lparr>ls := demo_store\<lparr>ls_sent := Some [''aa'' \<mapsto> demo_record]\<rparr>\<rparr>"

lemma demo_fee_rate:
  "fetch_fee_rate demo_env s = (Inr 1000, s\<lparr>requests := requests s @ [gw_feeEstimate (st_gateway s) 6]\<rparr>)"
  by (simp add: fetch_fee_rate_def act_simps demo_env_def gw_decode_def demo_answer_def jget_def jBigInt_def to_BigInt_def)

lemma demo_bumped_fee: "bumped_fee 1000 demo_record = 1500"
proof -
  have "fl 1500 = 1500" "\<lfloor>3001 / 2 :: rat\<rfloor> = 1500"
    using fl_int_exact [of 1500] by (simp_all add: floor_eq_iff)
  then show ?thesis
    by (simp add: bumped_fee_def demo_record_def send_vsize_def fee_for_def signed_divide_int_def num_of_int_exact Let_def)
qed

lemma demo_bump: "fst (bumpFee demo_env ''aa'' demo_bump_app) = Inr ''beef''"
proof -
  have num: "num_of_int 500 = 500" "num_of_int 2500 = 2500" by (rule num_of_int_exact, simp)+
  obtain raw outs where b: "buildBumpFeeTransaction (e_crypto demo_env) demo_record 1500 [demo_key] = Inr (raw, outs)"
    by (simp add: buildBumpFeeTransaction_def demo_record_def num build_eq sign_one_def bump_input_def
        set_change_def demo_crypto_def demo_env_def demo_key_def Let_def)
  let ?s = "demo_bump_app\<lparr>requests := [gw_feeEstimate [] 6]\<rparr>"
  have l: "loadSentTxLog (ls demo_bump_app) ''aa'' = Some demo_record" by (simp add: loadSentTxLog_def demo_bump_app_def)
  have f: "fetch_fee_rate demo_env demo_bump_app = (Inr 1000, ?s)"
    unfolding demo_fee_rate by (simp add: demo_bump_app_def demo_app_def initial_state_def)
  have k: "map_act (\<lambda>inp. ensureKey demo_env (sin_derivationIndex inp)) (sr_inputs demo_record) ?s = (Inr [demo_key], ?s)"
    by (simp add: demo_record_def act_simps ensureKey_apply demo_bump_app_def demo_app_def)
  have c: "call demo_env mk s = (Inr demo_answer, s\<lparr>requests := requests s @ [mk (st_gateway s)]\<rparr>)" for mk s
    by (simp add: act_simps demo_env_def gw_decode_def)
  have t: "jget demo_answer ''txid'' = Inr (JStr ''beef'')" by (simp add: demo_answer_def jget_def)
  show ?thesis
    unfolding bumpFee_def Let_def
    by (simp only: bind_apply gets_apply lift_apply ret_apply l f k b c t demo_bumped_fee saveSentTxLog_def modify_ls_def
        modify_apply prod.case sum.case option.case fst_conv jtext.simps)
qed

theorem bumpFee_replaces_witness:
  "\<exists>keys raw outs newFee. buildBumpFeeTransaction (e_crypto demo_env) demo_record newFee keys = Inr (raw, outs)
    \<and> 3 * 1000 \<le> 2 * newFee"
proof -
  have b: "bumpFee demo_env ''aa'' demo_bump_app = (Inr ''beef'', snd (bumpFee demo_env ''aa'' demo_bump_app))"
    by (metis demo_bump prod.collapse)
  have l: "loadSentTxLog (ls demo_bump_app) ''aa'' = Some demo_record" by (simp add: loadSentTxLog_def demo_bump_app_def)
  obtain r keys raw outs newFee where r: "loadSentTxLog (ls demo_bump_app) ''aa'' = Some r"
    "buildBumpFeeTransaction (e_crypto demo_env) r newFee keys = Inr (raw, outs)"
    "0 \<le> sr_fee r \<Longrightarrow> sr_fee r \<le> 2 ^ 51 \<Longrightarrow> 3 * sr_fee r \<le> 2 * newFee"
    using bumpFee_replaces [OF b] by blast
  have "sr_fee demo_record = 1000" by (simp add: demo_record_def)
  moreover have "r = demo_record" using r(1) l by simp
  ultimately show ?thesis using r(2,3) by (intro exI [of _ keys] exI [of _ raw] exI [of _ outs] exI [of _ newFee]) simp
qed

end
