(* ===== verification/History.thy ===== *)
theory History
  imports Send "HOL-Library.Option_ord" "HOL-Library.Multiset"
begin

text \<open>
  The History screen of web-wallet/app.js: the combined history of all addresses, the polling for
  new transactions with its banner, the CSV export and the transaction detail with the fee bump
  button. The properties: the combined history is the duplicate-free union of what the gateway
  answered, newest first; the banner counts exactly the transactions not seen before; a CSV reader
  recovers the exported table.
\<close>

section \<open>Definitions\<close>

subsection \<open>The combined history\<close>

text \<open>An entry of a history answer: heights and fees are integers, or missing.\<close>

definition json_int :: "json \<Rightarrow> int option res" where
  "json_int j = (if jnullish j then Inr None else bindE (jBigInt j) (\<lambda>n. Inr (Some n)))"

definition hist_entry :: "json \<Rightarrow> hist_tx res" where
  "hist_entry t =
     bindE (bindE (jget t ''txid'') jstring) (\<lambda>i.
     bindE (bindE (jget t ''height'') json_int) (\<lambda>h.
     bindE (bindE (jget t ''fee'') json_int) (\<lambda>f.
       Inr \<lparr>ht_txid = i, ht_height = h, ht_fee = f\<rparr>)))"

definition hist_answer :: "json \<Rightarrow> hist_tx list res" where
  "hist_answer resp = bindE (jget resp ''transactions'') (\<lambda>l. bindE (jlist l) (mapE hist_entry))"

text \<open>The inner loop, on the set of seen ids and the list so far.\<close>

fun add_unseen :: "hist_tx list \<Rightarrow> string set \<times> hist_tx list \<Rightarrow> string set \<times> hist_tx list" where
  "add_unseen [] acc = acc"
| "add_unseen (t # ts) (seen, allTxs) =
     (if ht_txid t \<in> seen then add_unseen ts (seen, allTxs)
      else add_unseen ts (insert (ht_txid t) seen, allTxs @ [t]))"

fun gather_history :: "env \<Rightarrow> nat list \<Rightarrow> string set \<times> hist_tx list \<Rightarrow> (string set \<times> hist_tx list) act" where
  "gather_history E [] acc = ret acc"
| "gather_history E (idx # is) acc =
     bind (address_of idx) (\<lambda>a.
     bind (call E (\<lambda>b. gw_history b a 50)) (\<lambda>resp.
     bind (lift (hist_answer resp)) (\<lambda>ts. gather_history E is (add_unseen ts acc))))"

text \<open>
  The comparison of \<open>sort\<close>: a missing height counts as infinite, and equal heights (infinities
  included, whose difference is NaN) keep their order.
\<close>

definition newest_key :: "hist_tx \<Rightarrow> int option" where
  "newest_key t = map_option uminus (ht_height t)"

definition fetchCombinedHistory :: "env \<Rightarrow> hist_tx list act" where
  "fetchCombinedHistory E =
     bind (gets st_addressIndices) (\<lambda>is.
     bind (gather_history E is ({}, [])) (\<lambda>(seen, allTxs).
     ret (sort_key newest_key allTxs)))"

definition seenTxids :: "hist_tx list \<Rightarrow> unit act" where
  "seenTxids txs = modify (\<lambda>s. s\<lparr>st_seenTxids :=
     Some ((case st_seenTxids s of None \<Rightarrow> {} | Some x \<Rightarrow> x) \<union> ht_txid ` set txs)\<rparr>)"

definition tx_row_html :: "hist_tx \<Rightarrow> string" where
  "tx_row_html t = ''<div class=\"tx-row mono\" data-txid=\"'' @ ht_txid t @ ''\">'' @ ht_txid t
     @ ''<br><span class=\"notice\">''
     @ (case ht_height t of None \<Rightarrow> ''Pending'' | Some h \<Rightarrow> if h = 0 then ''Pending'' else ''Height '' @ dec_int h)
     @ ''</span></div>''"

definition loadHistory :: "env \<Rightarrow> unit act" where
  "loadHistory E = seqs
     [setHtml ''history-list'' ''<p class=\"notice\">Loading...</p>'',
      try_catch
        (bind (fetchCombinedHistory E) (\<lambda>allTxs. seqs
           [modify (\<lambda>s. s\<lparr>st_lastHistory := Some allTxs\<rparr>),
            seenTxids allTxs,
            if allTxs = [] then setHtml ''history-list'' ''<p class=\"notice\">No transactions yet.</p>''
            else seqs [setHtml ''history-list'' (concat (map tx_row_html allTxs)),
                       modify_page (\<lambda>p. p\<lparr>ui_txRows := map ht_txid allTxs\<rparr>)]]))
        (\<lambda>e. setHtml ''history-list'' (''<p class=\"error\">''
           @ (case e of GatewayErr c m \<Rightarrow> m | _ \<Rightarrow> ''Could not reach the network.'') @ ''</p>''))]"

subsection \<open>Polling for new transactions\<close>

definition stopTxPolling :: "unit act" where
  "stopTxPolling = modify (\<lambda>s. if v_txPolling s then s\<lparr>v_txPolling := False\<rparr> else s)"

definition startTxPolling :: "unit act" where
  "startTxPolling = seqs [stopTxPolling, modify (\<lambda>s. s\<lparr>v_txPolling := True\<rparr>)]"

definition showNewTxBanner :: "nat \<Rightarrow> unit act" where
  "showNewTxBanner n = seqs
     [setText ''new-tx-banner-text'' (if n = 1 then ''1 new transaction'' else dec n @ '' new transactions''),
      setDisplay ''new-tx-banner'' ''flex'']"

text \<open>\<open>!state.mnemonic\<close>\<close>

definition unlocked :: "app \<Rightarrow> bool" where
  "unlocked s \<longleftrightarrow> (case st_mnemonic s of None \<Rightarrow> False | Some m \<Rightarrow> m \<noteq> [])"

definition checkForNewTx :: "env \<Rightarrow> unit act" where
  "checkForNewTx E =
     bind (gets unlocked) (\<lambda>u.
       if \<not> u then ret ()
       else try_catch
         (bind (fetchCombinedHistory E) (\<lambda>allTxs.
          bind (gets st_seenTxids) (\<lambda>known.
            case known of
              None \<Rightarrow> seenTxids allTxs
            | Some seen \<Rightarrow>
                let newOnes = filter (\<lambda>t. ht_txid t \<notin> seen) allTxs
                in seqs [seenTxids allTxs,
                         if 0 < length newOnes then showNewTxBanner (length newOnes) else ret ()])))
         (\<lambda>e. ret ()))"

definition newTxDismiss :: "unit act" where
  "newTxDismiss = setDisplay ''new-tx-banner'' ''none''"

subsection \<open>CSV export\<close>

definition csv_row :: "hist_tx \<Rightarrow> string list" where
  "csv_row t = [ht_txid t,
     (case ht_height t of Some h \<Rightarrow> if 0 < h then ''confirmed'' else ''pending'' | None \<Rightarrow> ''pending''),
     (case ht_height t of None \<Rightarrow> [] | Some h \<Rightarrow> dec_int h),
     (case ht_fee t of None \<Rightarrow> [] | Some f \<Rightarrow> dec_int f)]"

definition csv_header :: "string list" where
  "csv_header = [''txid'', ''status'', ''height'', ''fee_satoshis'']"

definition exportCsv :: "unit act" where
  "exportCsv =
     bind (gets st_lastHistory) (\<lambda>l.
       let txs = (case l of None \<Rightarrow> [] | Some ts \<Rightarrow> ts)
       in if txs = [] then ret () else emit (Downloaded (csv_text (csv_header # map csv_row txs))))"

subsection \<open>Transaction detail\<close>

definition vin_row :: "json \<Rightarrow> (string \<times> string) res" where
  "vin_row vin =
     bindE (jget vin ''coinbase'') (\<lambda>c.
       if jtruthy c then Inr (''Input'', ''coinbase'')
       else bindE (bindE (jget vin ''txid'') jstring) (\<lambda>t.
            bindE (jget vin ''vout'') (\<lambda>v. Inr (''Input'', js_slice t 0 16 @ ''...:'' @ jtext v))))"

definition vout_row :: "json \<Rightarrow> (string \<times> string) res" where
  "vout_row vout =
     bindE (jget vout ''scriptPubKey'') (\<lambda>sp.
     bindE (jget vout ''value'') (\<lambda>v.
       let addr = jor (jget_opt sp ''address'') (jor (jfirst_opt (jget_opt sp ''addresses'')) (JStr ''(non-standard output)''))
       in Inr (''Output'', jtext addr @ '': '' @ jtext v @ '' CAC'')))"

definition tx_rows :: "json \<Rightarrow> (string \<times> string) list res" where
  "tx_rows tx =
     bindE (jget tx ''txid'') (\<lambda>i.
     bindE (jget tx ''height'') (\<lambda>h.
     bindE (jget tx ''confirmations'') (\<lambda>n.
     bindE (jget tx ''is_coinstake'') (\<lambda>cs.
     bindE (jget tx ''reward_satoshis'') (\<lambda>reward.
     bindE (if jtruthy cs \<and> \<not> jnullish reward
            then bindE (jBigInt reward) (\<lambda>r. Inr [(''Type'', ''Staking reward (coinstake)''), (''Reward'', formatCac r @ '' CAC'')])
            else Inr []) (\<lambda>stake.
     bindE (bindE (jget tx ''vin'') jlist) (\<lambda>vins.
     bindE (mapE vin_row vins) (\<lambda>ins.
     bindE (bindE (jget tx ''vout'') jlist) (\<lambda>vouts.
     bindE (mapE vout_row vouts) (\<lambda>outs.
       Inr ([(''Txid'', jtext i),
             (''Status'', if jtruthy h then ''Confirmed, height '' @ jtext h @ '' ('' @ jtext n @ '' confirmations)'' else ''Pending'')]
            @ stake @ ins @ outs)))))))))))"

definition kv_row_html :: "string \<times> string \<Rightarrow> string" where
  "kv_row_html kv = ''<div class=\"kv-row\"><span>'' @ escapeHtml (fst kv) @ ''</span><span class=\"mono\">''
     @ escapeHtml (snd kv) @ ''</span></div>''"

definition openTxDetail :: "env \<Rightarrow> string \<Rightarrow> unit act" where
  "openTxDetail E txid = seqs
     [setDisplay ''tx-detail-overlay'' ''flex'',
      setDisplay ''btn-tx-detail-bump-fee'' ''none'',
      setText ''tx-detail-bump-error'' [],
      setText ''tx-detail-bump-success'' [],
      setHtml ''tx-detail-body'' ''<p class=\"notice\">Loading...</p>'',
      try_catch
        (bind (call E (\<lambda>b. gw_tx b txid)) (\<lambda>tx.
         bind (lift (jget tx ''height'')) (\<lambda>h.
         bind (gets (\<lambda>s. loadSentTxLog (ls s) txid)) (\<lambda>r. seqs
           [if \<not> jtruthy h \<and> r \<noteq> None
            then seqs [setDisplay ''btn-tx-detail-bump-fee'' ''block'', modify_page (\<lambda>p. p\<lparr>ui_bump := Some txid\<rparr>)]
            else ret (),
            bind (lift (tx_rows tx)) (\<lambda>rows. setHtml ''tx-detail-body'' (concat (map kv_row_html rows)))]))))
        (\<lambda>e. setHtml ''tx-detail-body'' (''<p class=\"error\">''
           @ (case e of GatewayErr c m \<Rightarrow> m | _ \<Rightarrow> ''Could not load transaction.'') @ ''</p>''))]"

definition txDetailClose :: "unit act" where
  "txDetailClose = setDisplay ''tx-detail-overlay'' ''none''"

definition bumpClick :: "env \<Rightarrow> string \<Rightarrow> unit act" where
  "bumpClick E txid = seqs
     [setText ''tx-detail-bump-error'' [],
      setText ''tx-detail-bump-success'' [],
      setDisabled ''btn-tx-detail-bump-fee'' True,
      try_finally
        (try_catch
          (bind (bumpFee E txid) (\<lambda>newTxid. seqs
             [setText ''tx-detail-bump-success'' (''Rebroadcast with a higher fee: '' @ newTxid),
              setDisplay ''btn-tx-detail-bump-fee'' ''none'']))
          (\<lambda>e. setText ''tx-detail-bump-error'' (if error_message e = [] then ''Could not bump fee.'' else error_message e)))
        (setDisabled ''btn-tx-detail-bump-fee'' False)]"

section \<open>Frames\<close>

lemma core_gather_history [keeps_rules]: "keeps (core_is c) (gather_history E is acc)"
  by (induction "is" arbitrary: acc) (simp, intro keeps_rules, simp, intro keeps_rules)

lemmas history_defs = fetchCombinedHistory_def seenTxids_def loadHistory_def stopTxPolling_def startTxPolling_def
  showNewTxBanner_def checkForNewTx_def newTxDismiss_def exportCsv_def openTxDetail_def txDetailClose_def

lemma core_history [keeps_rules]:
  "keeps (core_is c) (fetchCombinedHistory E)" "keeps (core_is c) (loadHistory E)" "keeps (core_is c) stopTxPolling"
  "keeps (core_is c) startTxPolling" "keeps (core_is c) (checkForNewTx E)" "keeps (core_is c) newTxDismiss"
  "keeps (core_is c) exportCsv" "keeps (core_is c) (openTxDetail E t)" "keeps (core_is c) txDetailClose"
  unfolding history_defs by (intro keeps_rules core_modify; simp add: core_def)+

context core_predicate
begin

lemmas history_frames [keeps_rules] = core_history [THEN keeps_frame]

end

context wallet_predicate
begin

lemma keeps_bumpClick [keeps_rules]: "keeps I (bumpClick E t)"
  unfolding bumpClick_def by (intro keeps_rules)

end

section \<open>The combined history\<close>

lemma add_unseen_append: "add_unseen (xs @ ys) acc = add_unseen ys (add_unseen xs acc)"
  by (induction xs acc rule: add_unseen.induct) auto

text \<open>The entry of a list for an id: the first one.\<close>

abbreviation entry :: "hist_tx list \<Rightarrow> string \<rightharpoonup> hist_tx" where
  "entry ts i \<equiv> find (\<lambda>t. ht_txid t = i) ts"

lemma find_append: "find P (xs @ ys) = (case find P xs of None \<Rightarrow> find P ys | Some x \<Rightarrow> Some x)"
  by (induction xs) auto

lemma entry_None: "entry ts i = None \<longleftrightarrow> i \<notin> ht_txid ` set ts"
  by (auto simp: find_None_iff)

lemma entry_unique: "distinct (map ht_txid ts) \<Longrightarrow> t \<in> set ts \<Longrightarrow> entry ts (ht_txid t) = Some t"
  by (induction ts) (auto simp: image_iff)

lemma distinct_mset_iff: "mset xs = mset ys \<Longrightarrow> distinct (map ht_txid xs) \<Longrightarrow> distinct (map ht_txid ys)"
  by (metis mset_map mset_eq_imp_distinct_iff)

lemma entry_mset:
  assumes "distinct (map ht_txid xs)" "mset xs = mset ys"
  shows "entry xs i = entry ys i"
proof -
  have "distinct (map ht_txid ys)" using distinct_mset_iff assms by blast
  moreover have s: "set xs = set ys" using assms(2) by (rule mset_eq_setD)
  ultimately show ?thesis
    using entry_unique assms(1) by (cases "i \<in> ht_txid ` set xs") (auto simp: entry_None [THEN iffD2])
qed

lemma add_unseen_spec:
  assumes "add_unseen ts (seen, xs) = (seen', xs')" "seen = ht_txid ` set xs" "distinct (map ht_txid xs)"
  shows "seen' = ht_txid ` set xs' \<and> distinct (map ht_txid xs') \<and> (\<forall>i. entry xs' i = entry (xs @ ts) i)"
  using assms
proof (induction ts arbitrary: seen xs)
  case (Cons t ts)
  show ?case
  proof (cases "ht_txid t \<in> seen")
    case True
    then have "\<forall>i. entry (xs @ ts) i = entry (xs @ t # ts) i"
      using Cons.prems(2) entry_None [where ts = xs]
      by (auto simp: find_append split: option.split) (metis option.distinct(1))
    then show ?thesis using Cons True by simp
  next
    case False
    then have "add_unseen ts (insert (ht_txid t) seen, xs @ [t]) = (seen', xs')" using Cons.prems(1) by simp
    moreover have "insert (ht_txid t) seen = ht_txid ` set (xs @ [t])" "distinct (map ht_txid (xs @ [t]))"
      using Cons.prems False by auto
    ultimately show ?thesis using Cons.IH [of "insert (ht_txid t) seen" "xs @ [t]"] by simp
  qed
qed simp

definition history_requests :: "app \<Rightarrow> nat list \<Rightarrow> request list" where
  "history_requests s is = map (\<lambda>i. gw_history (st_gateway s) (in_template (st_addresses s i)) 50) is"

definition history_reply :: "env \<Rightarrow> request list \<Rightarrow> request \<Rightarrow> hist_tx list res" where
  "history_reply E rs q = bindE (bindE (e_fetch E rs q) gw_decode) hist_answer"

lemma gather_history_run:
  assumes "gather_history E is acc s = (Inr acc', s')"
  shows "\<exists>lists. length lists = length is
    \<and> (\<forall>j<length is. history_reply E (requests s @ take j (history_requests s is)) (history_requests s is ! j) = Inr (lists ! j))
    \<and> acc' = add_unseen (concat lists) acc \<and> s' = s\<lparr>requests := requests s @ history_requests s is\<rparr>"
  using assms
proof (induction "is" arbitrary: acc s)
  case Nil
  then show ?case by (cases s) (simp add: act_simps history_requests_def)
next
  case (Cons i "is")
  define q where "q = gw_history (st_gateway s) (in_template (st_addresses s i)) 50"
  define s1 where "s1 = s\<lparr>requests := requests s @ [q]\<rparr>"
  obtain ts where ts: "history_reply E (requests s) q = Inr ts" "gather_history E is (add_unseen ts acc) s1 = (Inr acc', s')"
    using Cons.prems
    by (auto simp: act_simps address_of_def history_reply_def q_def s1_def bindE_eq_Inr split: sum.splits)
  obtain lists where l: "length lists = length is"
    "\<forall>j<length is. history_reply E (requests s1 @ take j (history_requests s1 is)) (history_requests s1 is ! j) = Inr (lists ! j)"
    "acc' = add_unseen (concat lists) (add_unseen ts acc)" "s' = s1\<lparr>requests := requests s1 @ history_requests s1 is\<rparr>"
    using Cons.IH [OF ts(2)] by blast
  have h: "history_requests s1 is = history_requests s is" "history_requests s (i # is) = q # history_requests s is"
    by (simp_all add: history_requests_def s1_def q_def)
  have "history_reply E (requests s @ take j (q # history_requests s is)) ((q # history_requests s is) ! j) = Inr ((ts # lists) ! j)"
    if "j < Suc (length is)" for j
    using that l(2) [unfolded h(1)] ts(1) by (cases j) (simp_all add: s1_def)
  then show ?case
    using l h by (intro exI [of _ "ts # lists"]) (simp add: add_unseen_append s1_def)
qed

lemma combined_history:
  assumes "fetchCombinedHistory E s = (Inr txs, s')"
  defines "reqs \<equiv> history_requests s (st_addressIndices s)"
  shows "\<exists>lists. length lists = length reqs
    \<and> (\<forall>j<length reqs. history_reply E (requests s @ take j reqs) (reqs ! j) = Inr (lists ! j))
    \<and> (\<forall>i. entry txs i = entry (concat lists) i) \<and> distinct (map ht_txid txs)
    \<and> sorted (map newest_key txs) \<and> s' = s\<lparr>requests := requests s @ reqs\<rparr>"
proof -
  obtain seen xs where g: "gather_history E (st_addressIndices s) ({}, []) s = (Inr (seen, xs), s')"
    and txs: "txs = sort_key newest_key xs"
    using assms(1) by (auto simp: fetchCombinedHistory_def act_simps split: sum.splits prod.splits)
  have n: "length reqs = length (st_addressIndices s)" by (simp add: reqs_def history_requests_def)
  obtain lists where l: "length lists = length reqs"
    "\<forall>j<length reqs. history_reply E (requests s @ take j reqs) (reqs ! j) = Inr (lists ! j)"
    "(seen, xs) = add_unseen (concat lists) ({}, [])" "s' = s\<lparr>requests := requests s @ reqs\<rparr>"
    using gather_history_run [OF g] unfolding reqs_def [symmetric] n by blast
  have a: "distinct (map ht_txid xs)" "\<forall>i. entry xs i = entry (concat lists) i"
    using add_unseen_spec [OF l(3) [symmetric]] by auto
  have "mset txs = mset xs" by (simp add: txs)
  then have "distinct (map ht_txid txs)" "\<forall>i. entry txs i = entry xs i"
    using a(1) entry_mset [of xs txs] distinct_mset_iff [of xs txs] by simp_all
  then show ?thesis using l a(2) by (intro exI [of _ lists]) (simp add: txs)
qed


section \<open>The banner\<close>

definition announce :: "nat \<Rightarrow> page \<Rightarrow> page" where
  "announce n p = (if n = 0 then p else
     p\<lparr>ui_text := (ui_text p)(''new-tx-banner-text'' := (if n = 1 then ''1 new transaction'' else dec n @ '' new transactions'')),
       ui_display := (ui_display p)(''new-tx-banner'' := ''flex'')\<rparr>)"

lemma check_run:
  assumes "unlocked s" "fetchCombinedHistory E s = (Inr txs, s1)"
  shows "checkForNewTx E s = (Inr (), s1\<lparr>
      st_seenTxids := Some ((case st_seenTxids s of None \<Rightarrow> {} | Some x \<Rightarrow> x) \<union> ht_txid ` set txs),
      page := (case st_seenTxids s of None \<Rightarrow> page s
               | Some seen \<Rightarrow> announce (card (ht_txid ` set txs - seen)) (page s))\<rparr>)"
proof -
  obtain lists where h: "distinct (map ht_txid txs)" "s1 = s\<lparr>requests := requests s @ history_requests s (st_addressIndices s)\<rparr>"
    using combined_history [OF assms(2)] by blast
  have c: "length (filter (\<lambda>t. ht_txid t \<notin> seen) txs) = card (ht_txid ` set txs - seen)" for seen
  proof -
    have "distinct (map ht_txid (filter (\<lambda>t. ht_txid t \<notin> seen) txs))" using h(1) by (rule distinct_map_filter)
    then have "card (ht_txid ` set (filter (\<lambda>t. ht_txid t \<notin> seen) txs)) = length (filter (\<lambda>t. ht_txid t \<notin> seen) txs)"
      by (metis distinct_card length_map set_map)
    moreover have "ht_txid ` set (filter (\<lambda>t. ht_txid t \<notin> seen) txs) = ht_txid ` set txs - seen" by auto
    ultimately show ?thesis by simp
  qed
  have p: "s1\<lparr>st_seenTxids := x, page := page s\<rparr> = s1\<lparr>st_seenTxids := x\<rparr>" for x by (simp add: h(2))
  have u: "st_seenTxids s1 = st_seenTxids s" "page s1 = page s" by (simp_all add: h(2))
  show ?thesis
  proof (cases "st_seenTxids s")
    case None
    then show ?thesis using assms u by (simp add: checkForNewTx_def act_simps seenTxids_def p)
  next
    case (Some seen)
    define n where "n = card (ht_txid ` set txs - seen)"
    have t: "seqs [seenTxids txs, if 0 < n then showNewTxBanner n else ret ()] s1 =
        (Inr (), s1\<lparr>st_seenTxids := Some (seen \<union> ht_txid ` set txs), page := announce n (page s)\<rparr>)"
      using Some u by (cases "n = 0") (simp_all add: act_simps seenTxids_def showNewTxBanner_def announce_def p)
    show ?thesis
      unfolding checkForNewTx_def Let_def c n_def [symmetric] Some option.case
      using assms u Some t
      by (simp only: bind_apply gets_apply try_catch_apply prod.case sum.case option.case not_True_eq_False if_False
          c n_def [symmetric])
  qed
qed

section \<open>Properties\<close>

text \<open>
  C25: The combined history implements an abstract one: for every transaction id, the first entry the
  gateway reported for any of the wallet's addresses, asked in order with one request each. Every
  id occurs once, pending transactions come first and the others by descending height, and nothing
  but the log of requests changes.
\<close>

theorem fetchCombinedHistory_refines:
  assumes "fetchCombinedHistory E s = (Inr txs, s')" and "reqs = history_requests s (st_addressIndices s)"
  shows "\<exists>lists. length lists = length reqs
    \<and> (\<forall>j<length reqs. history_reply E (requests s @ take j reqs) (reqs ! j) = Inr (lists ! j))
    \<and> (\<forall>i. entry txs i = entry (concat lists) i) \<and> distinct (map ht_txid txs)
    \<and> sorted (map newest_key txs) \<and> s' = s\<lparr>requests := requests s @ reqs\<rparr>"
  using combined_history [OF assms(1)] unfolding assms(2) .

definition demo_txs :: "hist_tx list" where
  "demo_txs = [\<lparr>ht_txid = ''t2'', ht_height = None, ht_fee = None\<rparr>, \<lparr>ht_txid = ''t1'', ht_height = Some 5, ht_fee = None\<rparr>]"

lemma demo_history:
  "fetchCombinedHistory demo_env (demo_app\<lparr>st_seenTxids := x\<rparr>) =
     (Inr demo_txs, demo_app\<lparr>st_seenTxids := x, requests := [gw_history [] ''m'' 50]\<rparr>)"
proof -
  have a: "hist_answer demo_answer = Inr [\<lparr>ht_txid = ''t1'', ht_height = Some 5, ht_fee = None\<rparr>,
      \<lparr>ht_txid = ''t2'', ht_height = None, ht_fee = None\<rparr>, \<lparr>ht_txid = ''t1'', ht_height = Some 6, ht_fee = None\<rparr>]"
    by (simp add: hist_answer_def hist_entry_def demo_answer_def jget_def jlist_def jstring_def json_int_def jnullish_def
        jBigInt_def to_BigInt_def)
  have c: "call demo_env mk s = (Inr demo_answer, s\<lparr>requests := requests s @ [mk (st_gateway s)]\<rparr>)" for mk s
    by (simp add: act_simps demo_env_def gw_decode_def)
  have s: "st_addressIndices demo_app = [0]" "st_addresses demo_app 0 = Some ''m''" "st_gateway demo_app = []"
    "requests demo_app = []"
    by (simp_all add: demo_app_def initial_state_def)
  show ?thesis
    by (simp add: fetchCombinedHistory_def bind_apply gets_apply lift_apply ret_apply address_of_def c a s in_template_def
        newest_key_def demo_txs_def)
qed

theorem fetchCombinedHistory_refines_witness:
  "\<exists>lists. length lists = 1 \<and> history_reply demo_env [] (gw_history [] ''m'' 50) = Inr (lists ! 0)
    \<and> entry demo_txs ''t1'' = entry (concat lists) ''t1'' \<and> sorted (map newest_key demo_txs)"
proof -
  have r: "[gw_history [] ''m'' 50] = history_requests (demo_app\<lparr>st_seenTxids := None\<rparr>)
      (st_addressIndices (demo_app\<lparr>st_seenTxids := None\<rparr>))" "requests demo_app = []"
    by (simp_all add: history_requests_def demo_app_def initial_state_def in_template_def)
  show ?thesis using fetchCombinedHistory_refines [OF demo_history [where x = None] r(1)] r(2) by auto
qed

text \<open>
  The banner counts exactly the new transactions. A check while unlocked, whose history request
  succeeds, remembers every reported id; the banner appears with the number of ids not remembered
  before, and stays as it is when there is none or when this is the first check.
\<close>

theorem checkForNewTx_counts_new:
  assumes "unlocked s" and "fetchCombinedHistory E s = (Inr txs, s1)"
  shows "checkForNewTx E s = (Inr (), s1\<lparr>
      st_seenTxids := Some ((case st_seenTxids s of None \<Rightarrow> {} | Some x \<Rightarrow> x) \<union> ht_txid ` set txs),
      page := (case st_seenTxids s of None \<Rightarrow> page s
               | Some seen \<Rightarrow> announce (card (ht_txid ` set txs - seen)) (page s))\<rparr>)"
  using assms by (rule check_run)

theorem checkForNewTx_counts_new_witness:
  "ui_text (page (snd (checkForNewTx demo_env (demo_app\<lparr>st_seenTxids := Some {''t1''}\<rparr>)))) ''new-tx-banner-text''
     = ''1 new transaction''"
proof -
  let ?s = "demo_app\<lparr>st_seenTxids := Some {''t1''}\<rparr>"
  have h: "fetchCombinedHistory demo_env ?s = (Inr demo_txs, ?s\<lparr>requests := [gw_history [] ''m'' 50]\<rparr>)"
    by (rule demo_history)
  have u: "unlocked ?s" by (simp add: unlocked_def demo_app_def)
  have "ht_txid ` set demo_txs - {''t1''} = {''t2''}" by (auto simp: demo_txs_def)
  then show ?thesis using checkForNewTx_counts_new [OF u h] by (simp add: announce_def)
qed

text \<open>
  C26: The exported CSV file is read back by a CSV reader as the header and one row per transaction
  of the last shown history, with status, height and fee; without a history nothing is downloaded.
\<close>

theorem exportCsv_roundtrip:
  "exportCsv s = (Inr (), s) \<and> (st_lastHistory s = None \<or> st_lastHistory s = Some [])
   \<or> (\<exists>txs file. st_lastHistory s = Some txs \<and> exportCsv s = (Inr (), s\<lparr>effects := effects s @ [Downloaded file]\<rparr>)
       \<and> csv_read file = Some (csv_header # map csv_row txs))"
proof (cases "st_lastHistory s = None \<or> st_lastHistory s = Some []")
  case True
  then show ?thesis by (auto simp: exportCsv_def act_simps)
next
  case False
  then obtain txs where txs: "st_lastHistory s = Some txs" "txs \<noteq> []" by auto
  have "csv_read (csv_text (csv_header # map csv_row txs)) = Some (csv_header # map csv_row txs)"
    by (rule csv_roundtrip) (simp_all add: csv_header_def csv_row_def list_all_iff)
  then show ?thesis using txs by (intro disjI2 exI [of _ txs] exI conjI) (auto simp: exportCsv_def act_simps)
qed

end
