(* ===== verification/Screens.thy ===== *)
theory Screens
  imports History
begin

text \<open>
  The smaller screens of web-wallet/app.js: the QR scanner overlay, the address book, Receive with
  its list of addresses, and the watch list. The properties: a new address is a fresh index whose
  key is derived and which becomes the active one; an extended public key adds between one and
  fifty watched addresses, or none at all.
\<close>

section \<open>Definitions\<close>

subsection \<open>QR scanning\<close>

text \<open>
  \<open>openQrScanner\<close>; the scanner itself is a separate component, and the handle stands for the
  callback it was given.
\<close>

definition openQrScanner :: "scan_target \<Rightarrow> unit act" where
  "openQrScanner target = seqs
     [setDisplay ''qr-scan-overlay'' ''flex'',
      setText ''qr-scan-error'' [],
      modify (\<lambda>s. s\<lparr>st_qrScanHandle := Some target\<rparr>)]"

definition closeQrScan :: "unit act" where
  "closeQrScan = seqs
     [modify (\<lambda>s. s\<lparr>st_qrScanHandle := None\<rparr>), setDisplay ''qr-scan-overlay'' ''none'']"

text \<open>The callbacks: a decoded text goes to its destination, and the overlay closes.\<close>

definition scanResult :: "string \<Rightarrow> unit act" where
  "scanResult t =
     bind (gets st_qrScanHandle) (\<lambda>h.
       case h of
         None \<Rightarrow> ret ()
       | Some target \<Rightarrow> seqs
           [(case target of ScanRow i \<Rightarrow> rowScanned i t | ScanProposal \<Rightarrow> setField ''ms-proposal-json'' t),
            closeQrScan])"

definition scanError :: "unit act" where
  "scanError = setText ''qr-scan-error''
     ''Could not access the camera. Check that this site has camera permission in your browser settings.''"

subsection \<open>Address book\<close>

definition loadAddressBookEntries :: "store \<Rightarrow> (string \<times> string) list" where
  "loadAddressBookEntries l = (case ls_book l of None \<Rightarrow> [] | Some es \<Rightarrow> es)"

definition saveAddressBookEntries :: "(string \<times> string) list \<Rightarrow> unit act" where
  "saveAddressBookEntries es = modify_ls (\<lambda>l. l\<lparr>ls_book := Some es\<rparr>)"

definition book_row_html :: "nat \<times> string \<times> string \<Rightarrow> string" where
  "book_row_html e = (case e of (i, label, address) \<Rightarrow>
     [CHR 0x0A] @ ''    <div class=\"book-row\">'' @ [CHR 0x0A]
     @ ''      <div class=\"book-info\">'' @ [CHR 0x0A]
     @ ''        <div class=\"book-label\">'' @ escapeHtml label @ ''</div>'' @ [CHR 0x0A]
     @ ''        <div class=\"book-address mono\">'' @ escapeHtml address @ ''</div>'' @ [CHR 0x0A]
     @ ''      </div>'' @ [CHR 0x0A]
     @ ''      <button class=\"secondary\" type=\"button\" data-use=\"'' @ dec i @ ''\">Use</button>'' @ [CHR 0x0A]
     @ ''      <button class=\"danger\" type=\"button\" data-remove=\"'' @ dec i @ ''\">Remove</button>'' @ [CHR 0x0A]
     @ ''    </div>'')"

definition renderAddressBook :: "unit act" where
  "renderAddressBook =
     bind (gets (\<lambda>s. loadAddressBookEntries (ls s))) (\<lambda>entries.
       if entries = [] then seqs
         [setHtml ''address-book-list'' ''<p class=\"notice\">No saved addresses yet.</p>'',
          modify_page (\<lambda>p. p\<lparr>ui_book := []\<rparr>)]
       else seqs
         [setHtml ''address-book-list'' (concat (map book_row_html (enumerate 0 entries))),
          modify_page (\<lambda>p. p\<lparr>ui_book := entries\<rparr>)])"

text \<open>
  The \<open>Use\<close> button: the row whose address was focused last, or else the first one.
\<close>

definition bookUse :: "nat \<Rightarrow> unit act" where
  "bookUse i =
     bind (gets (\<lambda>s. ui_rows (page s))) (\<lambda>rows.
     bind (gets st_activeSendRecipientId) (\<lambda>active.
     bind (gets (\<lambda>s. ui_book (page s))) (\<lambda>entries.
       let focused = find (\<lambda>r. Some (row_id r) = active) rows;
           targetRow = (case focused of Some r \<Rightarrow> Some r | None \<Rightarrow> (case rows of [] \<Rightarrow> None | r # _ \<Rightarrow> Some r))
       in case targetRow of
            None \<Rightarrow> ret ()
          | Some r \<Rightarrow>
              (case js_get entries i of
                 None \<Rightarrow> lift (Inl (TypeErr ''Cannot read properties of undefined (reading address)''))
               | Some e \<Rightarrow> update_row (row_id r) (\<lambda>r. r\<lparr>row_address := snd e\<rparr>)))))"

text \<open>\<open>splice(i, 1)\<close>\<close>

definition splice1 :: "nat \<Rightarrow> 'a list \<Rightarrow> 'a list" where
  "splice1 i xs = take i xs @ drop (Suc i) xs"

definition bookRemove :: "nat \<Rightarrow> unit act" where
  "bookRemove i =
     bind (gets (\<lambda>s. loadAddressBookEntries (ls s))) (\<lambda>updated. seqs
       [saveAddressBookEntries (splice1 i updated), renderAddressBook])"

definition bookAdd :: "unit act" where
  "bookAdd =
     bind (field ''new-book-label'') (\<lambda>l.
     bind (field ''new-book-address'') (\<lambda>a.
       let label = trim l; address = trim a
       in if label = [] \<or> address = [] then ret ()
          else bind (gets (\<lambda>s. loadAddressBookEntries (ls s))) (\<lambda>entries. seqs
            [saveAddressBookEntries (entries @ [(label, address)]),
             setField ''new-book-label'' [],
             setField ''new-book-address'' [],
             renderAddressBook])))"

subsection \<open>Receive\<close>

definition refreshReceiveQr :: "env \<Rightarrow> unit act" where
  "refreshReceiveQr E =
     bind (field ''receive-request-amount'') (\<lambda>amount.
     bind (gets activeAddress) (\<lambda>a. renderQr E ''receive-qr'' (receive_uri (in_template a) amount)))"

definition addr_row_html :: "nat \<Rightarrow> string option \<Rightarrow> nat \<Rightarrow> string" where
  "addr_row_html active address idx =
     [CHR 0x0A] @ ''    <div class=\"addr-row '' @ (if idx = active then ''current'' else []) @ ''\">'' @ [CHR 0x0A]
     @ ''      <span class=\"mono addr-info\">'' @ in_template address @ ''</span>'' @ [CHR 0x0A]
     @ ''      <button class=\"secondary\" type=\"button\" data-select=\"'' @ dec idx @ ''\">''
     @ (if idx = active then ''Current'' else ''Use'') @ ''</button>'' @ [CHR 0x0A]
     @ ''    </div>''"

definition renderAddressList :: "unit act" where
  "renderAddressList =
     bind (gets (\<lambda>s. s)) (\<lambda>s. seqs
       [setHtml ''address-list''
          (concat (map (\<lambda>idx. addr_row_html (st_activeIndex s) (st_addresses s idx) idx) (st_addressIndices s))),
        modify_page (\<lambda>p. p\<lparr>ui_selectable := st_addressIndices s\<rparr>)])"

definition loadReceive :: "env \<Rightarrow> unit act" where
  "loadReceive E = seqs
     [bind (gets activeAddress) (\<lambda>a. setText ''receive-address'' (as_text a)),
      setField ''receive-request-amount'' [],
      refreshReceiveQr E,
      renderAddressList]"

definition selectAddress :: "env \<Rightarrow> nat \<Rightarrow> unit act" where
  "selectAddress E idx = seqs [modify (\<lambda>s. s\<lparr>st_activeIndex := idx\<rparr>), loadReceive E]"

text \<open>
  \<open>btn-new-address\<close>. The list of indices is never empty while the screen can be reached; the error
  stands for the \<open>Math.max()\<close> of nothing.
\<close>

definition newAddress :: "env \<Rightarrow> unit act" where
  "newAddress E =
     bind (gets st_addressIndices) (\<lambda>is.
       if is = [] then lift (Inl (RangeErr ''no address''))
       else let nextIndex = Max (set is) + 1
            in seqs
              [modify (\<lambda>s. save_indices (s\<lparr>st_addressIndices := st_addressIndices s @ [nextIndex]\<rparr>)),
               bind (ensureKey E nextIndex) (\<lambda>_. ret ()),
               modify (\<lambda>s. s\<lparr>st_activeIndex := nextIndex\<rparr>),
               loadReceive E])"

definition copyAddress :: "unit act" where
  "copyAddress = bind (gets activeAddress) (\<lambda>a. emit (Copied (in_template a)))"

definition viewOnExplorer :: "unit act" where
  "viewOnExplorer = bind (gets activeAddress) (\<lambda>a.
     emit (Opened (''https://codexacoin.com/blockexplorer/#/address/'' @ in_template a)))"

subsection \<open>Watch list\<close>

definition loadWatchList :: "store \<Rightarrow> watch_entry list" where
  "loadWatchList l = (case ls_watch l of None \<Rightarrow> [] | Some es \<Rightarrow> es)"

definition saveWatchList :: "watch_entry list \<Rightarrow> unit act" where
  "saveWatchList es = modify_ls (\<lambda>l. l\<lparr>ls_watch := Some es\<rparr>)"

definition watch_row_html :: "nat \<times> watch_entry \<Rightarrow> string" where
  "watch_row_html e = (case e of (i, w) \<Rightarrow>
     [CHR 0x0A] @ ''    <div class=\"book-row\">'' @ [CHR 0x0A]
     @ ''      <div class=\"book-info\">'' @ [CHR 0x0A]
     @ ''        <div class=\"book-label\">'' @ escapeHtml (we_label w) @ ''</div>'' @ [CHR 0x0A]
     @ ''        <div class=\"book-address mono\">'' @ escapeHtml (we_address w) @ ''</div>'' @ [CHR 0x0A]
     @ ''        <div class=\"notice small\" id=\"watch-balance-'' @ dec i @ ''\">Loading balance...</div>'' @ [CHR 0x0A]
     @ ''      </div>'' @ [CHR 0x0A]
     @ ''      <button class=\"secondary\" type=\"button\" data-explorer=\"'' @ dec i @ ''\">Explorer</button>'' @ [CHR 0x0A]
     @ ''      <button class=\"danger\" type=\"button\" data-remove=\"'' @ dec i @ ''\">Remove</button>'' @ [CHR 0x0A]
     @ ''    </div>'')"

definition watch_balance :: "env \<Rightarrow> nat \<times> watch_entry \<Rightarrow> unit act" where
  "watch_balance E e = (case e of (i, w) \<Rightarrow>
     try_catch
       (bind (call E (\<lambda>b. gw_balance b (we_address w))) (\<lambda>balance.
        bind (lift (balance_total balance)) (\<lambda>t. setText (''watch-balance-'' @ dec i) (formatCac t @ '' CAC''))))
       (\<lambda>err. setText (''watch-balance-'' @ dec i) ''Could not fetch balance''))"

definition loadWatch :: "env \<Rightarrow> unit act" where
  "loadWatch E =
     bind (gets (\<lambda>s. loadWatchList (ls s))) (\<lambda>entries.
       if entries = [] then seqs
         [setHtml ''watch-list'' ''<p class=\"notice\">No watched addresses yet.</p>'',
          modify_page (\<lambda>p. p\<lparr>ui_watch := []\<rparr>)]
       else seqs
         [setHtml ''watch-list'' (concat (map watch_row_html (enumerate 0 entries))),
          modify_page (\<lambda>p. p\<lparr>ui_watch := entries\<rparr>),
          for_each (enumerate 0 entries) (watch_balance E)])"

definition watchRemove :: "env \<Rightarrow> nat \<Rightarrow> unit act" where
  "watchRemove E i =
     bind (gets (\<lambda>s. loadWatchList (ls s))) (\<lambda>updated. seqs
       [saveWatchList (splice1 i updated), detach (loadWatch E)])"

definition watchExplorer :: "nat \<Rightarrow> unit act" where
  "watchExplorer i =
     bind (gets (\<lambda>s. ui_watch (page s))) (\<lambda>entries.
       case js_get entries i of
         None \<Rightarrow> lift (Inl (TypeErr ''Cannot read properties of undefined (reading address)''))
       | Some w \<Rightarrow> emit (Opened (''https://codexacoin.com/blockexplorer/#/address/'' @ we_address w)))"

definition showXpub :: "env \<Rightarrow> unit act" where
  "showXpub E =
     bind (gets (\<lambda>s. ui_display (page s) ''my-xpub-output'')) (\<lambda>d.
       if d \<noteq> ''none'' then setDisplay ''my-xpub-output'' ''none''
       else seqs
         [setDisabled ''btn-show-xpub'' True,
          try_finally
            (bind current_network (\<lambda>net.
             bind (gets st_mnemonic) (\<lambda>m.
               case m of
                 None \<Rightarrow> lift (Inl (TypeErr ''invalid mnemonic type: object''))
               | Some phrase \<Rightarrow> seqs
                   [setField ''my-xpub-output'' (deriveAccountXpub (e_crypto E) phrase net []),
                    setDisplay ''my-xpub-output'' ''block''])))
            (setDisabled ''btn-show-xpub'' False)])"

text \<open>
  \<open>Math.max(1, Math.min(50, Number(v) || 0))\<close> as the number of turns of the loop \<open>i < count\<close>.
\<close>

definition xpub_count :: "string \<Rightarrow> nat" where
  "xpub_count v =
     (case string_to_number v of
        Fin x \<Rightarrow> nat \<lceil>max 1 (min 50 x)\<rceil>
      | PosInf \<Rightarrow> 50
      | _ \<Rightarrow> 1)"

definition watchXpubAdd :: "env \<Rightarrow> unit act" where
  "watchXpubAdd E =
     bind (setText ''watch-xpub-error'' []) (\<lambda>_.
     bind (field ''watch-xpub-label'') (\<lambda>l.
     bind (field ''watch-xpub-input'') (\<lambda>x.
     bind (field ''watch-xpub-count'') (\<lambda>c.
       let label = trim l; xpub = trim x; n = xpub_count c
       in if label = [] \<or> xpub = [] then setText ''watch-xpub-error'' ''Enter a label and an xpub.''
          else try_catch
            (bind current_network (\<lambda>net.
             bind (gets (\<lambda>s. loadWatchList (ls s))) (\<lambda>entries.
             bind (lift (mapE (\<lambda>i. bindE (deriveXpubAddress (e_crypto E) xpub net i) (\<lambda>address.
                     Inr \<lparr>we_label = label @ '' #'' @ dec i, we_address = address,
                          we_xpubGroup = Some (js_slice_from xpub (- 8))\<rparr>)) [0..<n])) (\<lambda>new. seqs
               [saveWatchList (entries @ new),
                setField ''watch-xpub-label'' [],
                setField ''watch-xpub-input'' [],
                detach (loadWatch E)]))))
            (\<lambda>e. setText ''watch-xpub-error''
               (if error_message e = [] then ''Could not derive addresses from this xpub.'' else error_message e))))))"

definition watchAdd :: "env \<Rightarrow> unit act" where
  "watchAdd E =
     bind (field ''watch-label'') (\<lambda>l.
     bind (field ''watch-address'') (\<lambda>a.
       let label = trim l; address = trim a
       in if label = [] \<or> address = [] then ret ()
          else bind (gets (\<lambda>s. loadWatchList (ls s))) (\<lambda>entries. seqs
            [saveWatchList (entries @ [\<lparr>we_label = label, we_address = address, we_xpubGroup = None\<rparr>]),
             setField ''watch-label'' [],
             setField ''watch-address'' [],
             detach (loadWatch E)])))"

section \<open>Frames\<close>

lemmas scan_defs = openQrScanner_def closeQrScan_def scanResult_def scanError_def
lemmas book_defs = saveAddressBookEntries_def renderAddressBook_def bookUse_def bookRemove_def bookAdd_def modify_ls_def
lemmas receive_defs = refreshReceiveQr_def renderAddressList_def loadReceive_def copyAddress_def viewOnExplorer_def
lemmas watch_defs = saveWatchList_def watch_balance_def loadWatch_def watchRemove_def watchExplorer_def showXpub_def
  watchXpubAdd_def watchAdd_def modify_ls_def

lemma keeps_target [keeps_rules]:
  "(\<And>i. keeps I (f i)) \<Longrightarrow> keeps I m \<Longrightarrow> keeps I (case t of ScanRow i \<Rightarrow> f i | ScanProposal \<Rightarrow> m)"
  by (simp split: scan_target.split)

lemma core_scan [keeps_rules]:
  "keeps (core_is c) (openQrScanner t)" "keeps (core_is c) closeQrScan" "keeps (core_is c) (scanResult x)"
  "keeps (core_is c) scanError"
  unfolding scan_defs by (intro keeps_rules core_modify; simp add: core_def)+

lemma core_book [keeps_rules]:
  "keeps (core_is c) renderAddressBook" "keeps (core_is c) (bookUse i)" "keeps (core_is c) (bookRemove i)"
  "keeps (core_is c) bookAdd"
  unfolding book_defs by (intro keeps_rules core_modify; simp add: core_def)+

lemma core_receive [keeps_rules]:
  "keeps (core_is c) (refreshReceiveQr E)" "keeps (core_is c) (loadReceive E)" "keeps (core_is c) copyAddress"
  "keeps (core_is c) viewOnExplorer"
  unfolding receive_defs by (intro keeps_rules)+

lemma core_watch [keeps_rules]:
  "keeps (core_is c) (loadWatch E)" "keeps (core_is c) (watchRemove E i)" "keeps (core_is c) (watchExplorer i)"
  "keeps (core_is c) (showXpub E)" "keeps (core_is c) (watchXpubAdd E)" "keeps (core_is c) (watchAdd E)"
  unfolding watch_defs by (intro keeps_rules core_modify; simp add: core_def)+

context core_predicate
begin

lemmas screen_frames [keeps_rules] =
  core_scan [THEN keeps_frame] core_book [THEN keeps_frame] core_receive [THEN keeps_frame] core_watch [THEN keeps_frame]

end

section \<open>Actions that only show things\<close>

text \<open>The state apart from the page, the requests and the effects.\<close>

definition rest :: "app \<Rightarrow> app" where
  "rest s = s\<lparr>page := initial_page, requests := [], effects := []\<rparr>"

abbreviation rest_is where
  "rest_is c \<equiv> (\<lambda>s. rest s = c)"

lemma rest_page [keeps_rules]: "keeps (rest_is c) (modify_page f)"
  unfolding modify_page_def by (rule keeps_modify) (simp add: rest_def)

lemma rest_ui [keeps_rules]:
  "keeps (rest_is c) (setText i t)" "keeps (rest_is c) (setField i t)" "keeps (rest_is c) (setDisplay i t)"
  "keeps (rest_is c) (setHtml i t)" "keeps (rest_is c) (setDisabled i b)" "keeps (rest_is c) (setActive i b)"
  unfolding page_defs by (rule rest_page)+

lemma rest_emit [keeps_rules]: "keeps (rest_is c) (emit e)"
  unfolding emit_def by (rule keeps_modify) (simp add: rest_def)

lemma rest_renderQr [keeps_rules]: "keeps (rest_is c) (renderQr E i t)"
  unfolding renderQr_def by (intro keeps_rules)

lemma rest_call [keeps_rules]: "keeps (rest_is c) (call E mk)"
  by (simp add: keeps_def act_simps rest_def)

lemma rest_screens [keeps_rules]: "keeps (rest_is c) (loadWatch E)" "keeps (rest_is c) (loadReceive E)"
  unfolding loadWatch_def watch_balance_def receive_defs by (intro keeps_rules)+

lemma rest_fields: "rest s = rest t \<Longrightarrow> ls s = ls t \<and> st_addresses s = st_addresses t \<and> st_keys s = st_keys t
    \<and> st_addressIndices s = st_addressIndices t \<and> st_activeIndex s = st_activeIndex t \<and> st_network s = st_network t
    \<and> st_mnemonic s = st_mnemonic t"
  by (cases s; cases t) (simp add: rest_def)

lemma rest_after: "(\<And>c. keeps (rest_is c) m) \<Longrightarrow> rest (snd (m s)) = rest s"
  by (simp add: keeps_def)

lemma rest_ls: "(\<And>c. keeps (rest_is c) m) \<Longrightarrow> ls (snd (m s)) = ls s"
  using rest_fields [OF rest_after] by blast

section \<open>New addresses\<close>

lemma newAddress_run:
  assumes "hashes_ok E" "wallet_of E m net s" "st_addressIndices s \<noteq> []"
  defines "n \<equiv> Max (set (st_addressIndices s)) + 1"
  shows "rest (snd (newAddress E s)) = rest ((derive_list E m net {n} (save_indices (s\<lparr>st_addressIndices := st_addressIndices s @ [n]\<rparr>)))
     \<lparr>st_activeIndex := n\<rparr>)"
proof -
  let ?s1 = "save_indices (s\<lparr>st_addressIndices := st_addressIndices s @ [n]\<rparr>)"
  have "wallet_of E m net ?s1" using assms(2) by (simp add: wallet_of_def save_indices_def)
  then have k: "ensureKey E n ?s1 = (Inr (key_at E m net n), derive_list E m net {n} ?s1)"
    using ensureKey_wallet [OF assms(1)] by blast
  have "newAddress E s = seqs
      [modify (\<lambda>s. save_indices (s\<lparr>st_addressIndices := st_addressIndices s @ [n]\<rparr>)),
       bind (ensureKey E n) (\<lambda>_. ret ()), modify (\<lambda>s. s\<lparr>st_activeIndex := n\<rparr>), loadReceive E] s"
    unfolding newAddress_def n_def using assms(3) by (simp add: gets_apply bind_apply Let_def)
  then have "snd (newAddress E s) = snd (loadReceive E ((derive_list E m net {n} ?s1)\<lparr>st_activeIndex := n\<rparr>))"
    by (simp add: seqs_last k bind_apply modify_apply ret_apply del: seqs.simps)
  then show ?thesis using rest_after [OF rest_screens(2)] by simp
qed

lemma newAddress_wallet:
  assumes "hashes_ok E" "wallet_of E m net s" "st_addressIndices s \<noteq> []"
  defines "n \<equiv> Max (set (st_addressIndices s)) + 1" and "s' \<equiv> snd (newAddress E s)"
  shows "n \<notin> set (st_addressIndices s) \<and> st_addressIndices s' = st_addressIndices s @ [n] \<and> st_activeIndex s' = n
    \<and> loadAddressIndices s' = st_addressIndices s @ [n] \<and> activeAddress s' = Some (address_at E m net n)
    \<and> wallet_of E m net s'"
proof -
  let ?s1 = "save_indices (s\<lparr>st_addressIndices := st_addressIndices s @ [n]\<rparr>)"
  let ?s2 = "(derive_list E m net {n} ?s1)\<lparr>st_activeIndex := n\<rparr>"
  have "wallet_of E m net ?s1" using assms(2) by (simp add: wallet_of_def save_indices_def)
  then have w: "wallet_of E m net ?s2" using derive_list_wallet [of E m net ?s1 "{n}"] by (simp add: wallet_of_def)
  have f: "ls s' = ls ?s2" "st_addresses s' = st_addresses ?s2" "st_keys s' = st_keys ?s2" "st_addressIndices s' = st_addressIndices ?s2"
    "st_activeIndex s' = st_activeIndex ?s2" "st_network s' = st_network ?s2" "st_mnemonic s' = st_mnemonic ?s2"
    using rest_fields [OF newAddress_run [OF assms(1-3)]] by (simp_all add: s'_def n_def)
  have "i < n" if "i \<in> set (st_addressIndices s)" for i using Max_ge [OF _ that] by (simp add: n_def less_Suc_eq_le)
  then have "n \<notin> set (st_addressIndices s)" by blast
  moreover have "wallet_of E m net s'" using w unfolding wallet_of_def f .
  moreover have "activeAddress s' = Some (address_at E m net n)" by (simp add: f activeAddress_def derive_list_def)
  ultimately show ?thesis by (simp add: f loadAddressIndices_def derive_list_def save_indices_def)
qed

definition fresh_wallet :: "nat list \<Rightarrow> app" where
  "fresh_wallet is = (initial_state demo_store [] [])\<lparr>st_mnemonic := Some ''abc'', st_addressIndices := is\<rparr>"

lemma demo_hashes_ok: "hashes_ok demo_env"
  by (simp add: hashes_ok_def demo_env_def demo_crypto_def demo_digest_length)

lemma fresh_wallet_of: "wallet_of demo_env ''abc'' testnet (fresh_wallet is)"
  by (simp add: wallet_of_def fresh_wallet_def initial_state_def demo_store_def NETWORKS_def)

section \<open>Watching an extended public key\<close>

lemma xpub_count_bounds: "1 \<le> xpub_count v \<and> xpub_count v \<le> 50"
proof -
  have "1 \<le> nat \<lceil>max 1 (min 50 x)\<rceil> \<and> nat \<lceil>max 1 (min 50 x)\<rceil> \<le> 50" for x :: rat
  proof -
    have "\<lceil>max 1 (min 50 x)\<rceil> \<le> 50" by (simp add: ceiling_le_iff)
    moreover have "1 \<le> \<lceil>max 1 (min 50 x)\<rceil>" by (simp add: one_le_ceiling)
    ultimately show ?thesis by linarith
  qed
  then show ?thesis by (simp add: xpub_count_def split: jsnum.split)
qed

definition xpub_entries :: "env \<Rightarrow> string \<Rightarrow> string \<Rightarrow> network \<Rightarrow> watch_entry list \<Rightarrow> bool" where
  "xpub_entries E label xpub net new \<longleftrightarrow>
     list_all2 (\<lambda>i w. deriveXpubAddress (e_crypto E) xpub net i = Inr (we_address w) \<and> we_label w = label @ '' #'' @ dec i)
       [0..<length new] new"

lemma watchXpubAdd_run:
  "loadWatchList (ls (snd (watchXpubAdd E s))) = loadWatchList (ls s) \<or>
   (\<exists>new net. NETWORKS (st_network s) = Some net
      \<and> loadWatchList (ls (snd (watchXpubAdd E s))) = loadWatchList (ls s) @ new
      \<and> length new = xpub_count (ui_field (page s) ''watch-xpub-count'')
      \<and> xpub_entries E (trim (ui_field (page s) ''watch-xpub-label'')) (trim (ui_field (page s) ''watch-xpub-input'')) net new)"
proof -
  let ?s1 = "snd (setText ''watch-xpub-error'' [] s)"
  let ?f = "ui_field (page s)"
  let ?mk = "\<lambda>net i. bindE (deriveXpubAddress (e_crypto E) (trim (?f ''watch-xpub-input'')) net i) (\<lambda>address.
     Inr \<lparr>we_label = trim (?f ''watch-xpub-label'') @ '' #'' @ dec i, we_address = address,
          we_xpubGroup = Some (js_slice_from (trim (?f ''watch-xpub-input'')) (- 8))\<rparr>)"
  show ?thesis
  proof (cases "NETWORKS (st_network s)")
    case None
    then show ?thesis
      unfolding watchXpubAdd_def by (simp add: act_simps current_network_apply Let_def)
  next
    case (Some net)
    show ?thesis
    proof (cases "mapE (?mk net) [0..<xpub_count (?f ''watch-xpub-count'')]")
      case (Inl e)
      then show ?thesis using Some
        unfolding watchXpubAdd_def by (simp add: act_simps current_network_apply Let_def)
    next
      case (Inr new)
      let ?n = "xpub_count (?f ''watch-xpub-count'')"
      have len: "length new = ?n" using mapE_length [OF Inr] by simp
      have at: "deriveXpubAddress (e_crypto E) (trim (?f ''watch-xpub-input'')) net i = Inr (we_address (new ! i))
          \<and> we_label (new ! i) = trim (?f ''watch-xpub-label'') @ '' #'' @ dec i" if "i < ?n" for i
        using mapE_nth [OF Inr, of i] that by (auto simp: bindE_eq_Inr dest!: sym [of _ "new ! i"])
      have "xpub_entries E (trim (?f ''watch-xpub-label'')) (trim (?f ''watch-xpub-input'')) net new"
        unfolding xpub_entries_def list_all2_conv_all_nth using at len by simp
      moreover have "loadWatchList (ls (snd (watchXpubAdd E s))) \<in> {loadWatchList (ls s), loadWatchList (ls s) @ new}"
        unfolding watchXpubAdd_def using Some Inr
        by (simp add: act_simps Let_def saveWatchList_def rest_ls [OF rest_screens(1)]) (simp add: loadWatchList_def)
      ultimately show ?thesis using Some len by auto
    qed
  qed
qed

section \<open>Properties\<close>

text \<open>
  C27: "New address" gives an address that was not used before: its index is above every known
  index, it becomes the active one, the stored list of the network is the old list with the new
  index, the address shown is the one derived from the phrase for that index, and every key and
  address in memory is still the derived one.
\<close>

theorem newAddress_fresh:
  assumes "hashes_ok E" "wallet_of E m net s" "st_addressIndices s \<noteq> []"
  defines "n \<equiv> Max (set (st_addressIndices s)) + 1" and "s' \<equiv> snd (newAddress E s)"
  shows "n \<notin> set (st_addressIndices s) \<and> st_addressIndices s' = st_addressIndices s @ [n] \<and> st_activeIndex s' = n
    \<and> loadAddressIndices s' = st_addressIndices s @ [n] \<and> activeAddress s' = Some (address_at E m net n)
    \<and> wallet_of E m net s'"
  unfolding n_def s'_def by (rule newAddress_wallet [OF assms(1-3)])

theorem newAddress_fresh_witness:
  "let s = fresh_wallet [0, 3]; s' = snd (newAddress demo_env s)
   in wallet_of demo_env ''abc'' testnet s \<and> st_addressIndices s' = [0, 3, 4]
     \<and> activeAddress s' = Some (address_at demo_env ''abc'' testnet 4)"
  using newAddress_fresh [OF demo_hashes_ok fresh_wallet_of, of "[0, 3]"] fresh_wallet_of [of "[0, 3]"]
  by (simp add: fresh_wallet_def)

text \<open>
  Watching an extended public key adds the addresses of the indices below the chosen count,
  in order, each with the label and its index; the count is at least 1 and at most 50 whatever is
  typed, and when one derivation fails, nothing is added.
\<close>

theorem watchXpubAdd_all_or_nothing:
  "\<exists>new. loadWatchList (ls (snd (watchXpubAdd E s))) = loadWatchList (ls s) @ new
     \<and> (new = [] \<or> (\<exists>net. NETWORKS (st_network s) = Some net \<and> 1 \<le> length new \<and> length new \<le> 50
          \<and> length new = xpub_count (ui_field (page s) ''watch-xpub-count'')
          \<and> xpub_entries E (trim (ui_field (page s) ''watch-xpub-label'')) (trim (ui_field (page s) ''watch-xpub-input'')) net new))"
  using watchXpubAdd_run [of E s] xpub_count_bounds [of "ui_field (page s) ''watch-xpub-count''"] by fastforce

end
