(* ===== verification/Settings.thy ===== *)
theory Settings
  imports Screens
begin

text \<open>
  The Settings screen of web-wallet/app.js: signing and verifying messages, the colour theme, and
  the PIN that encrypts the phrase at rest. The random bytes of \<open>crypto.getRandomValues\<close> are
  arguments of \<open>btnSetPin\<close>.
\<close>

section \<open>Definitions\<close>

subsection \<open>Messages\<close>

text \<open>The options of the address list; assigning a value that no option has clears the selection.\<close>

definition refreshMsgSignAddressList :: "unit act" where
  "refreshMsgSignAddressList =
     bind (gets st_addressIndices) (\<lambda>is.
     bind (gets st_addresses) (\<lambda>addresses.
     bind (gets st_activeIndex) (\<lambda>active. seqs
       [modify_page (\<lambda>p. p\<lparr>ui_options := map (\<lambda>idx. (dec idx,
          case addresses idx of None \<Rightarrow> ''(address #'' @ dec idx @ '')''
          | Some a \<Rightarrow> if a = [] then ''(address #'' @ dec idx @ '')'' else a)) is\<rparr>),
        setField ''msg-sign-address'' (if active \<in> set is then dec active else [])])))"

text \<open>\<open>Number(value)\<close> of the selection, whose values are indices, or empty when nothing is selected.\<close>

definition selected_index :: "string \<Rightarrow> nat res" where
  "selected_index v =
     (case string_to_number v of
        Fin x \<Rightarrow> jnat (JNum x)
      | _ \<Rightarrow> Inl (TypeErr ''not an index''))"

definition msgSign :: "env \<Rightarrow> unit act" where
  "msgSign E = seqs
     [setText ''msg-sign-error'' [],
      setDisplay ''msg-sign-result'' ''none'',
      bind (field ''msg-sign-address'') (\<lambda>v.
      bind (field ''msg-sign-input'') (\<lambda>message.
        if message = [] then setText ''msg-sign-error'' ''Enter a message to sign.''
        else try_catch
          (bind (lift (selected_index v)) (\<lambda>idx.
           bind (ensureKey E idx) (\<lambda>key.
           bind (lift (signMessage (e_crypto E) (privateKey key) message)) (\<lambda>signature. seqs
             [setField ''msg-sign-output'' signature,
              setDisplay ''msg-sign-result'' ''block'']))))
          (\<lambda>e. setText ''msg-sign-error''
             (if error_message e = [] then ''Could not sign message.'' else error_message e))))]"

definition msgVerify :: "env \<Rightarrow> unit act" where
  "msgVerify E = seqs
     [setText ''msg-verify-error'' [],
      setText ''msg-verify-success'' [],
      bind (field ''msg-verify-address'') (\<lambda>a.
      bind (field ''msg-verify-message'') (\<lambda>message.
      bind (field ''msg-verify-signature'') (\<lambda>g.
        let address = trim a; signature = trim g
        in if address = [] \<or> signature = []
           then setText ''msg-verify-error'' ''Enter an address and a signature to verify.''
           else try_catch
             (bind current_network (\<lambda>net.
              bind (lift (verifyMessage (e_crypto E) address signature message net)) (\<lambda>valid.
                if valid then setText ''msg-verify-success'' ''Valid signature -- this address signed this exact message.''
                else setText ''msg-verify-error'' ''Invalid signature -- does not match this address/message.'')))
             (\<lambda>e. setText ''msg-verify-error''
                (if error_message e = [] then ''Could not verify signature.'' else error_message e)))))]"

subsection \<open>Theme\<close>

definition refreshThemeButtons :: "unit act" where
  "refreshThemeButtons =
     bind (gets (\<lambda>s. ls_theme (ls s))) (\<lambda>t.
       let current = (case t of None \<Rightarrow> ''system'' | Some c \<Rightarrow> if c = [] then ''system'' else c)
       in seqs
         [setActive ''btn-theme-system'' (current = ''system''),
          setActive ''btn-theme-dark'' (current = ''dark''),
          setActive ''btn-theme-light'' (current = ''light'')])"

definition applyTheme :: "string \<Rightarrow> unit act" where
  "applyTheme choice = seqs
     [if choice = ''dark'' \<or> choice = ''light''
      then seqs [modify_ls (\<lambda>l. l\<lparr>ls_theme := Some choice\<rparr>), modify_page (\<lambda>p. p\<lparr>ui_theme := Some choice\<rparr>)]
      else seqs [modify_ls (\<lambda>l. l\<lparr>ls_theme := None\<rparr>), modify_page (\<lambda>p. p\<lparr>ui_theme := None\<rparr>)],
      refreshThemeButtons]"

subsection \<open>The PIN\<close>

definition refreshLockCardVisibility :: "unit act" where
  "refreshLockCardVisibility =
     bind (gets (\<lambda>s. isPinSet (ls s))) (\<lambda>pinSet. seqs
       [setDisplay ''lock-not-set'' (if pinSet then ''none'' else ''block''),
        setDisplay ''lock-is-set'' (if pinSet then ''block'' else ''none'')])"

definition loadSettings :: "unit act" where
  "loadSettings = seqs
     [refreshLockCardVisibility,
      setText ''lock-settings-error'' [],
      setText ''lock-settings-success'' [],
      refreshThemeButtons,
      refreshMsgSignAddressList]"

text \<open>A phrase where a string is expected: the value \<open>null\<close> is converted to its name.\<close>

definition null_text :: "string option \<Rightarrow> string" where
  "null_text m = (case m of None \<Rightarrow> ''null'' | Some t \<Rightarrow> t)"

definition btnSetPin :: "env \<Rightarrow> bytes \<Rightarrow> bytes \<Rightarrow> unit act" where
  "btnSetPin E salt iv = seqs
     [setText ''lock-settings-error'' [],
      setText ''lock-settings-success'' [],
      bind (field ''set-pin'') (\<lambda>pin.
      bind (field ''set-pin-confirm'') (\<lambda>confirmPin.
        if length pin < 4 then setText ''lock-settings-error'' ''PIN must be at least 4 characters.''
        else if pin \<noteq> confirmPin then setText ''lock-settings-error'' ''PINs don't match.''
        else seqs
          [bind (gets st_mnemonic) (\<lambda>m. modify_ls (setPin (e_webcrypto E) salt iv (null_text m) pin)),
           setField ''set-pin'' [],
           setField ''set-pin-confirm'' [],
           setText ''lock-settings-success'' ''PIN set. Your recovery phrase is now encrypted at rest.'',
           refreshLockCardVisibility]))]"

definition lockNow :: "unit act" where
  "lockNow = seqs
     [modify (\<lambda>s. s\<lparr>st_mnemonic := None, st_keys := Map.empty, st_addresses := Map.empty\<rparr>),
      setDisplay ''tabbar'' ''none'',
      modify_page (\<lambda>p. p\<lparr>ui_screen := None\<rparr>),
      setDisplay ''lock-overlay'' ''flex'']"

definition btnRemovePin :: "unit act" where
  "btnRemovePin = seqs
     [bind (gets st_mnemonic) (\<lambda>m. modify_ls (removePin (null_text m))),
      setText ''lock-settings-success'' ''PIN removed; recovery phrase is now stored in plain text.'',
      setText ''lock-settings-error'' [],
      refreshLockCardVisibility]"

section \<open>Frames\<close>

lemma core_settings [keeps_rules]:
  "keeps (core_is c) refreshMsgSignAddressList" "keeps (core_is c) (msgVerify E)" "keeps (core_is c) refreshThemeButtons"
  "keeps (core_is c) refreshLockCardVisibility"
  unfolding refreshMsgSignAddressList_def msgVerify_def refreshThemeButtons_def refreshLockCardVisibility_def
  by (intro keeps_rules)+

lemma core_theme [keeps_rules]: "keeps (core_is c) (applyTheme t)" "keeps (core_is c) loadSettings"
  unfolding applyTheme_def loadSettings_def modify_ls_def
  by (intro keeps_rules core_modify; simp add: core_def)+

context core_predicate
begin

lemmas settings_frames [keeps_rules] = core_settings [THEN keeps_frame] core_theme [THEN keeps_frame]

end

context wallet_predicate
begin

lemma keeps_msgSign [keeps_rules]: "keeps I (msgSign E)"
  unfolding msgSign_def by (intro keeps_rules)

end

end
