(* ===== verification/Staking.thy ===== *)
theory Staking
  imports Settings
begin

text \<open>
  The Staking screen of web-wallet/app.js: log in and sign up, the status and referral cards,
  deposits and withdrawals, and the web-push subscription. The push interfaces of the browser are
  the record \<open>push_api\<close>, an argument of the handler. \<open>loadStaking\<close> calls itself after an expired
  token; the recursion is written as one nested round, and the source's recursive equation is a
  theorem about it.
\<close>

section \<open>Definitions\<close>

subsection \<open>The status cards\<close>

definition stakingLoggedIn :: "app \<Rightarrow> bool" where
  "stakingLoggedIn s \<longleftrightarrow> (case st_stakeToken s of None \<Rightarrow> False | Some t \<Rightarrow> t \<noteq> [])"

definition staking_cards :: "env \<Rightarrow> unit act" where
  "staking_cards E =
     bind (gets stakingLoggedIn) (\<lambda>loggedIn. seqs
       [setDisplay ''staking-auth-card'' (if loggedIn then ''none'' else ''block''),
        setDisplay ''staking-status-card'' (if loggedIn then ''block'' else ''none''),
        setDisplay ''push-card'' (if loggedIn \<and> e_pushSupported E then ''block'' else ''none''),
        setDisplay ''staking-actions-card'' (if loggedIn then ''block'' else ''none''),
        setDisplay ''referral-card'' (if loggedIn then ''block'' else ''none'')])"

text \<open>A property of an answer as an amount, as a rate in percent, and as the text of an element.\<close>

definition cac_amount :: "json \<Rightarrow> string \<Rightarrow> string res" where
  "cac_amount j key = bindE (bindE (jget j key) jBigInt) (\<lambda>n. Inr (formatCac n @ '' CAC''))"

definition percent :: "json \<Rightarrow> string \<Rightarrow> string res" where
  "percent j key = bindE (jget j key) (\<lambda>v. Inr (num_text (js_div (js_Number v) (Fin 100)) @ ''%''))"

definition text_of :: "json \<Rightarrow> string \<Rightarrow> string res" where
  "text_of j key = bindE (jget j key) (\<lambda>v. Inr (if jnullish v then [] else jtext v))"

definition show_status :: "env \<Rightarrow> unit act" where
  "show_status E =
     bind (gets st_stakeToken) (\<lambda>token.
     bind (call E (\<lambda>b. gw_stakingStatus b token)) (\<lambda>status. seqs
       [bind (lift (cac_amount status ''delegated_amount'')) (setText ''stat-delegated''),
        bind (lift (cac_amount status ''accrued_rewards'')) (setText ''stat-rewards''),
        bind (lift (percent status ''effective_monthly_rate_bp'')) (\<lambda>t. setText ''stat-rate'' (t @ '' / month'')),
        bind (lift (percent status ''pool_fee_bp'')) (setText ''stat-fee'')]))"

definition show_referral :: "env \<Rightarrow> unit act" where
  "show_referral E =
     bind (gets st_stakeToken) (\<lambda>token.
     bind (call E (\<lambda>b. gw_referralStatus b token)) (\<lambda>ref. seqs
       [bind (lift (text_of ref ''referral_code'')) (setText ''stat-referral-code''),
        bind (lift (text_of ref ''referred_count'')) (setText ''stat-referral-count''),
        bind (lift (cac_amount ref ''available_satoshis'')) (setText ''stat-referral-available'')]))"

definition referral_row :: "env \<Rightarrow> json \<Rightarrow> string res" where
  "referral_row E r =
     bindE (jget r ''joined_at'') (\<lambda>joined.
     bindE (jget r ''amount_satoshis'') (\<lambda>amount.
     bindE (jget r ''withdrawn'') (\<lambda>withdrawn.
     bindE (if jnullish amount then Inr ''no funded deposit yet''
            else bindE (cac_amount r ''amount_satoshis'') (\<lambda>t.
                   Inr (t @ (if jtruthy withdrawn then '' earned (withdrawn)'' else '' earned (available)'')))) (\<lambda>status.
     bindE (jget r ''referred_email_masked'') (\<lambda>email.
       Inr (''<div class=\"stat-row\"><span>'' @ escapeHtml (jtext email) @ '' (joined ''
         @ e_localDate E (js_mul (js_Number joined) (Fin 1000)) @ '')</span><span>'' @ escapeHtml status @ ''</span></div>''))))))"

definition show_referral_history :: "env \<Rightarrow> unit act" where
  "show_referral_history E =
     bind (gets st_stakeToken) (\<lambda>token.
     bind (call E (\<lambda>b. gw_referralHistory b token)) (\<lambda>resp.
     bind (lift (bindE (jget resp ''referrals'') jlist)) (\<lambda>referrals.
       if referrals = [] then setHtml ''referral-history-list'' ''<p class=\"notice\">No referrals yet.</p>''
       else bind (lift (mapE (referral_row E) referrals)) (\<lambda>rows.
         setHtml ''referral-history-list'' (concat rows)))))"

text \<open>
  One round of \<open>loadStaking\<close>; \<open>again\<close> is the call after an expired token. The first part tells
  whether the round returned early.
\<close>

definition expired :: "js_error \<Rightarrow> bool" where
  "expired e \<longleftrightarrow> (case e of GatewayErr code m \<Rightarrow> code = ''unauthorized'' | _ \<Rightarrow> False)"

definition staking_round :: "env \<Rightarrow> unit act \<Rightarrow> unit act" where
  "staking_round E again = seqs
     [staking_cards E,
      bind (gets stakingLoggedIn) (\<lambda>loggedIn.
        if \<not> loggedIn then ret ()
        else bind (try_catch (bind (show_status E) (\<lambda>_. ret False))
               (\<lambda>e. if expired e
                    then bind (seqs [modify (\<lambda>s. s\<lparr>st_stakeToken := None, ls := (ls s)\<lparr>ss_stakeToken := None\<rparr>\<rparr>), detach again]) (\<lambda>_. ret True)
                    else ret False)) (\<lambda>returned.
             if returned then ret ()
             else seqs
               [try_catch (show_referral E) (\<lambda>_. ret ()),
                try_catch (show_referral_history E) (\<lambda>_. ret ())]))]"

definition loadStaking :: "env \<Rightarrow> unit act" where
  "loadStaking E = staking_round E (staking_round E (ret ()))"

subsection \<open>Referral code\<close>

text \<open>
  Copying the referral code. \<open>ok\<close> is whether the clipboard accepts the text; on success a timer
  is started that puts the present text of the button back.
\<close>

definition referralCopy :: "bool \<Rightarrow> unit act" where
  "referralCopy ok =
     bind (gets (\<lambda>s. ui_text (page s) ''stat-referral-code'')) (\<lambda>code.
       if code = [] \<or> code = ''-'' \<or> \<not> ok then ret ()
       else bind (emit (Copied code)) (\<lambda>_.
            bind (gets (\<lambda>s. ui_text (page s) ''btn-referral-copy'')) (\<lambda>original. seqs
              [setText ''btn-referral-copy'' ''Copied!'',
               modify (\<lambda>s. s\<lparr>v_copyTimers := v_copyTimers s @ [original]\<rparr>)])))"

text \<open>The oldest timer fires first, since all have the same delay.\<close>

definition copyTimer :: "unit act" where
  "copyTimer =
     bind (gets v_copyTimers) (\<lambda>ts.
       case ts of
         [] \<Rightarrow> ret ()
       | original # later \<Rightarrow> seqs
           [setText ''btn-referral-copy'' original, modify (\<lambda>s. s\<lparr>v_copyTimers := later\<rparr>)])"

subsection \<open>Log in and sign up\<close>

definition trimmed_field :: "string \<Rightarrow> string act" where
  "trimmed_field i = bind (field i) (\<lambda>v. ret (trim v))"

definition auth_request :: "env \<Rightarrow> string \<Rightarrow> string \<Rightarrow> string \<Rightarrow> json act" where
  "auth_request E action email password =
     (if action = ''login'' then call E (\<lambda>b. gw_login b email password)
      else bind (trimmed_field ''stake-full-name'') (\<lambda>full_name.
           bind (field ''stake-dob'') (\<lambda>date_of_birth.
           bind (field ''stake-id-type'') (\<lambda>id_type.
           bind (trimmed_field ''stake-id-number'') (\<lambda>id_number.
           bind (trimmed_field ''stake-referral-code'') (\<lambda>referral_code.
             call E (\<lambda>b. gw_signup b email password
               [(''full_name'', JStr full_name), (''date_of_birth'', JStr date_of_birth), (''id_type'', JStr id_type),
                (''id_number'', JStr id_number), (''referral_code'', JStr referral_code)])))))))"

text \<open>The token is kept as received in memory, and as its text in the session storage.\<close>

definition stakeAuth :: "env \<Rightarrow> string \<Rightarrow> unit act" where
  "stakeAuth E action = seqs
     [setText ''stake-auth-error'' [],
      bind (trimmed_field ''stake-email'') (\<lambda>email.
      bind (field ''stake-password'') (\<lambda>password.
        try_catch
          (bind (auth_request E action email password) (\<lambda>result.
           bind (lift (jget result ''token'')) (\<lambda>token. seqs
             [modify (\<lambda>s. s\<lparr>st_stakeToken := (if jtruthy token then Some (jtext token) else None),
                           ls := (ls s)\<lparr>ss_stakeToken := Some (jtext token)\<rparr>\<rparr>),
              detach (loadStaking E)])))
          (\<lambda>e. setText ''stake-auth-error'' (gateway_or_string e))))]"

subsection \<open>Deposits and withdrawals\<close>

text \<open>\<open>String(Math.round(amountCac * 1e8))\<close>\<close>

definition satoshi_text :: "jsnum \<Rightarrow> string" where
  "satoshi_text amountCac = num_text (js_round (js_mul amountCac (Fin 100000000)))"

definition stakeDeposit :: "env \<Rightarrow> unit act" where
  "stakeDeposit E =
     bind (field ''deposit-amount'') (\<lambda>v.
       let amountCac = parseFloat v
       in if \<not> truthy amountCac \<or> le_zero amountCac then ret ()
          else seqs
            [setText ''staking-action-error'' [],
             try_catch
               (bind (gets st_stakeToken) (\<lambda>token.
                bind (call E (\<lambda>b. gw_stakingDeposit b token (satoshi_text amountCac))) (\<lambda>result.
                bind (lift (jget result ''deposit_address'')) (\<lambda>a.
                  setText ''deposit-result'' (''Send funds to: '' @ jtext a)))))
               (\<lambda>e. seqs
                  [setText ''deposit-result'' [], setText ''staking-action-error'' (gateway_or_string e)])])"

definition withdrawal_done :: "env \<Rightarrow> string \<Rightarrow> json \<Rightarrow> unit act" where
  "withdrawal_done E ok result =
     bind (lift (jget result ''txid'')) (\<lambda>txid. seqs
       [setText ok (''Withdrawal broadcast: '' @ jtext txid), detach (loadStaking E)])"

definition stakeWithdraw :: "env \<Rightarrow> unit act" where
  "stakeWithdraw E = seqs
     [setText ''staking-action-error'' [],
      setText ''staking-action-success'' [],
      bind (field ''withdraw-amount'') (\<lambda>v.
      bind (trimmed_field ''withdraw-address'') (\<lambda>toAddress.
        let amountCac = parseFloat v
        in if \<not> truthy amountCac \<or> le_zero amountCac \<or> toAddress = []
           then setText ''staking-action-error'' ''Enter an amount and destination address.''
           else try_catch
             (bind (gets st_stakeToken) (\<lambda>token.
              bind (call E (\<lambda>b. gw_stakingWithdraw b token (satoshi_text amountCac) toAddress))
                (withdrawal_done E ''staking-action-success'')))
             (\<lambda>e. setText ''staking-action-error'' (gateway_or_string e))))]"

definition referralWithdraw :: "env \<Rightarrow> unit act" where
  "referralWithdraw E = seqs
     [setText ''referral-action-error'' [],
      setText ''referral-action-success'' [],
      bind (trimmed_field ''referral-withdraw-address'') (\<lambda>toAddress.
        if toAddress = [] then setText ''referral-action-error'' ''Enter a destination address.''
        else try_catch
          (bind (gets st_stakeToken) (\<lambda>token.
           bind (call E (\<lambda>b. gw_referralWithdraw b token toAddress)) (withdrawal_done E ''referral-action-success'')))
          (\<lambda>e. setText ''referral-action-error'' (gateway_or_string e)))]"

subsection \<open>Web push\<close>

definition url_char :: "char \<Rightarrow> char" where
  "url_char c = (if c = CHR ''-'' then CHR ''+'' else if c = CHR ''_'' then CHR ''/'' else c)"

definition urlBase64ToUint8Array :: "string \<Rightarrow> bytes res" where
  "urlBase64ToUint8Array base64url =
     (let padding = replicate ((4 - length base64url mod 4) mod 4) (CHR ''='');
          base64 = map url_char (base64url @ padding)
      in base64Decode base64)"

text \<open>
  \<^item> \<open>requestPermission\<close>: the outcome of \<open>Notification.requestPermission()\<close>;
  \<^item> \<open>register\<close>: of \<open>navigator.serviceWorker.register\<close> and \<open>ready\<close>;
  \<^item> \<open>getSubscription\<close>, \<open>subscribe key\<close>: of the push manager, the subscription as its \<open>toJSON()\<close>.
\<close>

record push_api =
  requestPermission :: "string res"
  register :: "unit res"
  getSubscription :: "(string \<times> json) list option res"
  subscribe :: "bytes \<Rightarrow> (string \<times> json) list res"

definition enablePush :: "env \<Rightarrow> push_api \<Rightarrow> unit act" where
  "enablePush E P = seqs
     [setText ''push-error'' [],
      setText ''push-success'' [],
      try_catch
        (bind (lift (requestPermission P)) (\<lambda>permission.
          if permission \<noteq> ''granted'' then setText ''push-error'' ''Notification permission was not granted.''
          else bind (call E gw_pushVapidPublicKey) (\<lambda>answer.
               bind (lift (jget answer ''public_key'')) (\<lambda>vapid.
               bind (lift (register P)) (\<lambda>_.
               bind (lift (getSubscription P)) (\<lambda>existing.
               bind (case existing of
                       Some sub \<Rightarrow> ret sub
                     | None \<Rightarrow> lift (bindE (bindE (jstring vapid) urlBase64ToUint8Array) (subscribe P))) (\<lambda>subscription.
               bind (gets st_stakeToken) (\<lambda>token.
               bind (call E (\<lambda>b. gw_pushSubscribe b token subscription)) (\<lambda>_.
                 setText ''push-success'' ''Notifications enabled.'')))))))))
        (\<lambda>e. setText ''push-error'' (gateway_or_string e))]"

section \<open>Frames\<close>

lemmas staking_defs = staking_cards_def show_status_def show_referral_def show_referral_history_def

lemma core_staking_cards [keeps_rules]:
  "keeps (core_is c) (staking_cards E)" "keeps (core_is c) (show_status E)" "keeps (core_is c) (show_referral E)"
  "keeps (core_is c) (show_referral_history E)"
  unfolding staking_defs by (intro keeps_rules)+

lemma core_staking_round: "keeps (core_is c) again \<Longrightarrow> keeps (core_is c) (staking_round E again)"
  unfolding staking_round_def by (intro keeps_rules core_modify; simp add: core_def)

lemma core_staking [keeps_rules]:
  "keeps (core_is c) (loadStaking E)" "keeps (core_is c) (trimmed_field i)" "keeps (core_is c) (auth_request E a em pw)"
  unfolding loadStaking_def trimmed_field_def auth_request_def by (intro keeps_rules core_staking_round)+

lemma core_staking_actions [keeps_rules]:
  "keeps (core_is c) (referralCopy ok)" "keeps (core_is c) copyTimer" "keeps (core_is c) (stakeAuth E a)"
  "keeps (core_is c) (stakeDeposit E)" "keeps (core_is c) (stakeWithdraw E)" "keeps (core_is c) (referralWithdraw E)"
  "keeps (core_is c) (enablePush E P)"
  unfolding referralCopy_def copyTimer_def stakeAuth_def stakeDeposit_def stakeWithdraw_def referralWithdraw_def
    enablePush_def withdrawal_done_def
  by (intro keeps_rules core_modify; simp add: core_def)+

context core_predicate
begin

lemmas staking_frames [keeps_rules] =
  core_staking [THEN keeps_frame] core_staking_actions [THEN keeps_frame]

end

section \<open>The recursion of loadStaking\<close>

lemma staking_cards_token: "staking_cards E s = (r, s') \<Longrightarrow> stakingLoggedIn s' = stakingLoggedIn s"
  unfolding staking_cards_def by (auto simp: act_simps stakingLoggedIn_def)

lemma round_logged_out: "\<not> stakingLoggedIn s \<Longrightarrow> staking_round E again s = staking_cards E s"
  unfolding staking_round_def
  by (auto simp: bind_apply gets_apply ret_apply dest: staking_cards_token split: prod.split sum.split)

lemma round_again:
  assumes "\<And>s. \<not> stakingLoggedIn s \<Longrightarrow> m s = n s"
  shows "staking_round E m = staking_round E n"
proof -
  let ?out = "\<lambda>s. s\<lparr>st_stakeToken := None, ls := (ls s)\<lparr>ss_stakeToken := None\<rparr>\<rparr>"
  have "m (?out s) = n (?out s)" for s using assms by (simp add: stakingLoggedIn_def)
  then have "seqs [modify ?out, detach m] = seqs [modify ?out, detach n]"
    by (simp add: fun_eq_iff act_simps)
  then show ?thesis unfolding staking_round_def by (simp only:)
qed

section \<open>Keys of push subscriptions\<close>

text \<open>Base64 with the URL alphabet and without padding.\<close>

definition base64url :: "bytes \<Rightarrow> string" where
  "base64url bs = map (\<lambda>c. if c = CHR ''+'' then CHR ''-'' else if c = CHR ''/'' then CHR ''_'' else c)
     (takeWhile (\<lambda>c. c \<noteq> CHR ''='') (btoa bs))"

lemma url_alphabet:
  "c \<in> set B64_ALPHABET \<Longrightarrow>
     url_char (if c = CHR ''+'' then CHR ''-'' else if c = CHR ''/'' then CHR ''_'' else c) = c"
proof -
  have "\<forall>c\<in>set B64_ALPHABET. url_char (if c = CHR ''+'' then CHR ''-'' else if c = CHR ''/'' then CHR ''_'' else c) = c"
    by code_simp
  then show "c \<in> set B64_ALPHABET \<Longrightarrow> ?thesis" by blast
qed

lemma urlBase64_base64url: "urlBase64ToUint8Array (base64url bs) = Inr bs"
proof -
  let ?ns = "map unat bs" let ?t = "map b64_char (sextets (map unat bs))"
  have "\<forall>n\<in>set ?ns. n < 256" using unat_byte_less by auto
  then have s: "n < 64" if "n \<in> set (sextets ?ns)" for n using sextets_less that by blast
  have t: "btoa bs = ?t @ padding ?ns" by (simp add: btoa_def b64_text_eq)
  define k where "k = length (sextets ?ns) mod 4"
  have "(4 - k) mod 4 = 0 \<and> padding ?ns = [] \<or> (4 - k) mod 4 = 2 \<and> padding ?ns = ''=='' \<or> (4 - k) mod 4 = 1 \<and> padding ?ns = ''=''"
    using sextets_padding [of ?ns] unfolding k_def [symmetric] by (elim disjE) simp_all
  then have p: "padding ?ns = replicate ((4 - length ?t mod 4) mod 4) (CHR ''='')"
    unfolding length_map k_def [symmetric] by (elim disjE) (simp_all add: numeral_2_eq_2)
  have "takeWhile (\<lambda>c. c \<noteq> CHR ''='') (btoa bs) = ?t"
    unfolding t p using s b64_char_props(3) by (subst takeWhile_append2) (auto simp: takeWhile_replicate)
  then have u: "base64url bs = map (\<lambda>c. if c = CHR ''+'' then CHR ''-'' else if c = CHR ''/'' then CHR ''_'' else c) ?t"
    by (simp add: base64url_def)
  have l: "length (base64url bs) = length ?t" by (simp add: u)
  have "map url_char (base64url bs @ padding ?ns) = ?t @ padding ?ns"
    unfolding u using url_alphabet b64_char_props(1) s by (auto simp: p url_char_def)
  then have "map url_char (base64url bs @ replicate ((4 - length (base64url bs) mod 4) mod 4) (CHR ''='')) = btoa bs"
    unfolding l by (simp only: p t)
  then show ?thesis by (simp add: urlBase64ToUint8Array_def base64Decode_def del: map_append)
qed

section \<open>Properties\<close>

text \<open>
  Loading the Staking screen ends: the call it makes to itself after an expired token finds no
  token any more, so one nested call is enough and the definition satisfies the recursive equation
  of the source.
\<close>

theorem loadStaking_recursion: "loadStaking E = staking_round E (loadStaking E)"
  unfolding loadStaking_def by (rule round_again) (simp add: round_logged_out)

text \<open>
  The public key for push subscriptions is recovered from its URL-safe base64 text, for every
  length of key.
\<close>

theorem urlBase64ToUint8Array_inverts: "urlBase64ToUint8Array (base64url bs) = Inr bs"
  by (rule urlBase64_base64url)

text \<open>
  Copying the referral code twice before the first timer fires leaves the button with the text
  "Copied!" for good: the second click remembers that text as the original one.
\<close>

theorem referralCopy_twice_sticks:
  assumes "ui_text (page s) ''stat-referral-code'' \<notin> {[], ''-''}" "v_copyTimers s = []"
  shows "let s' = snd (seqs [referralCopy True, referralCopy True, copyTimer, copyTimer] s)
    in v_copyTimers s' = [] \<and> ui_text (page s') ''btn-referral-copy'' = ''Copied!''"
  using assms by (simp add: referralCopy_def copyTimer_def act_simps)

theorem referralCopy_twice_sticks_witness:
  "let s = demo_app\<lparr>page := initial_page\<lparr>ui_text := \<lambda>_. ''CODE''\<rparr>\<rparr>;
       s' = snd (seqs [referralCopy True, referralCopy True, copyTimer, copyTimer] s)
    in v_copyTimers s' = [] \<and> ui_text (page s') ''btn-referral-copy'' = ''Copied!''"
  using referralCopy_twice_sticks [of "demo_app\<lparr>page := initial_page\<lparr>ui_text := \<lambda>_. ''CODE''\<rparr>\<rparr>"]
  by (simp add: demo_app_def initial_state_def)

end
