(* ===== verification/Multisig.thy ===== *)
theory Multisig
  imports Transaction
begin

text \<open>
  The m-of-n multisig of web-wallet/crypto.js: redeem scripts, proposals that travel between the
  cosigners, signing, merging and finalizing. A signature map \<open>pubkeyHex -> derSigHex\<close> is a
  finite map; the JSON copies of a proposal are the proposal value itself. \<open>None\<close> stands for the
  Number NaN where the code can produce it. The properties relate the redeem script to its
  reader, parallel signing with merging to sequential signing, and the final scripts to a
  reference reader of push-only scripts.
\<close>

section \<open>Definitions\<close>

definition OP_CHECKMULTISIG :: byte where
  "OP_CHECKMULTISIG = 0xae"

text \<open>\<open>opN\<close>: both comparisons are false of NaN, and an \<open>Uint8Array\<close> element NaN is 0.\<close>

definition opN :: "int option \<Rightarrow> byte res" where
  "opN n = (case n of
      None \<Rightarrow> Inr 0
    | Some k \<Rightarrow> if k < 1 \<or> 16 < k then Inl (JsError ''OP_N only supports 1..16'') else Inr (of_int (0x50 + k)))"

fun pubkey_parts :: "bytes list \<Rightarrow> bytes list res" where
  "pubkey_parts [] = Inr []"
| "pubkey_parts (pk # pks) =
     (if length pk \<noteq> 33 then Inl (JsError ''Only compressed (33-byte) pubkeys are supported'')
      else bindE (pubkey_parts pks) (\<lambda>parts. Inr ([of_nat (length pk)] # pk # parts)))"

definition createMultisigRedeemScript :: "int option \<Rightarrow> bytes list \<Rightarrow> bytes res" where
  "createMultisigRedeemScript m pks =
     (if (case m of None \<Rightarrow> False | Some k \<Rightarrow> k < 1 \<or> int (length pks) < k)
      then Inl (JsError ''m must be between 1 and the number of pubkeys'')
      else if 16 < length pks then Inl (JsError ''at most 16 pubkeys supported (OP_N range)'')
      else bindE (opN m) (\<lambda>om.
           bindE (pubkey_parts pks) (\<lambda>parts.
           bindE (opN (Some (int (length pks)))) (\<lambda>on.
             Inr (concatBytes ([[om]] @ parts @ [[on, OP_CHECKMULTISIG]]))))))"

definition multisigAddress :: "crypto \<Rightarrow> bytes \<Rightarrow> network \<Rightarrow> string res" where
  "multisigAddress C redeemScript net = p2shAddress C (hash160 C redeemScript) net"

record multisig_input =
  mi_txid :: bytes
  mi_vout :: nat
  mi_value :: int
  mi_redeemScript :: bytes

record proposal_input =
  pi_txid :: string
  pi_vout :: nat
  pi_value :: int
  pi_redeemScript :: string

record proposal_output =
  po_scriptPubKey :: string
  po_value :: int

type_synonym sig_map = "string \<rightharpoonup> string"

record proposal =
  p_version :: nat
  p_locktime :: nat
  p_inputs :: "proposal_input list"
  p_outputs :: "proposal_output list"
  p_signatures :: "sig_map list"

definition createMultisigProposal :: "multisig_input list \<Rightarrow> tx_output list \<Rightarrow> nat \<Rightarrow> proposal" where
  "createMultisigProposal inputs outputs locktime = \<lparr>
     p_version = 2, p_locktime = locktime,
     p_inputs = map (\<lambda>i. \<lparr>pi_txid = bytesToHex (mi_txid i), pi_vout = mi_vout i, pi_value = mi_value i,
                          pi_redeemScript = bytesToHex (mi_redeemScript i)\<rparr>) inputs,
     p_outputs = map (\<lambda>out. \<lparr>po_scriptPubKey = bytesToHex (scriptPubKey out), po_value = valueSatoshis out\<rparr>) outputs,
     p_signatures = map (\<lambda>_. Map.empty) inputs\<rparr>"

definition proposalToTxInputsOutputs :: "proposal \<Rightarrow> tx_input list \<times> tx_output list" where
  "proposalToTxInputsOutputs P =
     (map (\<lambda>i. \<lparr>prevTxid = hexToBytes (pi_txid i), prevVout = pi_vout i, scriptSig = [], sequence = None\<rparr>) (p_inputs P),
      map (\<lambda>out. \<lparr>scriptPubKey = hexToBytes (po_scriptPubKey out), valueSatoshis = po_value out\<rparr>) (p_outputs P))"

definition scriptContainsPubkey :: "bytes \<Rightarrow> bytes \<Rightarrow> bool" where
  "scriptContainsPubkey redeemScript pubkeyCompressed =
     (let needle = bytesToHex pubkeyCompressed; hex = bytesToHex redeemScript in js_includes hex needle)"

text \<open>The loop of \<open>signMultisigProposal\<close>; writing to \<open>signatures[i]\<close> beyond the array throws.\<close>

fun sign_proposal_loop ::
    "crypto \<Rightarrow> proposal \<Rightarrow> bytes \<Rightarrow> bytes \<Rightarrow> nat \<Rightarrow> proposal_input list \<Rightarrow> sig_map list \<Rightarrow> sig_map list res" where
  "sign_proposal_loop C P privk pubk i [] sigs = Inr sigs"
| "sign_proposal_loop C P privk pubk i (inp # inps) sigs =
     (let (txInputs, outputs) = proposalToTxInputsOutputs P;
          pubkeyHex = bytesToHex pubk;
          redeemScript = hexToBytes (pi_redeemScript inp)
      in if \<not> scriptContainsPubkey redeemScript pubk
         then sign_proposal_loop C P privk pubk (Suc i) inps sigs
         else let sighash = legacySighash C txInputs outputs i redeemScript (p_locktime P)
              in bindE (secp_sign C sighash privk) (\<lambda>sg.
                   let derSig = derEncodeSignature sg
                   in if length sigs \<le> i then Inl (TypeErr ''signatures[i]'')
                      else sign_proposal_loop C P privk pubk (Suc i) inps
                             (sigs[i := (sigs ! i)(pubkeyHex \<mapsto> bytesToHex (concatBytes [derSig, [0x01]]))])))"

definition signMultisigProposal :: "crypto \<Rightarrow> proposal \<Rightarrow> bytes \<Rightarrow> bytes \<Rightarrow> proposal res" where
  "signMultisigProposal C P privk pubk =
     bindE (sign_proposal_loop C P privk pubk 0 (p_inputs P) (p_signatures P)) (\<lambda>sigs. Inr (P\<lparr>p_signatures := sigs\<rparr>))"

text \<open>\<open>Object.assign\<close> per input; a missing source is ignored.\<close>

definition assign_signatures :: "sig_map list \<Rightarrow> sig_map list \<Rightarrow> sig_map list" where
  "assign_signatures merged src =
     map (\<lambda>(i, s). if i < length src then s ++ (src ! i) else s) (enumerate 0 merged)"

definition mergeMultisigProposals :: "proposal list \<Rightarrow> proposal res" where
  "mergeMultisigProposals proposals =
     (case proposals of
        [] \<Rightarrow> Inl (SyntaxErr ''JSON.parse'')
      | p # ps \<Rightarrow> Inr (p\<lparr>p_signatures := foldl assign_signatures (p_signatures p) (map p_signatures ps)\<rparr>))"

text \<open>The loop of \<open>parsePubkeysInOrder\<close>, from index \<open>i\<close>.\<close>

function parse_pubkeys_from :: "bytes \<Rightarrow> nat \<Rightarrow> string list" where
  "parse_pubkeys_from redeemScript i =
     (if i < length redeemScript then
        let opcode = unat (redeemScript ! i)
        in if 1 \<le> opcode \<and> opcode \<le> 75
           then bytesToHex (js_slice redeemScript (int (i + 1)) (int (i + 1 + opcode)))
                  # parse_pubkeys_from redeemScript (i + 1 + opcode)
           else []
      else [])"
  by pat_completeness auto
termination by (relation "measure (\<lambda>(rs, i). length rs - i)") auto

declare parse_pubkeys_from.simps [simp del]

definition parsePubkeysInOrder :: "bytes \<Rightarrow> string list" where
  "parsePubkeysInOrder redeemScript = parse_pubkeys_from redeemScript 1"

text \<open>
  One round of the loop of \<open>finalizeMultisigTransaction\<close>: the script of input \<open>i\<close>. Without a first
  byte \<open>m\<close> is NaN, which fails no comparison and slices nothing.
\<close>

definition final_script :: "sig_map list \<Rightarrow> nat \<Rightarrow> proposal_input \<Rightarrow> bytes res" where
  "final_script signatures i inp =
     (let redeemScript = hexToBytes (pi_redeemScript inp);
          m = (case redeemScript of [] \<Rightarrow> None | b # _ \<Rightarrow> Some (int (unat b) - 0x50));
          pubkeysInOrder = parsePubkeysInOrder redeemScript
      in if length signatures \<le> i \<and> pubkeysInOrder \<noteq> [] then Inl (TypeErr ''signatures[i]'')
         else let collected = (\<lambda>pk. (signatures ! i) pk);
                  orderedSigs = [s. Some s \<leftarrow> map collected pubkeysInOrder, s \<noteq> []]
              in if (case m of None \<Rightarrow> False | Some k \<Rightarrow> int (length orderedSigs) < k)
                 then Inl (JsError (''Input '' @ dec i @ '' has '' @ dec (length orderedSigs) @ '' signature(s), needs ''
                             @ dec_int (the m)))
                 else let sigsToUse = map hexToBytes (case m of None \<Rightarrow> [] | Some k \<Rightarrow> js_slice orderedSigs 0 k);
                          parts = [[0x00]] @ concat (map (\<lambda>sg. [[of_nat (length sg)], sg]) sigsToUse)
                                    @ [varInt (length redeemScript), redeemScript]
                      in Inr (concatBytes parts))"

definition finalizeMultisigTransaction :: "proposal \<Rightarrow> bytes res" where
  "finalizeMultisigTransaction P =
     (let (txInputs, outputs) = proposalToTxInputsOutputs P
      in bindE (mapE (\<lambda>(i, inp). final_script (p_signatures P) i inp) (enumerate 0 (p_inputs P))) (\<lambda>scripts.
           Inr (serializeTx (p_version P) (with_scripts txInputs scripts) outputs (p_locktime P))))"

subsection \<open>Reference reader of push-only scripts\<close>

text \<open>
  The data a script pushes, when it consists of pushes only: \<open>OP_0\<close>, direct pushes of 1 to 75
  bytes, and \<open>OP_PUSHDATA1\<close> and \<open>OP_PUSHDATA2\<close> with their little-endian lengths.
\<close>

function script_pushes :: "bytes \<Rightarrow> bytes list option" where
  "script_pushes [] = Some []"
| "script_pushes (b # rest) =
     (let (k, body) =
        (if unat b \<le> 75 then (unat b, rest)
         else if b = 0x4c \<and> rest \<noteq> [] then (unat (hd rest), tl rest)
         else if b = 0x4d \<and> 2 \<le> length rest then (unat (rest ! 0) + 256 * unat (rest ! 1), drop 2 rest)
         else (Suc (length rest), rest))
      in if length body < k then None else map_option ((#) (take k body)) (script_pushes (drop k body)))"
  by pat_completeness auto
termination
  by (relation "measure length") (auto split: if_splits simp: le_imp_less_Suc)

section \<open>Redeem scripts\<close>

lemma pubkey_parts_eq:
  "pubkey_parts pks = Inr parts \<Longrightarrow> list_all (\<lambda>pk. length pk = 33) pks \<and> concat parts = concat (map ((#) 33) pks)"
  by (induction pks arbitrary: parts) (auto simp: bindE_eq_Inr split: if_splits)

lemma pubkey_parts_ok: "list_all (\<lambda>pk. length pk = 33) pks \<Longrightarrow> \<exists>parts. pubkey_parts pks = Inr parts"
  by (induction pks) auto

definition multisig_script :: "nat \<Rightarrow> bytes list \<Rightarrow> bytes" where
  "multisig_script m pks = of_nat (0x50 + m) # concat (map ((#) 33) pks) @ [of_nat (0x50 + length pks), OP_CHECKMULTISIG]"

lemma redeem_script_eq:
  "createMultisigRedeemScript (Some m) pks = Inr rs \<longleftrightarrow>
     1 \<le> m \<and> m \<le> int (length pks) \<and> length pks \<le> 16 \<and> list_all (\<lambda>pk. length pk = 33) pks
       \<and> rs = multisig_script (nat m) pks"
proof -
  have "of_int (80 + m) = (of_nat (80 + nat m) :: byte)" if "1 \<le> m"
    using of_int_of_nat_eq [of "80 + nat m", where ?'a = byte] that by simp
  moreover have "of_int (80 + int (length pks)) = (of_nat (80 + length pks) :: byte)"
    by simp
  ultimately show ?thesis
    using pubkey_parts_ok [of pks] pubkey_parts_eq [of pks]
    by (auto simp: createMultisigRedeemScript_def opN_def multisig_script_def bindE_eq_Inr)
qed

lemma js_slice_nat: "a \<le> b \<Longrightarrow> js_slice xs (int a) (int b) = take (b - a) (drop a xs)"
  by (simp add: js_slice_nonneg)

lemma parse_pubkeys_walk:
  assumes "list_all (\<lambda>pk. length pk = 33) pks" "75 < unat t"
  shows "parse_pubkeys_from (pre @ concat (map ((#) 33) pks) @ t # rest) (length pre) = map bytesToHex pks"
  using assms
proof (induction pks arbitrary: pre)
  case Nil
  then show ?case by (simp add: parse_pubkeys_from.simps)
next
  case (Cons pk pks)
  let ?rest = "concat (map ((#) 33) pks) @ t # rest"
  have "parse_pubkeys_from (pre @ 33 # pk @ ?rest) (length pre)
      = bytesToHex (js_slice (pre @ 33 # pk @ ?rest) (int (length pre + 1)) (int (length pre + 1 + 33)))
          # parse_pubkeys_from (pre @ 33 # pk @ ?rest) (length pre + 1 + 33)"
    by (subst parse_pubkeys_from.simps) (simp add: nth_append)
  moreover have "js_slice (pre @ 33 # pk @ ?rest) (int (length pre + 1)) (int (length pre + 1 + 33)) = pk"
    using Cons.prems by (subst js_slice_nat) simp_all
  moreover have "parse_pubkeys_from (pre @ 33 # pk @ ?rest) (length pre + 1 + 33) = map bytesToHex pks"
    using Cons.IH [of "pre @ 33 # pk"] Cons.prems by simp
  ultimately show ?case by simp
qed

lemma unat_OP: "k \<le> 16 \<Longrightarrow> unat (of_nat (80 + k) :: byte) = 80 + k"
  by (rule unat_of_nat_byte) simp

lemma parse_multisig_script:
  assumes "list_all (\<lambda>pk. length pk = 33) pks" "length pks \<le> 16"
  shows "parsePubkeysInOrder (multisig_script m pks) = map bytesToHex pks"
  using parse_pubkeys_walk [OF assms(1), of "of_nat (80 + length pks)" "[of_nat (80 + m)]" "[OP_CHECKMULTISIG]"]
    unat_OP [OF assms(2)]
  by (simp add: parsePubkeysInOrder_def multisig_script_def del: of_nat_add)

lemma multisig_script_length:
  "list_all (\<lambda>pk. length pk = 33) pks \<Longrightarrow> length (multisig_script m pks) = 3 + 34 * length pks"
  by (induction pks) (simp_all add: multisig_script_def)

lemma multisig_script_contains:
  assumes "pk \<in> set pks"
  shows "scriptContainsPubkey (multisig_script m pks) pk"
proof -
  obtain as bs where pks: "pks = as @ pk # bs" using assms by (metis split_list)
  show ?thesis
    unfolding scriptContainsPubkey_def Let_def includes_iff
    by (rule exI [of _ "bytesToHex (of_nat (0x50 + m) # concat (map ((#) 33) as) @ [33])"],
        rule exI [of _ "bytesToHex (concat (map ((#) 33) bs) @ [of_nat (0x50 + length pks), OP_CHECKMULTISIG])"])
      (simp add: multisig_script_def pks bytesToHex_append)
qed

section \<open>Signing and merging\<close>

text \<open>
  What one signer adds to the signatures of input \<open>i\<close>. It depends on the proposal's inputs, outputs
  and lock time only, never on the signatures already collected.
\<close>

definition sig_text :: "crypto \<Rightarrow> proposal \<Rightarrow> bytes \<Rightarrow> nat \<Rightarrow> proposal_input \<Rightarrow> string" where
  "sig_text C P privk i inp =
     (let (txInputs, outputs) = proposalToTxInputsOutputs P
      in case secp_sign C (legacySighash C txInputs outputs i (hexToBytes (pi_redeemScript inp)) (p_locktime P)) privk of
           Inl _ \<Rightarrow> []
         | Inr sg \<Rightarrow> bytesToHex (derEncodeSignature sg @ [0x01]))"

definition add_sig :: "crypto \<Rightarrow> proposal \<Rightarrow> bytes \<times> bytes \<Rightarrow> nat \<times> proposal_input \<Rightarrow> sig_map \<Rightarrow> sig_map" where
  "add_sig C P kp iinp s =
     (if scriptContainsPubkey (hexToBytes (pi_redeemScript (snd iinp))) (snd kp)
      then s(bytesToHex (snd kp) \<mapsto> sig_text C P (fst kp) (fst iinp) (snd iinp)) else s)"

definition add_sigs :: "crypto \<Rightarrow> proposal \<Rightarrow> bytes \<times> bytes \<Rightarrow> sig_map list \<Rightarrow> sig_map list" where
  "add_sigs C P kp sigs = map2 (add_sig C P kp) (enumerate 0 (p_inputs P)) sigs"

definition can_sign :: "crypto \<Rightarrow> bytes \<times> bytes \<Rightarrow> bool" where
  "can_sign C kp \<longleftrightarrow> (\<forall>h. \<exists>sg. secp_sign C h (fst kp) = Inr sg)"

definition wf_proposal :: "proposal \<Rightarrow> bool" where
  "wf_proposal P \<longleftrightarrow> length (p_signatures P) = length (p_inputs P)"

lemma add_sig_signatures [simp]: "add_sig C (P\<lparr>p_signatures := x\<rparr>) = add_sig C P"
  by (rule ext)+ (simp add: add_sig_def sig_text_def proposalToTxInputsOutputs_def)

lemma add_sigs_signatures [simp]: "add_sigs C (P\<lparr>p_signatures := x\<rparr>) = add_sigs C P"
  by (rule ext)+ (simp add: add_sigs_def)

lemma add_sigs_length [simp]: "length sigs = length (p_inputs P) \<Longrightarrow> length (add_sigs C P kp sigs) = length (p_inputs P)"
  by (simp add: add_sigs_def)

lemma sign_loop_proposal:
  assumes "can_sign C (privk, pubk)" "i + length inps = length sigs"
  shows "sign_proposal_loop C P privk pubk i inps sigs
    = Inr (take i sigs @ map2 (add_sig C P (privk, pubk)) (enumerate i inps) (drop i sigs))"
  using assms(2)
proof (induction inps arbitrary: i sigs)
  case (Cons inp inps)
  have i: "i < length sigs" using Cons.prems by simp
  define s' where "s' = add_sig C P (privk, pubk) (i, inp) (sigs ! i)"
  have "sign_proposal_loop C P privk pubk i (inp # inps) sigs
      = sign_proposal_loop C P privk pubk (Suc i) inps (sigs[i := s'])"
  proof (cases "scriptContainsPubkey (hexToBytes (pi_redeemScript inp)) pubk")
    case True
    obtain sg where "secp_sign C (legacySighash C (fst (proposalToTxInputsOutputs P)) (snd (proposalToTxInputsOutputs P)) i
        (hexToBytes (pi_redeemScript inp)) (p_locktime P)) privk = Inr sg"
      using assms(1) by (fastforce simp: can_sign_def)
    then show ?thesis using True i by (simp add: s'_def add_sig_def sig_text_def split_def Let_def)
  qed (simp add: s'_def add_sig_def split_def Let_def)
  then show ?case
    using Cons.IH [of "Suc i" "sigs[i := s']"] Cons.prems i
    by (simp add: s'_def take_Suc_conv_app_nth Cons_nth_drop_Suc [symmetric])
qed simp

lemma sign_eq:
  assumes "can_sign C kp" "wf_proposal P"
  shows "signMultisigProposal C P (fst kp) (snd kp) = Inr (P\<lparr>p_signatures := add_sigs C P kp (p_signatures P)\<rparr>)"
  using sign_loop_proposal [of C "fst kp" "snd kp" 0 "p_inputs P" "p_signatures P"] assms
  by (simp add: signMultisigProposal_def wf_proposal_def add_sigs_def)

definition sign_in_turn :: "crypto \<Rightarrow> (bytes \<times> bytes) list \<Rightarrow> proposal \<Rightarrow> proposal res" where
  "sign_in_turn C kps P = foldl (\<lambda>r kp. bindE r (\<lambda>Q. signMultisigProposal C Q (fst kp) (snd kp))) (Inr P) kps"

definition sign_copies :: "crypto \<Rightarrow> (bytes \<times> bytes) list \<Rightarrow> proposal \<Rightarrow> proposal list res" where
  "sign_copies C kps P = mapE (\<lambda>kp. signMultisigProposal C P (fst kp) (snd kp)) kps"

lemma sign_in_turn_eq:
  assumes "list_all (can_sign C) kps" "wf_proposal P"
  shows "sign_in_turn C kps P = Inr (P\<lparr>p_signatures := foldl (\<lambda>s kp. add_sigs C P kp s) (p_signatures P) kps\<rparr>)"
  using assms
proof (induction kps arbitrary: P)
  case (Cons kp kps)
  let ?Q = "P\<lparr>p_signatures := add_sigs C P kp (p_signatures P)\<rparr>"
  have "wf_proposal ?Q" using Cons.prems by (simp add: wf_proposal_def)
  then have "sign_in_turn C kps ?Q = Inr (?Q\<lparr>p_signatures := foldl (\<lambda>s kp. add_sigs C P kp s) (p_signatures ?Q) kps\<rparr>)"
    using Cons.IH [of ?Q] Cons.prems by simp
  then show ?case using Cons.prems sign_eq [of C kp P] by (simp add: sign_in_turn_def)
qed (simp add: sign_in_turn_def)

lemma assign_add_sigs:
  assumes "length s = length (p_inputs P)"
  shows "assign_signatures s (add_sigs C P kp (replicate (length (p_inputs P)) Map.empty)) = add_sigs C P kp s"
  using assms
  by (intro nth_equalityI) (auto simp: assign_signatures_def add_sigs_def add_sig_def nth_enumerate_eq)

lemma merge_copies:
  assumes "list_all (can_sign C) kps" "kps \<noteq> []"
    and "p_signatures P = replicate (length (p_inputs P)) Map.empty"
  shows "bindE (sign_copies C kps P) mergeMultisigProposals = sign_in_turn C kps P"
proof -
  let ?n = "length (p_inputs P)"
  have wf: "wf_proposal P" using assms(3) by (simp add: wf_proposal_def)
  have copies: "sign_copies C kps P = Inr (map (\<lambda>kp. P\<lparr>p_signatures := add_sigs C P kp (p_signatures P)\<rparr>) kps)"
    unfolding sign_copies_def using assms(1) sign_eq [OF _ wf]
    by (intro mapE_Inr) (simp add: list_all_iff)
  have fold: "foldl assign_signatures s (map (\<lambda>kp. add_sigs C P kp (replicate ?n Map.empty)) ks)
      = foldl (\<lambda>s kp. add_sigs C P kp s) s ks" if "length s = ?n" for s ks
    using that by (induction ks arbitrary: s) (simp_all add: assign_add_sigs)
  obtain kp ks where ks: "kps = kp # ks" using assms(2) by (cases kps) auto
  show ?thesis
    using fold [of "add_sigs C P kp (replicate ?n Map.empty)" ks] assms(3)
    unfolding copies sign_in_turn_eq [OF assms(1) wf] unfolding ks by (simp add: mergeMultisigProposals_def comp_def)
qed

section \<open>Finalizing\<close>

lemma add_sigs_fold_nth:
  assumes "length s = length (p_inputs P)" "i < length (p_inputs P)"
  shows "foldl (\<lambda>s kp. add_sigs C P kp s) s kps ! i
      = foldl (\<lambda>t kp. add_sig C P kp (i, p_inputs P ! i) t) (s ! i) kps
    \<and> length (foldl (\<lambda>s kp. add_sigs C P kp s) s kps) = length (p_inputs P)"
  using assms
proof (induction kps arbitrary: s)
  case (Cons kp kps)
  then show ?case
    using Cons.IH [of "add_sigs C P kp s"] by (simp add: add_sigs_def nth_enumerate_eq)
qed simp

lemma add_sig_fold_lookup:
  assumes "scriptContainsPubkey (hexToBytes (pi_redeemScript inp)) pk"
  shows "foldl (\<lambda>t kp. add_sig C P kp (i, inp) t) t kps (bytesToHex pk)
      = (if pk \<in> snd ` set kps then Some (sig_text C P (fst (last (filter (\<lambda>kp. snd kp = pk) kps))) i inp)
         else t (bytesToHex pk))"
proof (induction kps arbitrary: t)
  case (Cons kp kps)
  let ?t = "add_sig C P kp (i, inp) t"
  have t: "?t (bytesToHex pk) = (if snd kp = pk then Some (sig_text C P (fst kp) i inp) else t (bytesToHex pk))"
    using assms by (auto simp: add_sig_def)
  have "filter (\<lambda>kp. snd kp = pk) kps = [] \<longleftrightarrow> pk \<notin> snd ` set kps"
    by (auto simp: filter_empty_conv)
  then show ?case unfolding foldl_Cons Cons.IH [of ?t] t by auto
qed simp

lemma ordered_signatures:
  assumes "\<And>pk. pk \<in> set pks \<Longrightarrow> t (bytesToHex pk) = (if pk \<in> S then Some (bytesToHex (g pk)) else None)"
    and "\<And>pk. pk \<in> set pks \<Longrightarrow> g pk \<noteq> []"
  shows "[s. Some s \<leftarrow> map t (map bytesToHex pks), s \<noteq> []] = map (\<lambda>pk. bytesToHex (g pk)) (filter (\<lambda>pk. pk \<in> S) pks)"
  using assms
proof (induction pks)
  case (Cons pk pks)
  have "bytesToHex (g pk) \<noteq> []" using Cons.prems(2) [of pk] by (metis bytesToHex_Nil bytesToHex_inject list.set_intros(1))
  then show ?case using Cons by simp
qed simp

abbreviation signers :: "bytes set \<Rightarrow> bytes list \<Rightarrow> bytes list" where
  "signers S pks \<equiv> filter (\<lambda>pk. pk \<in> S) pks"

lemma final_script_eq:
  assumes rs: "hexToBytes (pi_redeemScript inp) = multisig_script m pks"
    and pks: "list_all (\<lambda>pk. length pk = 33) pks" "length pks \<le> 16" "1 \<le> m" "m \<le> length pks"
    and i: "i < length sigs"
    and t: "\<And>pk. pk \<in> set pks \<Longrightarrow> (sigs ! i) (bytesToHex pk) = (if pk \<in> S then Some (bytesToHex (g pk)) else None)"
    and g: "\<And>pk. pk \<in> set pks \<Longrightarrow> g pk \<noteq> []"
  shows "final_script sigs i inp =
    (if length (signers S pks) < m
     then Inl (JsError (''Input '' @ dec i @ '' has '' @ dec (length (signers S pks)) @ '' signature(s), needs '' @ dec m))
     else Inr (0 # concat (map (\<lambda>sg. of_nat (length sg) # sg) (map g (take m (signers S pks))))
                @ varInt (length (multisig_script m pks)) @ multisig_script m pks))"
proof -
  have m: "unat (of_nat (80 + m) :: byte) = 80 + m" using pks by (intro unat_OP) simp
  have hd: "\<exists>r. multisig_script m pks = of_nat (80 + m) # r" by (simp add: multisig_script_def)
  have ord: "[s. Some s \<leftarrow> map (\<lambda>pk. (sigs ! i) pk) (map bytesToHex pks), s \<noteq> []]
      = map (\<lambda>pk. bytesToHex (g pk)) (signers S pks)"
    using t g by (rule ordered_signatures)
  have cat: "concat (concat (map (\<lambda>x. [[of_nat (length (g x))], g x]) xs)) = concat (map (\<lambda>x. of_nat (length (g x)) # g x) xs)" for xs
    by (induction xs) simp_all
  have sl: "js_slice xs 0 (int m) = take m xs" for xs :: "string list"
    by (simp add: js_slice_prefix)
  obtain r where r: "multisig_script m pks = of_nat (80 + m) # r" using hd by blast
  show ?thesis
    unfolding final_script_def rs parse_multisig_script [OF pks(1,2)] ord Let_def
    using i m r by (auto simp: cat sl dec_int_def take_map comp_def)
qed

text \<open>The signatures an input has after some cosigners signed in turn.\<close>

definition signature_of :: "crypto \<Rightarrow> proposal \<Rightarrow> (bytes \<times> bytes) list \<Rightarrow> nat \<Rightarrow> bytes \<Rightarrow> bytes" where
  "signature_of C P kps i pk = hexToBytes (sig_text C P (fst (last (filter (\<lambda>kp. snd kp = pk) kps))) i (p_inputs P ! i))"

lemma sig_text_der:
  assumes "can_sign C kp"
  obtains sg h where "secp_sign C h (fst kp) = Inr sg" "sig_text C P (fst kp) i inp = bytesToHex (derEncodeSignature sg @ [1])"
proof -
  let ?h = "legacySighash C (fst (proposalToTxInputsOutputs P)) (snd (proposalToTxInputsOutputs P)) i
      (hexToBytes (pi_redeemScript inp)) (p_locktime P)"
  obtain sg where "secp_sign C ?h (fst kp) = Inr sg" using assms unfolding can_sign_def by blast
  then show thesis by (intro that [of ?h sg]) (simp_all add: sig_text_def split_def)
qed

lemma collected_signatures:
  assumes P: "P = createMultisigProposal inputs outputs lt" and sign: "sign_in_turn C kps P = Inr Q"
    and can: "list_all (can_sign C) kps" and i: "i < length inputs"
    and rs: "mi_redeemScript (inputs ! i) = multisig_script m pks" and pk: "pk \<in> set pks"
  shows "(p_signatures Q ! i) (bytesToHex pk)
    = (if pk \<in> snd ` set kps then Some (bytesToHex (signature_of C P kps i pk)) else None)"
proof -
  have wf: "wf_proposal P" "p_signatures P = replicate (length inputs) Map.empty" "length (p_inputs P) = length inputs"
    by (simp_all add: P createMultisigProposal_def wf_proposal_def map_replicate_const)
  have inp: "hexToBytes (pi_redeemScript (p_inputs P ! i)) = multisig_script m pks"
    using i rs by (simp add: P createMultisigProposal_def)
  have Q: "p_signatures Q ! i = foldl (\<lambda>t kp. add_sig C P kp (i, p_inputs P ! i) t) (p_signatures P ! i) kps"
    using sign i wf add_sigs_fold_nth [of "p_signatures P" P i C kps]
    by (auto simp: sign_in_turn_eq [OF can wf(1)])
  have "bytesToHex (signature_of C P kps i pk) = sig_text C P (fst (last (filter (\<lambda>kp. snd kp = pk) kps))) i (p_inputs P ! i)"
    if "pk \<in> snd ` set kps"
  proof -
    have "filter (\<lambda>kp. snd kp = pk) kps \<noteq> []" using that by (auto simp: filter_empty_conv)
    then have "last (filter (\<lambda>kp. snd kp = pk) kps) \<in> set kps" using last_in_set by fastforce
    then have "can_sign C (last (filter (\<lambda>kp. snd kp = pk) kps))" using can by (simp add: list_all_iff)
    then show ?thesis by (rule sig_text_der [of C _ P i "p_inputs P ! i"]) (simp add: signature_of_def)
  qed
  then show ?thesis
    using add_sig_fold_lookup [of "p_inputs P ! i" pk C P i "p_signatures P ! i" kps] multisig_script_contains [OF pk] i
    by (simp add: Q inp wf(2))
qed

lemma last_signer:
  assumes "list_all P kps" "pk \<in> snd ` set kps"
  shows "P (last (filter (\<lambda>kp. snd kp = pk) kps))"
proof -
  have "filter (\<lambda>kp. snd kp = pk) kps \<noteq> []" using assms(2) by (auto simp: filter_empty_conv)
  then have "last (filter (\<lambda>kp. snd kp = pk) kps) \<in> set kps" using last_in_set by fastforce
  then show ?thesis using assms(1) by (simp add: list_all_iff)
qed

lemma signature_of_size:
  assumes "list_all (can_sign C) kps" "pk \<in> snd ` set kps"
  shows "signature_of C P kps i pk \<noteq> []"
    and "(\<And>h k sg. secp_sign C h k = Inr sg \<Longrightarrow> sig_r sg < 2 ^ 256 \<and> sig_s sg < 2 ^ 256)
      \<Longrightarrow> length (signature_of C P kps i pk) \<le> 73"
proof -
  obtain sg h where sg: "secp_sign C h (fst (last (filter (\<lambda>kp. snd kp = pk) kps))) = Inr sg"
    "signature_of C P kps i pk = derEncodeSignature sg @ [1]"
    using sig_text_der [OF last_signer [OF assms]] unfolding signature_of_def by (metis hexToBytes_bytesToHex)
  then show "signature_of C P kps i pk \<noteq> []" by simp
  assume "\<And>h k sg. secp_sign C h k = Inr sg \<Longrightarrow> sig_r sg < 2 ^ 256 \<and> sig_s sg < 2 ^ 256"
  then show "length (signature_of C P kps i pk) \<le> 73"
    using sg der_decode_encode(2) [of sg] by fastforce
qed

lemma final_script_after_signing:
  assumes P: "P = createMultisigProposal inputs outputs lt" and sign: "sign_in_turn C kps P = Inr Q"
    and can: "list_all (can_sign C) kps" and i: "i < length inputs"
    and rs: "createMultisigRedeemScript (Some m) pks = Inr rs" "mi_redeemScript (inputs ! i) = rs"
  defines "S \<equiv> snd ` set kps"
  shows "final_script (p_signatures Q) i (p_inputs Q ! i) =
    (if int (length (signers S pks)) < m
     then Inl (JsError (''Input '' @ dec i @ '' has '' @ dec (length (signers S pks)) @ '' signature(s), needs '' @ dec_int m))
     else Inr (0 # concat (map (\<lambda>sg. of_nat (length sg) # sg) (map (signature_of C P kps i) (take (nat m) (signers S pks))))
                @ varInt (length rs) @ rs))"
proof -
  have r: "1 \<le> m" "m \<le> int (length pks)" "length pks \<le> 16" "list_all (\<lambda>pk. length pk = 33) pks" "rs = multisig_script (nat m) pks"
    using rs(1) by (auto simp: redeem_script_eq)
  have wf: "wf_proposal P" by (simp add: P createMultisigProposal_def wf_proposal_def)
  have n: "length (p_inputs P) = length inputs" by (simp add: P createMultisigProposal_def)
  have Q: "p_inputs Q = p_inputs P" "length (p_signatures Q) = length inputs"
    using sign i n add_sigs_fold_nth [of "p_signatures P" P i C kps] wf
    by (auto simp: sign_in_turn_eq [OF can wf] wf_proposal_def)
  have inp: "hexToBytes (pi_redeemScript (p_inputs Q ! i)) = multisig_script (nat m) pks"
    using i rs(2) r(5) by (simp add: Q P createMultisigProposal_def)
  let ?g = "\<lambda>pk. if pk \<in> S then signature_of C P kps i pk else [0]"
  have E: "final_script (p_signatures Q) i (p_inputs Q ! i) =
    (if length (signers S pks) < nat m
     then Inl (JsError (''Input '' @ dec i @ '' has '' @ dec (length (signers S pks)) @ '' signature(s), needs '' @ dec (nat m)))
     else Inr (0 # concat (map (\<lambda>sg. of_nat (length sg) # sg) (map ?g (take (nat m) (signers S pks))))
                @ varInt (length (multisig_script (nat m) pks)) @ multisig_script (nat m) pks))"
  proof (rule final_script_eq [OF inp r(4,3)])
    show "(p_signatures Q ! i) (bytesToHex pk) = (if pk \<in> S then Some (bytesToHex (?g pk)) else None)" if "pk \<in> set pks" for pk
      using collected_signatures [OF P sign can i _ that, of "nat m"] rs(2) r(5) by (simp add: S_def)
    show "?g pk \<noteq> []" for pk using signature_of_size(1) [OF can] by (simp add: S_def)
  qed (use r Q i in auto)
  have M: "map ?g (take (nat m) (signers S pks)) = map (signature_of C P kps i) (take (nat m) (signers S pks))"
    by (rule map_cong) (auto dest: in_set_takeD)
  show ?thesis unfolding E M using r by (simp add: dec_int_def zless_nat_eq_int_zless)
qed

lemma script_pushes_direct:
  "length b \<le> 75 \<Longrightarrow> script_pushes (of_nat (length b) # b @ rest) = map_option ((#) b) (script_pushes rest)"
  using unat_of_nat_byte [of "length b"] by simp

lemma script_pushes_signatures:
  "list_all (\<lambda>b. length b \<le> 75) bs \<Longrightarrow>
     script_pushes (concat (map (\<lambda>sg. of_nat (length sg) # sg) bs) @ rest) = map_option ((@) bs) (script_pushes rest)"
proof (induction bs)
  case (Cons b bs)
  then show ?case
    by (simp add: script_pushes_direct option.map_comp comp_def del: script_pushes.simps)
qed (cases "script_pushes rest"; simp)

lemma script_pushes_varInt:
  assumes "75 < length b"
  shows "script_pushes (varInt (length b) @ b @ rest) = None \<or> length b < 78"
proof (cases "length b < 0xfd")
  case True
  have "unat (of_nat (length b) :: byte) = length b" using True by (intro unat_of_nat_byte) simp
  moreover have "(of_nat (length b) :: byte) = of_nat 76 \<longleftrightarrow> length b = 76" "(of_nat (length b) :: byte) = of_nat 77 \<longleftrightarrow> length b = 77"
    using True by (intro byte_of_nat_inj; simp)+
  ultimately show ?thesis using True assms by (auto simp: varInt_def)
next
  case False
  then show ?thesis by (auto simp: varInt_def)
qed

lemma script_pushes_final:
  assumes "list_all (\<lambda>b. length b \<le> 75) bs" "length rs = 3 + 34 * n"
  shows "script_pushes (0 # concat (map (\<lambda>sg. of_nat (length sg) # sg) bs) @ varInt (length rs) @ rs)
    = (if n \<le> 2 then Some ([] # bs @ [rs]) else None)"
proof (cases "n \<le> 2")
  case True
  then have "length rs \<le> 75" using assms(2) by simp
  then have "script_pushes (varInt (length rs) @ rs) = Some [rs]"
    using script_pushes_direct [of rs "[]"] by (simp add: varInt_def del: script_pushes.simps(2))
  then show ?thesis using True script_pushes_signatures [OF assms(1)] by simp
next
  case False
  then have "75 < length rs" "\<not> length rs < 78" using assms(2) by simp_all
  then have "script_pushes (varInt (length rs) @ rs) = None"
    using script_pushes_varInt [of rs "[]"] by simp
  then show ?thesis using False script_pushes_signatures [OF assms(1)] by simp
qed

text \<open>The final transaction: each input of the proposal with the script of its collected signatures.\<close>

definition unsigned_multisig_input :: "multisig_input \<Rightarrow> tx_input" where
  "unsigned_multisig_input inp = \<lparr>prevTxid = mi_txid inp, prevVout = mi_vout inp, scriptSig = [], sequence = None\<rparr>"

lemma proposal_tx_parts:
  "proposalToTxInputsOutputs (createMultisigProposal inputs outputs lt) = (map unsigned_multisig_input inputs, outputs)"
  by (simp add: proposalToTxInputsOutputs_def createMultisigProposal_def unsigned_multisig_input_def comp_def map_idI)

lemma signature_of_sighash:
  assumes "list_all (can_sign C) kps" "pk \<in> snd ` set kps" "i < length inputs"
  shows "\<exists>k sg. (k, pk) \<in> set kps
    \<and> secp_sign C (legacySighash C (map unsigned_multisig_input inputs) outputs i (mi_redeemScript (inputs ! i)) lt) k = Inr sg
    \<and> signature_of C (createMultisigProposal inputs outputs lt) kps i pk = derEncodeSignature sg @ [1]"
proof -
  let ?kp = "last (filter (\<lambda>kp. snd kp = pk) kps)"
  let ?h = "legacySighash C (map unsigned_multisig_input inputs) outputs i (mi_redeemScript (inputs ! i)) lt"
  have "list_all (\<lambda>kp. can_sign C kp \<and> kp \<in> set kps) kps" using assms(1) by (simp add: list_all_iff)
  from last_signer [OF this assms(2)] have kp: "can_sign C ?kp" "?kp \<in> set kps" by auto
  have "filter (\<lambda>kp. snd kp = pk) kps \<noteq> []" using assms(2) by (auto simp: filter_empty_conv)
  then have "snd ?kp = pk" using last_in_set by fastforce
  then have m: "(fst ?kp, pk) \<in> set kps" using kp(2) by (metis prod.collapse)
  obtain sg where sg: "secp_sign C ?h (fst ?kp) = Inr sg" using kp(1) unfolding can_sign_def by blast
  have "signature_of C (createMultisigProposal inputs outputs lt) kps i pk = derEncodeSignature sg @ [1]"
    unfolding signature_of_def sig_text_def proposal_tx_parts
    using sg assms(3) by (simp add: createMultisigProposal_def)
  then show ?thesis using m sg by blast
qed

lemma finalize_scripts:
  assumes P: "P = createMultisigProposal inputs outputs lt" and sign: "sign_in_turn C kps P = Inr Q"
    and can: "list_all (can_sign C) kps"
    and f: "\<And>i. i < length inputs \<Longrightarrow> final_script (p_signatures Q) i (p_inputs Q ! i) = Inr (ss i)"
  shows "finalizeMultisigTransaction Q = Inr (serializeTx 2
    (map (\<lambda>(i, inp). (unsigned_multisig_input inp)\<lparr>scriptSig := ss i\<rparr>) (enumerate 0 inputs)) outputs lt)"
proof -
  have wf: "wf_proposal P" by (simp add: P createMultisigProposal_def wf_proposal_def)
  have "p_inputs Q = p_inputs P" "p_outputs Q = p_outputs P" "p_version Q = p_version P" "p_locktime Q = p_locktime P"
    using sign by (auto simp: sign_in_turn_eq [OF can wf])
  then have Q: "p_inputs Q = p_inputs P" "p_outputs Q = p_outputs P" "p_version Q = 2" "p_locktime Q = lt"
    by (simp_all add: P createMultisigProposal_def)
  have len: "length (p_inputs Q) = length inputs" by (simp add: Q P createMultisigProposal_def)
  have parts: "proposalToTxInputsOutputs Q = (map unsigned_multisig_input inputs, outputs)"
    using proposal_tx_parts [of inputs outputs lt] Q(1,2) by (simp add: P proposalToTxInputsOutputs_def)
  have "mapE (\<lambda>(i, inp). final_script (p_signatures Q) i inp) (enumerate 0 (p_inputs Q))
      = Inr (map (\<lambda>(i, inp). ss i) (enumerate 0 (p_inputs Q)))"
    by (rule mapE_Inr) (auto simp: in_set_enumerate_eq len f)
  moreover have "with_scripts (map unsigned_multisig_input inputs) (map (\<lambda>(i, inp). ss i) (enumerate 0 (p_inputs Q)))
      = map (\<lambda>(i, inp). (unsigned_multisig_input inp)\<lparr>scriptSig := ss i\<rparr>) (enumerate 0 inputs)"
    by (rule nth_equalityI) (simp_all add: len nth_enumerate_eq)
  ultimately show ?thesis by (simp add: finalizeMultisigTransaction_def parts Q(3,4))
qed

lemma finalize_after_signing:
  assumes P: "P = createMultisigProposal inputs outputs lt" and sign: "sign_in_turn C kps P = Inr Q"
    and can: "list_all (can_sign C) kps" and ne: "inputs \<noteq> []"
    and rs: "createMultisigRedeemScript (Some m) pks = Inr rs" "list_all (\<lambda>i. mi_redeemScript i = rs) inputs"
  defines "S \<equiv> snd ` set kps"
  shows "int (length (signers S pks)) < m \<Longrightarrow> finalizeMultisigTransaction Q
       = Inl (JsError (''Input 0 has '' @ dec (length (signers S pks)) @ '' signature(s), needs '' @ dec_int m))"
    and "m \<le> int (length (signers S pks)) \<Longrightarrow> finalizeMultisigTransaction Q = Inr (serializeTx 2
       (map (\<lambda>(i, inp). (unsigned_multisig_input inp)\<lparr>scriptSig :=
            0 # concat (map (\<lambda>sg. of_nat (length sg) # sg) (map (signature_of C P kps i) (take (nat m) (signers S pks))))
              @ varInt (length rs) @ rs\<rparr>) (enumerate 0 inputs)) outputs lt)"
proof -
  have f: "final_script (p_signatures Q) i (p_inputs Q ! i) =
    (if int (length (signers S pks)) < m
     then Inl (JsError (''Input '' @ dec i @ '' has '' @ dec (length (signers S pks)) @ '' signature(s), needs '' @ dec_int m))
     else Inr (0 # concat (map (\<lambda>sg. of_nat (length sg) # sg) (map (signature_of C P kps i) (take (nat m) (signers S pks))))
                @ varInt (length rs) @ rs))" if "i < length inputs" for i
    using final_script_after_signing [OF P sign can that rs(1)] rs(2) that by (simp add: S_def list_all_length)
  have wf: "wf_proposal P" by (simp add: P createMultisigProposal_def wf_proposal_def)
  have "p_inputs Q = p_inputs P" using sign by (auto simp: sign_in_turn_eq [OF can wf])
  then obtain inp inps where inps: "p_inputs Q = inp # inps"
    using ne by (cases "p_inputs Q") (auto simp: P createMultisigProposal_def)
  have "dec 0 = ''0''" by (simp add: dec_def toString_radix_def)
  then show "int (length (signers S pks)) < m \<Longrightarrow> finalizeMultisigTransaction Q
       = Inl (JsError (''Input 0 has '' @ dec (length (signers S pks)) @ '' signature(s), needs '' @ dec_int m))"
    using f [of 0] ne by (simp add: inps finalizeMultisigTransaction_def split_def)
  assume "m \<le> int (length (signers S pks))"
  then show "finalizeMultisigTransaction Q = Inr (serializeTx 2
       (map (\<lambda>(i, inp). (unsigned_multisig_input inp)\<lparr>scriptSig :=
            0 # concat (map (\<lambda>sg. of_nat (length sg) # sg) (map (signature_of C P kps i) (take (nat m) (signers S pks))))
              @ varInt (length rs) @ rs\<rparr>) (enumerate 0 inputs)) outputs lt)"
    by (intro finalize_scripts [OF P sign can]) (simp add: f)
qed

section \<open>Properties\<close>

text \<open>
  The reader of redeem scripts recovers the cosigners: for every redeem script that
  \<open>createMultisigRedeemScript\<close> makes, \<open>parsePubkeysInOrder\<close> returns exactly the public keys, in
  their order, and the first byte gives back \<open>m\<close>.
\<close>

theorem redeem_script_roundtrip:
  assumes "createMultisigRedeemScript (Some m) pks = Inr rs"
  shows "parsePubkeysInOrder rs = map bytesToHex pks \<and> int (unat (rs ! 0)) - 0x50 = m"
proof -
  have "nat m \<le> 16" using assms by (auto simp: redeem_script_eq)
  then have "unat (of_nat (80 + nat m) :: byte) = 80 + nat m" by (rule unat_OP)
  then show ?thesis using assms parse_multisig_script [of pks]
    by (auto simp: redeem_script_eq multisig_script_def simp del: of_nat_add)
qed

theorem redeem_script_roundtrip_witness:
  "\<exists>rs. createMultisigRedeemScript (Some 2) [replicate 33 2, replicate 33 3, replicate 33 4] = Inr rs
     \<and> parsePubkeysInOrder rs = map bytesToHex [replicate 33 2, replicate 33 3, replicate 33 4]"
proof -
  obtain rs where rs: "createMultisigRedeemScript (Some 2) [replicate 33 2, replicate 33 3, replicate 33 4] = Inr rs"
    by (simp add: redeem_script_eq)
  show ?thesis using rs redeem_script_roundtrip [OF rs] by blast
qed

text \<open>
  C15: Signing in parallel and merging is the same as signing in turn: for a fresh proposal and any
  cosigners, merging the copies each of them signed gives the proposal that results from passing
  one copy along, so no signature is lost or depends on the others.
\<close>

theorem merge_is_sequential_signing:
  assumes "list_all (can_sign C) kps" and "kps \<noteq> []"
  shows "bindE (sign_copies C kps (createMultisigProposal inputs outputs locktime)) mergeMultisigProposals
    = sign_in_turn C kps (createMultisigProposal inputs outputs locktime)"
  using assms by (rule merge_copies) (simp add: createMultisigProposal_def map_replicate_const)

lemma demo_can_sign: "can_sign demo_crypto kp"
  by (simp add: can_sign_def demo_crypto_def)

definition demo_pks :: "bytes list" where
  "demo_pks = [replicate 33 2, replicate 33 3, replicate 33 4]"

definition demo_multisig_input :: multisig_input where
  "demo_multisig_input = \<lparr>mi_txid = replicate 32 1, mi_vout = 0, mi_value = 9000, mi_redeemScript = multisig_script 2 demo_pks\<rparr>"

theorem merge_is_sequential_signing_witness:
  "bindE (sign_copies demo_crypto [([1], replicate 33 2), ([2], replicate 33 4)]
       (createMultisigProposal [demo_multisig_input] [] 0)) mergeMultisigProposals
    = sign_in_turn demo_crypto [([1], replicate 33 2), ([2], replicate 33 4)]
       (createMultisigProposal [demo_multisig_input] [] 0)"
  by (rule merge_is_sequential_signing) (simp_all add: demo_can_sign)

text \<open>
  C16: The threshold is exact. For inputs locked by an m-of-n redeem script, after any signers have
  signed, finalizing throws when fewer than \<open>m\<close> of the \<open>n\<close> keys have signed, naming the number of
  signatures found and needed; keys outside the script do not count. Otherwise the result is the
  proposal's transaction in which the script of every input holds, after the dummy byte, the
  signatures of the first \<open>m\<close> keys that signed, in the order of the keys in the redeem script, and
  then the redeem script. Each of them is a signature by that key's own private key over the
  signature hash of that input.
\<close>

theorem finalize_threshold:
  assumes "createMultisigRedeemScript (Some m) pks = Inr rs" and "inputs \<noteq> []"
    and "list_all (\<lambda>i. mi_redeemScript i = rs) inputs" and "list_all (can_sign C) kps"
    and "sign_in_turn C kps (createMultisigProposal inputs outputs locktime) = Inr Q"
  shows "(int (length (signers (snd ` set kps) pks)) < m \<longrightarrow> finalizeMultisigTransaction Q
       = Inl (JsError (''Input 0 has '' @ dec (length (signers (snd ` set kps) pks)) @ '' signature(s), needs '' @ dec_int m)))
    \<and> (m \<le> int (length (signers (snd ` set kps) pks)) \<longrightarrow>
        (\<exists>sig. finalizeMultisigTransaction Q = Inr (serializeTx 2
            (map (\<lambda>(i, inp). (unsigned_multisig_input inp)\<lparr>scriptSig :=
               0 # concat (map (\<lambda>sg. of_nat (length sg) # sg) (map (sig i) (take (nat m) (signers (snd ` set kps) pks))))
                 @ varInt (length rs) @ rs\<rparr>) (enumerate 0 inputs)) outputs locktime)
          \<and> (\<forall>i<length inputs. \<forall>pk\<in>set (take (nat m) (signers (snd ` set kps) pks)). \<exists>k sg. (k, pk) \<in> set kps
              \<and> secp_sign C (legacySighash C (map unsigned_multisig_input inputs) outputs i rs locktime) k = Inr sg
              \<and> sig i pk = derEncodeSignature sg @ [1])))"
proof (intro conjI impI)
  assume m: "m \<le> int (length (signers (snd ` set kps) pks))"
  let ?sig = "signature_of C (createMultisigProposal inputs outputs locktime) kps"
  have "\<exists>k sg. (k, pk) \<in> set kps
      \<and> secp_sign C (legacySighash C (map unsigned_multisig_input inputs) outputs i rs locktime) k = Inr sg
      \<and> ?sig i pk = derEncodeSignature sg @ [1]"
    if "i < length inputs" "pk \<in> set (take (nat m) (signers (snd ` set kps) pks))" for i pk
    using signature_of_sighash [OF assms(4) _ that(1), of pk outputs locktime] that assms(3)
    by (auto simp: list_all_length dest: in_set_takeD)
  then show "\<exists>sig. finalizeMultisigTransaction Q = Inr (serializeTx 2
            (map (\<lambda>(i, inp). (unsigned_multisig_input inp)\<lparr>scriptSig :=
               0 # concat (map (\<lambda>sg. of_nat (length sg) # sg) (map (sig i) (take (nat m) (signers (snd ` set kps) pks))))
                 @ varInt (length rs) @ rs\<rparr>) (enumerate 0 inputs)) outputs locktime)
          \<and> (\<forall>i<length inputs. \<forall>pk\<in>set (take (nat m) (signers (snd ` set kps) pks)). \<exists>k sg. (k, pk) \<in> set kps
              \<and> secp_sign C (legacySighash C (map unsigned_multisig_input inputs) outputs i rs locktime) k = Inr sg
              \<and> sig i pk = derEncodeSignature sg @ [1])"
    using finalize_after_signing(2) [OF refl assms(5,4,2,1,3) m] by (intro exI [of _ ?sig]) blast
qed (rule finalize_after_signing(1) [OF refl assms(5,4,2,1,3)])

lemma demo_redeem: "createMultisigRedeemScript (Some 2) demo_pks = Inr (multisig_script 2 demo_pks)"
  by (simp add: redeem_script_eq demo_pks_def)

theorem finalize_threshold_witness:
  "\<exists>P Q. sign_in_turn demo_crypto [([1], replicate 33 2)] (createMultisigProposal [demo_multisig_input] [] 0) = Inr P
     \<and> finalizeMultisigTransaction P = Inl (JsError ''Input 0 has 1 signature(s), needs 2'')
     \<and> sign_in_turn demo_crypto [([2], replicate 33 4), ([1], replicate 33 2)]
          (createMultisigProposal [demo_multisig_input] [] 0) = Inr Q
     \<and> (\<exists>raw. finalizeMultisigTransaction Q = Inr raw)"
proof -
  have can: "list_all (can_sign demo_crypto) kps" for kps by (simp add: list_all_iff demo_can_sign)
  have "\<exists>P. sign_in_turn demo_crypto kps (createMultisigProposal [demo_multisig_input] [] 0) = Inr P" for kps
    using sign_in_turn_eq [OF can] by (simp add: wf_proposal_def createMultisigProposal_def)
  then obtain P Q where P: "sign_in_turn demo_crypto [([1], replicate 33 2)] (createMultisigProposal [demo_multisig_input] [] 0) = Inr P"
    and Q: "sign_in_turn demo_crypto [([2], replicate 33 4), ([1], replicate 33 2)]
          (createMultisigProposal [demo_multisig_input] [] 0) = Inr Q"
    by metis
  have "dec 1 = ''1''" "dec_int 2 = ''2''"
    by (simp_all add: dec_int_def dec_def toString_radix_def base10.to_digits_pos digit_char_def)
  moreover have "signers (snd ` set [([1 :: byte], replicate 33 2)]) demo_pks = [replicate 33 2]"
    "signers (snd ` set [([2 :: byte], replicate 33 4), ([1], replicate 33 2)]) demo_pks = [replicate 33 2, replicate 33 4]"
    by (simp_all add: demo_pks_def)
  moreover have "list_all (\<lambda>i. mi_redeemScript i = multisig_script 2 demo_pks) [demo_multisig_input]"
    by (simp add: demo_multisig_input_def)
  ultimately show ?thesis
    using P Q finalize_threshold [OF demo_redeem _ _ can P] finalize_threshold [OF demo_redeem _ _ can Q] by auto
qed

text \<open>
  C20: The final scripts are spendable only for one or two cosigners. The script of an input is the
  push-only script that supplies the dummy element, \<open>m\<close> signatures and the redeem script when
  there are at most two public keys; with three or more it is not a sequence of pushes at all,
  because the redeem script, then longer than 75 bytes, is preceded by a transaction length
  prefix instead of a script push opcode.
\<close>

theorem final_script_pushes:
  assumes "createMultisigRedeemScript (Some m) pks = Inr rs" and "mi_redeemScript (inputs ! i) = rs"
    and "i < length inputs" and "list_all (can_sign C) kps"
    and "\<And>h k sg. secp_sign C h k = Inr sg \<Longrightarrow> sig_r sg < 2 ^ 256 \<and> sig_s sg < 2 ^ 256"
    and "sign_in_turn C kps (createMultisigProposal inputs outputs locktime) = Inr Q"
    and "final_script (p_signatures Q) i (p_inputs Q ! i) = Inr ss"
  shows "\<exists>sigs. int (length sigs) = m
    \<and> script_pushes ss = (if length pks \<le> 2 then Some ([] # sigs @ [rs]) else None)"
proof -
  let ?S = "signers (snd ` set kps) pks"
  let ?sigs = "map (signature_of C (createMultisigProposal inputs outputs locktime) kps i) (take (nat m) ?S)"
  have ss: "m \<le> int (length ?S)"
    "ss = 0 # concat (map (\<lambda>sg. of_nat (length sg) # sg) ?sigs) @ varInt (length rs) @ rs"
    using final_script_after_signing [OF refl assms(6,4,3,1,2)] assms(7) by (auto split: if_splits)
  have r: "1 \<le> m" "length rs = 3 + 34 * length pks"
    using assms(1) multisig_script_length by (auto simp: redeem_script_eq)
  have "nat m \<le> length ?S" using ss(1) by (simp add: nat_le_iff)
  then have len: "int (length ?sigs) = m" using r(1) by (simp add: min_absorb2)
  have "length (signature_of C (createMultisigProposal inputs outputs locktime) kps i pk) \<le> 75" if "pk \<in> snd ` set kps" for pk
  proof -
    have "length (signature_of C (createMultisigProposal inputs outputs locktime) kps i pk) \<le> 73"
      using assms(4) that assms(5) by (rule signature_of_size(2))
    then show ?thesis by simp
  qed
  then have "list_all (\<lambda>b. length b \<le> 75) ?sigs"
    by (auto simp: list_all_iff dest: in_set_takeD)
  from script_pushes_final [OF this r(2)] show ?thesis
    unfolding ss(2) [symmetric] using len by blast
qed

theorem final_script_pushes_witness:
  "\<exists>Q ss. sign_in_turn demo_crypto [([1], replicate 33 2), ([2], replicate 33 4)]
        (createMultisigProposal [demo_multisig_input] [] 0) = Inr Q
     \<and> final_script (p_signatures Q) 0 (p_inputs Q ! 0) = Inr ss \<and> script_pushes ss = None"
proof -
  let ?kps = "[([1 :: byte], replicate 33 (2 :: byte)), ([2], replicate 33 4)]"
  have can: "list_all (can_sign demo_crypto) ?kps" by (simp add: demo_can_sign)
  have inp: "mi_redeemScript ([demo_multisig_input] ! 0) = multisig_script 2 demo_pks"
    by (simp add: demo_multisig_input_def)
  obtain Q where Q: "sign_in_turn demo_crypto ?kps (createMultisigProposal [demo_multisig_input] [] 0) = Inr Q"
    using sign_in_turn_eq [OF can] by (simp add: wf_proposal_def createMultisigProposal_def)
  have "signers (snd ` set ?kps) demo_pks = [replicate 33 2, replicate 33 4]" by (simp add: demo_pks_def)
  then obtain ss where ss: "final_script (p_signatures Q) 0 (p_inputs Q ! 0) = Inr ss"
    using final_script_after_signing [OF refl Q can _ demo_redeem inp] by simp
  show ?thesis
    using Q ss final_script_pushes [OF demo_redeem inp _ can demo_sign_range Q ss] by (auto simp: demo_pks_def)
qed

end
