(* ===== verification/Json.thy ===== *)
theory Json
  imports PageText Gateway
begin

text \<open>
  JSON as text, as the Multisig screen of web-wallet/app.js exchanges it:
  \<open>JSON.stringify(v, null, 2)\<close> and \<open>JSON.parse\<close>. The reader is the grammar of JSON as a tokenizer
  and a pushdown automaton over the tokens, so it always ends. Objects keep the order in which
  their properties were added, and a repeated property has its last value. Text beyond Latin-1 and
  Numbers that overflow are outside the strings and Numbers of the model and are rejected. The
  theorem is that reading a printed value gives the value back.
\<close>

section \<open>Definitions\<close>

subsection \<open>Printing\<close>

definition quote_char :: "char \<Rightarrow> string" where
  "quote_char c =
     (if c = CHR 0x22 then [CHR 0x5C, CHR 0x22]
      else if c = CHR 0x5C then [CHR 0x5C, CHR 0x5C]
      else if c = CHR 0x08 then [CHR 0x5C, CHR ''b'']
      else if c = CHR 0x0C then [CHR 0x5C, CHR ''f'']
      else if c = CHR 0x0A then [CHR 0x5C, CHR ''n'']
      else if c = CHR 0x0D then [CHR 0x5C, CHR ''r'']
      else if c = CHR 0x09 then [CHR 0x5C, CHR ''t'']
      else if code_unit c < 32 then CHR 0x5C # CHR ''u'' # ''00'' @ byteToHex (of_nat (code_unit c))
      else [c])"

definition quote :: "string \<Rightarrow> string" where
  "quote s = CHR 0x22 # concat (map quote_char s) @ [CHR 0x22]"

text \<open>A line break followed by an indentation, and a bracketed list of items on their own lines.\<close>

definition new_line :: "nat \<Rightarrow> string" where
  "new_line i = CHR 0x0A # replicate i (CHR '' '')"

definition bracketed :: "nat \<Rightarrow> char \<Rightarrow> char \<Rightarrow> string list \<Rightarrow> string" where
  "bracketed i l r ts =
     (if ts = [] then [l, r]
      else [l] @ new_line (i + 2) @ js_join ('','' @ new_line (i + 2)) ts @ new_line i @ [r])"

text \<open>
  The text of a value at indentation \<open>i\<close>. Properties with the value \<open>undefined\<close> are left out, and
  \<open>undefined\<close> in an array is printed as \<open>null\<close>.
\<close>

fun json_text :: "nat \<Rightarrow> json \<Rightarrow> string" where
  "json_text i JUndef = ''null''"
| "json_text i JNull = ''null''"
| "json_text i (JBool b) = (if b then ''true'' else ''false'')"
| "json_text i (JNum x) = num_to_string x"
| "json_text i (JStr s) = quote s"
| "json_text i (JArr js) = bracketed i (CHR ''['') (CHR '']'') (map (json_text (i + 2)) js)"
| "json_text i (JObj kvs) = bracketed i (CHR ''{'') (CHR ''}'')
     (map (\<lambda>(k, v). quote k @ '': '' @ json_text (i + 2) v) (filter (\<lambda>(k, v). v \<noteq> JUndef) kvs))"

text \<open>\<open>JSON.stringify(v, null, 2)\<close>\<close>

definition JSON_stringify :: "json \<Rightarrow> string" where
  "JSON_stringify j = json_text 0 j"

subsection \<open>Tokens\<close>

datatype token =
  TOpenObj | TCloseObj | TOpenArr | TCloseArr | TColon | TComma | TTrue | TFalse | TNull | TStr string | TNum rat

text \<open>The rest of a string literal after its opening quote: its value, and what follows.\<close>

definition simple_escape :: "char \<Rightarrow> char option" where
  "simple_escape e =
     (if e \<in> {CHR 0x22, CHR 0x5C, CHR ''/''} then Some e
      else if e = CHR ''b'' then Some (CHR 0x08)
      else if e = CHR ''f'' then Some (CHR 0x0C)
      else if e = CHR ''n'' then Some (CHR 0x0A)
      else if e = CHR ''r'' then Some (CHR 0x0D)
      else if e = CHR ''t'' then Some (CHR 0x09)
      else None)"

definition hex4 :: "string \<Rightarrow> nat option" where
  "hex4 ds = (if length ds = 4 \<and> list_all (is_digit 16) ds
              then Some (from_digits 16 (map (\<lambda>c. the (digit_val c)) ds)) else None)"

function scan_string :: "string \<Rightarrow> (string \<times> string) option" where
  "scan_string [] = None"
| "scan_string (c # s) =
     (if c = CHR 0x22 then Some ([], s)
      else if code_unit c < 32 then None
      else if c \<noteq> CHR 0x5C then map_option (\<lambda>(t, r). (c # t, r)) (scan_string s)
      else case s of
             [] \<Rightarrow> None
           | e # s' \<Rightarrow>
               if e = CHR ''u''
               then (case hex4 (take 4 s') of
                       Some n \<Rightarrow> if n < 256 then map_option (\<lambda>(t, r). (char_of n # t, r)) (scan_string (drop 4 s')) else None
                     | None \<Rightarrow> None)
               else (case simple_escape e of
                       Some d \<Rightarrow> map_option (\<lambda>(t, r). (d # t, r)) (scan_string s')
                     | None \<Rightarrow> None))"
  by pat_completeness auto
termination by (relation "measure length") auto

declare scan_string.simps [simp del]

text \<open>
  A number literal: an optional minus, an integer part without leading zeros, an optional
  fraction and an optional exponent.
\<close>

definition num_char :: "char \<Rightarrow> bool" where
  "num_char c \<longleftrightarrow> is_digit 10 c \<or> c \<in> {CHR ''.'', CHR ''e'', CHR ''E'', CHR ''+'', CHR ''-''}"

definition exponent_ok :: "string \<Rightarrow> bool" where
  "exponent_ok r \<longleftrightarrow>
     (case r of
        [] \<Rightarrow> True
      | e # r' \<Rightarrow>
          let ds = (case r' of [] \<Rightarrow> [] | c # r'' \<Rightarrow> if c = CHR ''+'' \<or> c = CHR ''-'' then r'' else r')
          in (e = CHR ''e'' \<or> e = CHR ''E'') \<and> ds \<noteq> [] \<and> list_all (is_digit 10) ds)"

definition number_ok :: "string \<Rightarrow> bool" where
  "number_ok u \<longleftrightarrow>
     (let ip = takeWhile (is_digit 10) u; r = dropWhile (is_digit 10) u
      in ip \<noteq> [] \<and> (hd ip = CHR ''0'' \<longrightarrow> length ip = 1) \<and>
         (case r of
            [] \<Rightarrow> True
          | c # r' \<Rightarrow>
              if c = CHR ''.'' then takeWhile (is_digit 10) r' \<noteq> [] \<and> exponent_ok (dropWhile (is_digit 10) r')
              else exponent_ok r))"

definition json_number :: "string \<Rightarrow> rat option" where
  "json_number w =
     (let neg = (w \<noteq> [] \<and> hd w = CHR ''-''); u = (if neg then tl w else w)
      in if \<not> number_ok u then None
         else case parse_unsigned u of
                None \<Rightarrow> None
              | Some x \<Rightarrow> (case to_double (if neg then - x else x) of Fin y \<Rightarrow> Some y | _ \<Rightarrow> None))"

definition punctuation :: "char \<Rightarrow> token option" where
  "punctuation c =
     (if c = CHR ''{'' then Some TOpenObj
      else if c = CHR ''}'' then Some TCloseObj
      else if c = CHR ''['' then Some TOpenArr
      else if c = CHR '']'' then Some TCloseArr
      else if c = CHR '':'' then Some TColon
      else if c = CHR '','' then Some TComma
      else None)"

definition json_space :: "char \<Rightarrow> bool" where
  "json_space c \<longleftrightarrow> code_unit c \<in> {9, 10, 13, 32}"

lemma scan_string_shorter: "scan_string s = Some (t, r) \<Longrightarrow> length r < length s"
proof (induction s arbitrary: t r rule: scan_string.induct)
  case (2 c s)
  note p = 2(4) [unfolded scan_string.simps(2)]
  show ?case
  proof (cases "c = CHR 0x5C")
    case False
    then show ?thesis using 2(1) p by (auto split: if_splits simp: less_Suc_eq)
  next
    case True
    then obtain e s' where s: "s = e # s'" using p by (cases s) (auto split: if_splits)
    show ?thesis using True 2(2,3) [OF _ _ _ s] p by (auto simp: s less_Suc_eq split: if_splits option.splits) fastforce+
  qed
qed (simp add: scan_string.simps)

function tokens :: "string \<Rightarrow> token list option" where
  "tokens [] = Some []"
| "tokens (c # s) =
     (if json_space c then tokens s
      else case punctuation c of
             Some t \<Rightarrow> map_option ((#) t) (tokens s)
           | None \<Rightarrow>
               if c = CHR 0x22 then (case scan_string s of None \<Rightarrow> None | Some (t, r) \<Rightarrow> map_option ((#) (TStr t)) (tokens r))
               else if num_char c
               then (case json_number (c # takeWhile num_char s) of
                       None \<Rightarrow> None
                     | Some x \<Rightarrow> map_option ((#) (TNum x)) (tokens (dropWhile num_char s)))
               else if startsWith (c # s) ''true'' then map_option ((#) TTrue) (tokens (drop 3 s))
               else if startsWith (c # s) ''false'' then map_option ((#) TFalse) (tokens (drop 4 s))
               else if startsWith (c # s) ''null'' then map_option ((#) TNull) (tokens (drop 3 s))
               else None)"
  by pat_completeness auto
termination
  by (relation "measure length") (auto dest: scan_string_shorter simp: less_Suc_eq_le intro: le_trans [OF length_dropWhile_le])

declare tokens.simps [simp del]

subsection \<open>Reading\<close>

text \<open>
  The automaton. A frame is an array or an object being read, with its elements so far; the
  property name of an object frame is the one whose value comes next. The modes are: a value must
  come, a value or the end of the array, a name, a name or the end of the object, a colon, and
  after a value.
\<close>

datatype frame = FArr "json list" | FObj "(string \<times> json) list" string

datatype mode = Value | FirstItem | Name | FirstName | Colon | After

text \<open>\<open>obj[k] = v\<close>: an existing property keeps its place.\<close>

fun put :: "string \<Rightarrow> 'v \<Rightarrow> (string \<times> 'v) list \<Rightarrow> (string \<times> 'v) list" where
  "put k v [] = [(k, v)]"
| "put k v ((k', v') # kvs) = (if k' = k then (k, v) # kvs else (k', v') # put k v kvs)"

text \<open>A complete value goes to the innermost frame; without a frame it is the result.\<close>

definition add_value :: "json \<Rightarrow> frame list \<Rightarrow> frame list + json" where
  "add_value v fs =
     (case fs of
        [] \<Rightarrow> Inr v
      | FArr js # fs' \<Rightarrow> Inl (FArr (js @ [v]) # fs')
      | FObj kvs k # fs' \<Rightarrow> Inl (FObj (put k v kvs) k # fs'))"

definition token_value :: "token \<Rightarrow> json option" where
  "token_value t = (case t of TTrue \<Rightarrow> Some (JBool True) | TFalse \<Rightarrow> Some (JBool False) | TNull \<Rightarrow> Some JNull
     | TStr s \<Rightarrow> Some (JStr s) | TNum x \<Rightarrow> Some (JNum x) | _ \<Rightarrow> None)"

text \<open>The value an innermost frame stands for when its bracket closes.\<close>

definition close_frame :: "token \<Rightarrow> frame \<Rightarrow> json option" where
  "close_frame t f = (case (t, f) of (TCloseArr, FArr js) \<Rightarrow> Some (JArr js) | (TCloseObj, FObj kvs k) \<Rightarrow> Some (JObj kvs)
     | _ \<Rightarrow> None)"

fun read :: "mode \<Rightarrow> frame list \<Rightarrow> token list \<Rightarrow> json option" where
  "read m fs [] = None"
| "read m fs (t # ts) =
     (let value = (\<lambda>v fs. case add_value v fs of Inl fs' \<Rightarrow> read After fs' ts | Inr j \<Rightarrow> if ts = [] then Some j else None);
          close = (case fs of [] \<Rightarrow> None
                   | f # fs' \<Rightarrow> (case close_frame t f of None \<Rightarrow> None | Some v \<Rightarrow> value v fs'));
          open_value = (if t = TOpenArr then read FirstItem (FArr [] # fs) ts
                        else if t = TOpenObj then read FirstName (FObj [] [] # fs) ts
                        else case token_value t of None \<Rightarrow> None | Some v \<Rightarrow> value v fs);
          name = (case (t, fs) of (TStr k, FObj kvs _ # fs') \<Rightarrow> read Colon (FObj kvs k # fs') ts | _ \<Rightarrow> None)
      in case m of
           Value \<Rightarrow> open_value
         | FirstItem \<Rightarrow> if t = TCloseArr then close else open_value
         | Name \<Rightarrow> name
         | FirstName \<Rightarrow> if t = TCloseObj then close else name
         | Colon \<Rightarrow> if t = TColon then read Value fs ts else None
         | After \<Rightarrow> if t = TComma
                    then (case fs of FArr _ # _ \<Rightarrow> read Value fs ts | FObj _ _ # _ \<Rightarrow> read Name fs ts | [] \<Rightarrow> None)
                    else close)"

definition JSON_parse :: "string \<Rightarrow> json res" where
  "JSON_parse s =
     (case tokens s of
        None \<Rightarrow> Inl (SyntaxErr ''Unexpected token in JSON'')
      | Some ts \<Rightarrow> (case read Value [] ts of None \<Rightarrow> Inl (SyntaxErr ''Unexpected end of JSON input'') | Some j \<Rightarrow> Inr j))"

section \<open>Whole numbers as text\<close>

lemma dec_times_10: "0 < m \<Longrightarrow> dec (m * 10) = dec m @ ''0''"
  using base10.to_digits_pos [of "m * 10"] by (simp add: dec_def toString_radix_def digit_char_def)

lemma dec_times_power: "0 < m \<Longrightarrow> dec (m * 10 ^ j) = dec m @ replicate j (CHR ''0'')"
proof (induction j)
  case (Suc j)
  have "dec (m * 10 ^ Suc j) = dec (m * 10 ^ j * 10)" by (simp add: mult_ac)
  also have "\<dots> = dec (m * 10 ^ j) @ ''0''" using Suc.prems by (intro dec_times_10) simp
  finally show ?case using Suc by (simp add: replicate_append_same)
qed simp

lemma shortest_first:
  "try_digits x n k \<noteq> None \<Longrightarrow> shortest x n (ks @ k # ks') = Some (k', m, n') \<Longrightarrow> k' \<in> set ks \<or> k' = k"
  by (induction ks) (auto split: option.splits)

lemma whole_digits: "0 < N \<Longrightarrow> decimal_exponent (of_nat N) = int (length (dec N))"
  by (simp add: decimal_exponent_def)

lemma try_whole:
  assumes "N \<le> 2 ^ 52"
  shows "try_digits (of_nat N) (int (length (dec N))) (length (dec N)) \<noteq> None"
proof -
  have "\<bar>int N\<bar> \<le> 2 ^ 53" using assms by (simp add: order_trans [of _ "int (2 ^ 52)"] flip: of_nat_le_iff)
  then have "fl (of_nat N) = of_nat N" using fl_int_exact [of "int N"] by simp
  moreover have "rnd (of_nat N) = int N" using rnd_of_int [of "int N"] by simp
  ultimately show ?thesis by (simp add: try_digits_def)
qed

lemma fl_whole_back:
  assumes "fl (of_nat v) = of_nat N" "N \<le> 2 ^ 52"
  shows "v = N"
proof (cases "v = 0")
  case False
  have "(1 :: rat) / 10 ^ 9 \<le> of_nat v" using False by (simp add: order_trans [of _ 1])
  then have e: "\<bar>of_nat N - of_nat v :: rat\<bar> \<le> of_nat v / 2 ^ 53" using fl_error_amount assms(1) by metis
  have n: "of_nat N \<le> (2 :: rat) ^ 52" using assms(2) by (metis of_nat_le_iff of_nat_numeral of_nat_power)
  have "(of_nat v :: rat) \<le> 2 ^ 53"
  proof (rule ccontr)
    assume v: "\<not> (of_nat v :: rat) \<le> 2 ^ 53"
    have "of_nat v - of_nat N \<le> (of_nat v :: rat) / 2 ^ 53" using e by linarith
    moreover have "(of_nat v :: rat) / 2 ^ 53 \<le> of_nat v / 4" by (rule divide_left_mono) simp_all
    ultimately show False using v n by simp
  qed
  then have "\<bar>int v\<bar> \<le> 2 ^ 53" by (metis abs_of_nat of_int_le_iff of_int_numeral of_int_of_nat_eq of_int_power)
  then show ?thesis using fl_int_exact [of "int v"] assms(1) by simp
qed (use assms(1) in \<open>simp add: fl_0\<close>)

lemma num_to_string_whole:
  assumes "N \<le> 2 ^ 52"
  shows "num_to_string (of_nat N) = dec N"
proof (cases "N = 0")
  case False
  define d where "d = length (dec N)"
  have d: "0 < d" using False by (simp add: d_def)
  have "N < 10 ^ 17" using assms by (rule le_less_trans) simp
  moreover have "10 ^ (d - 1) \<le> N" using False dec_length_bounds(1) [of N] by (simp add: d_def)
  ultimately have "(10 :: nat) ^ (d - 1) < 10 ^ 17" by linarith
  then have "d - 1 < 17" by (rule power_less_imp_less_exp [rotated]) simp
  then have d17: "d < 18" by simp
  have e: "decimal_exponent (of_nat N) = int d" using False by (simp add: whole_digits d_def)
  have split: "[1..<18] = [1..<d] @ d # [Suc d..<18]" using upt_add_eq_append [of 1 d "18 - d"] d d17 by (simp add: upt_conv_Cons del: upt_Suc)
  have t: "try_digits (of_nat N) (int d) d \<noteq> None" using try_whole [OF assms] by (simp add: d_def)
  obtain k m n where r: "shortest (of_nat N) (int d) [1..<18] = Some (k, m, n)"
    using shortest_exists [OF _ t, of "[1..<18]"] d d17 by fastforce
  have "0 < k" and kd: "k \<le> d" using shortest_first [OF t r [unfolded split]] d by auto
  have td: "try_digits (of_nat N) (int d) k = Some (m, n)" using shortest_Some [OF r] by blast
  have b: "10 powi (int d - 1) \<le> (of_nat N :: rat)" "(of_nat N :: rat) < 10 powi (int d)"
    using decimal_exponent_bounds [of "of_nat N"] False e by auto
  note s = try_digits_sound [OF b \<open>0 < k\<close> td]
  define j where "j = nat n - k"
  have n: "n - int k = int j" "int k \<le> n" "n \<le> 21" "nat n - k = j" using s(4) kd d17 by (auto simp: j_def)
  have "fl (of_nat (m * 10 ^ j)) = (of_nat N :: rat)" using s(1) by (simp add: n(1))
  then have N: "m * 10 ^ j = N" using assms by (rule fl_whole_back)
  have "0 < m" using N False by (cases m) auto
  then have "dec N = dec m @ replicate j (CHR ''0'')" unfolding N [symmetric] by (rule dec_times_power)
  moreover have "num_to_string (of_nat N) = place_point k m n" using False r by (simp add: num_to_string_def e)
  ultimately show ?thesis by (simp add: place_point_def n)
qed (simp add: num_to_string_def dec_def toString_radix_def)

lemma json_number_whole:
  assumes "N \<le> 2 ^ 52"
  shows "json_number (dec N) = Some (of_nat N)"
proof -
  have t: "takeWhile (is_digit 10) (dec N) = dec N" "dropWhile (is_digit 10) (dec N) = []"
    using dec_digits by (simp_all add: takeWhile_eq_all_conv)
  have z: "hd (dec N) = CHR ''0'' \<Longrightarrow> length (dec N) = 1"
  proof (cases "N = 0")
    case False
    assume "hd (dec N) = CHR ''0''"
    moreover have "hd (to_digits 10 N []) < 10" "hd (to_digits 10 N []) \<noteq> 0" "to_digits 10 N [] \<noteq> []"
      using base10.to_digits_hd [of N] base10.to_digits_less [of "hd (to_digits 10 N [])" N] False by auto
    ultimately have "digit_char (hd (to_digits 10 N [])) = digit_char 0"
      using False by (simp add: dec_def toString_radix_def hd_map digit_char_def)
    then show ?thesis using digit_char_inj [of "hd (to_digits 10 N [])" 0] \<open>hd (to_digits 10 N []) < 10\<close> \<open>hd (to_digits 10 N []) \<noteq> 0\<close> by simp
  qed (simp add: dec_def toString_radix_def)
  have h: "hd (dec N) \<noteq> CHR ''-''" using dec_digits [of "hd (dec N)" N] by (auto simp: is_digit_def digit_val_def code_unit_def)
  have "number_ok (dec N)" by (auto simp: number_ok_def t Let_def dest: z)
  moreover have "parse_unsigned (dec N) = Some (of_nat N)"
    by (simp add: parse_unsigned_def t parse_exponent_def)
  moreover have "to_double (of_nat N) = Fin (of_nat N)"
  proof -
    have n: "\<bar>int N\<bar> \<le> 2 ^ 53" using assms by (simp add: order_trans [of _ "int (2 ^ 52)"] flip: of_nat_le_iff)
    then have f: "fl (of_nat N) = of_nat N" using fl_int_exact [of "int N"] by simp
    have "(of_int (int N) :: rat) \<le> of_int (2 ^ 60)" unfolding of_int_le_iff using n by simp
    then have "\<bar>fl (of_nat N)\<bar> \<le> (2 :: rat) ^ 60" using f by simp
    then show ?thesis using to_double_Fin [of "of_nat N"] f by simp
  qed
  ultimately show ?thesis using h by (simp add: json_number_def)
qed

section \<open>String literals\<close>

lemma hex4_control: "n < 32 \<Longrightarrow> hex4 (''00'' @ byteToHex (of_nat n)) = Some n"
proof -
  have "\<forall>n\<in>set [0..<32]. hex4 (''00'' @ byteToHex (of_nat n)) = Some n" by code_simp
  then show "n < 32 \<Longrightarrow> ?thesis" by simp
qed

lemma quote_char_cases:
  obtains (plain) "quote_char c = [c]" "c \<noteq> CHR 0x22" "c \<noteq> CHR 0x5C" "\<not> code_unit c < 32"
  | (escape) e where "quote_char c = [CHR 0x5C, e]" "e \<noteq> CHR ''u''" "simple_escape e = Some c"
  | (control) "quote_char c = CHR 0x5C # CHR ''u'' # ''00'' @ byteToHex (of_nat (code_unit c))" "code_unit c < 32"
proof -
  consider "c \<in> {CHR 0x22, CHR 0x5C, CHR 0x08, CHR 0x0C, CHR 0x0A, CHR 0x0D, CHR 0x09}"
    | "c \<notin> {CHR 0x22, CHR 0x5C, CHR 0x08, CHR 0x0C, CHR 0x0A, CHR 0x0D, CHR 0x09}" by blast
  then show thesis
  proof cases
    case 1
    then have "\<exists>e. quote_char c = [CHR 0x5C, e] \<and> e \<noteq> CHR ''u'' \<and> simple_escape e = Some c"
      unfolding insert_iff by (elim disjE) (simp_all add: quote_char_def simple_escape_def)
    then show ?thesis using escape by blast
  next
    case 2
    then show ?thesis using plain control by (cases "code_unit c < 32") (simp_all add: quote_char_def)
  qed
qed

lemma scan_quote_char: "scan_string (quote_char c @ s) = map_option (\<lambda>(t, r). (c # t, r)) (scan_string s)"
proof (cases c rule: quote_char_cases)
  case plain
  then show ?thesis by (simp add: scan_string.simps(2))
next
  case (escape e)
  have "scan_string (CHR 0x5C # e # s) = map_option (\<lambda>(t, r). (c # t, r)) (scan_string s)"
    by (subst scan_string.simps(2)) (simp add: escape(2,3) code_unit_def)
  then show ?thesis by (simp add: escape(1))
next
  case control
  define h where "h = ''00'' @ byteToHex (of_nat (code_unit c))"
  have h: "hex4 h = Some (code_unit c)" "length h = 4" using hex4_control [OF control(2)] by (simp_all add: h_def)
  have "scan_string (CHR 0x5C # CHR ''u'' # h @ s) = map_option (\<lambda>(t, r). (c # t, r)) (scan_string s)"
    by (subst scan_string.simps(2)) (simp add: h code_unit_less, simp add: code_unit_def)
  then show ?thesis by (simp add: control(1) h_def)
qed

lemma scan_quoted: "scan_string (concat (map quote_char s) @ CHR 0x22 # r) = Some (s, r)"
  by (induction s) (simp_all add: scan_quote_char scan_string.simps)

section \<open>Tokens of a printed value\<close>

lemma tokens_space [simp]: "json_space c \<Longrightarrow> tokens (c # s) = tokens s"
  by (simp add: tokens.simps)

lemma tokens_new_line [simp]: "tokens (new_line i @ s) = tokens s"
proof -
  have "tokens (replicate i (CHR '' '') @ s) = tokens s"
    by (induction i) (simp_all add: json_space_def code_unit_def)
  then show ?thesis by (simp add: new_line_def json_space_def code_unit_def)
qed

lemma tokens_punctuation: "punctuation c = Some t \<Longrightarrow> tokens (c # s) = map_option ((#) t) (tokens s)"
  by (auto simp: tokens.simps json_space_def code_unit_def punctuation_def split: if_splits)

lemma tokens_quote [simp]: "tokens (quote k @ s) = map_option ((#) (TStr k)) (tokens s)"
  by (simp add: quote_def tokens.simps json_space_def code_unit_def punctuation_def scan_quoted)

lemma tokens_words:
  "tokens (''true'' @ s) = map_option ((#) TTrue) (tokens s)" "tokens (''false'' @ s) = map_option ((#) TFalse) (tokens s)"
  "tokens (''null'' @ s) = map_option ((#) TNull) (tokens s)"
  by (simp_all add: tokens.simps json_space_def code_unit_def punctuation_def num_char_def is_digit_def digit_val_def startsWith_Cons)

lemma tokens_whole:
  assumes "N \<le> 2 ^ 52" "s = [] \<or> \<not> num_char (hd s)"
  shows "tokens (dec N @ s) = map_option ((#) (TNum (of_nat N))) (tokens s)"
proof -
  obtain c w where d: "dec N = c # w" by (cases "dec N") auto
  have n: "list_all num_char (dec N)" using dec_digits by (auto simp: list_all_iff num_char_def)
  have c: "is_digit 10 c" using dec_digits [of c N] d by simp
  have "\<not> json_space c" "punctuation c = None" "c \<noteq> CHR 0x22"
    using c by (auto simp: is_digit_def digit_val_def code_unit_def json_space_def punctuation_def Let_def split: if_splits)
  moreover have "num_char c" "takeWhile num_char (w @ s) = w" "dropWhile num_char (w @ s) = s"
    using n d assms(2) by (cases s; auto simp: list_all_iff takeWhile_append dropWhile_append)+
  ultimately show ?thesis using json_number_whole [OF assms(1)] by (simp add: d tokens.simps)
qed

text \<open>The tokens of a value.\<close>

fun commas :: "token list list \<Rightarrow> token list" where
  "commas [] = []"
| "commas [u] = u"
| "commas (u # u' # us) = u @ TComma # commas (u' # us)"

fun toks :: "json \<Rightarrow> token list" where
  "toks JUndef = [TNull]"
| "toks JNull = [TNull]"
| "toks (JBool b) = [if b then TTrue else TFalse]"
| "toks (JNum x) = [TNum x]"
| "toks (JStr s) = [TStr s]"
| "toks (JArr js) = TOpenArr # commas (map toks js) @ [TCloseArr]"
| "toks (JObj kvs) = TOpenObj # commas (map (\<lambda>(k, v). TStr k # TColon # toks v) kvs) @ [TCloseObj]"

text \<open>
  The values whose text is read back: no \<open>undefined\<close>, whole Numbers from 0 to \<open>2^52\<close>, and objects
  with distinct property names.
\<close>

fun json_wf :: "json \<Rightarrow> bool" where
  "json_wf JUndef = False"
| "json_wf JNull = True"
| "json_wf (JBool b) = True"
| "json_wf (JNum x) = (x = of_nat (nat \<lfloor>x\<rfloor>) \<and> nat \<lfloor>x\<rfloor> \<le> 2 ^ 52)"
| "json_wf (JStr s) = True"
| "json_wf (JArr js) = list_all json_wf js"
| "json_wf (JObj kvs) = (distinct (map fst kvs) \<and> list_all (\<lambda>(k, v). json_wf v) kvs)"

text \<open>A text \<open>t\<close> has the tokens \<open>u\<close>, whatever follows it that cannot continue a number.\<close>

definition reads_as :: "string \<Rightarrow> token list \<Rightarrow> bool" where
  "reads_as t u \<longleftrightarrow> (\<forall>r. r = [] \<or> \<not> num_char (hd r) \<longrightarrow> tokens (t @ r) = map_option ((@) u) (tokens r))"

lemma map_option_append: "map_option ((@) u) (map_option ((@) w) x) = map_option ((@) (u @ w)) x"
  "map_option ((#) t) (map_option ((@) w) x) = map_option ((@) (t # w)) x"
  "map_option ((@) u) (map_option ((#) t) x) = map_option ((@) (u @ [t])) x"
  by (cases x; simp)+

lemma map_option_single: "map_option ((@) [t]) x = map_option ((#) t) x"
  by (cases x) simp_all

lemma new_line_hd: "new_line i @ s \<noteq> [] \<and> hd (new_line i @ s) = CHR 0x0A"
  by (simp add: new_line_def)

lemma not_num_chars [simp]: "\<not> num_char (CHR 0x0A)" "\<not> num_char (CHR '','')"
  by (simp_all add: num_char_def is_digit_def digit_val_def code_unit_def)

lemma tokens_join:
  assumes "list_all2 reads_as ts us" "r = [] \<or> \<not> num_char (hd r)"
  shows "tokens (js_join ('','' @ new_line i) ts @ r) = map_option ((@) (commas us)) (tokens r)"
  using assms
proof (induction ts us rule: list_all2_induct)
  case Nil
  then show ?case by (cases "tokens r") simp_all
next
  case (Cons t ts u us)
  show ?case
  proof (cases ts)
    case Nil
    then show ?thesis using Cons by (auto simp: reads_as_def)
  next
    case (Cons t' ts')
    then obtain u' us' where us: "us = u' # us'" using Cons.hyps(2) by (auto simp: list_all2_Cons1)
    let ?rest = "CHR '','' # new_line i @ js_join ('','' @ new_line i) ts @ r"
    have "tokens (t @ ?rest) = map_option ((@) u) (tokens ?rest)"
      using Cons.hyps(1) by (simp add: reads_as_def)
    also have "tokens ?rest = map_option ((#) TComma) (map_option ((@) (commas us)) (tokens r))"
      using Cons.IH Cons.prems by (subst tokens_punctuation [of _ TComma]) (simp_all add: punctuation_def)
    finally show ?thesis by (cases "tokens r") (simp_all add: Cons us)
  qed
qed

lemma reads_bracketed:
  assumes "list_all2 reads_as ts us" "punctuation l = Some L" "punctuation c = Some R"
  shows "reads_as (bracketed i l c ts) (L # commas us @ [R])"
  unfolding reads_as_def
proof (intro allI impI)
  fix r
  show "tokens (bracketed i l c ts @ r) = map_option ((@) (L # commas us @ [R])) (tokens r)"
  proof (cases "ts = []")
    case True
    then show ?thesis using assms by (cases "tokens r") (simp_all add: bracketed_def tokens_punctuation)
  next
    case False
    let ?tail = "new_line i @ c # r"
    have "tokens (js_join ('','' @ new_line (i + 2)) ts @ ?tail) = map_option ((@) (commas us)) (tokens ?tail)"
      using assms(1) new_line_hd by (intro tokens_join) simp_all
    also have "tokens ?tail = map_option ((#) R) (tokens r)" using assms(3) by (simp add: tokens_punctuation)
    finally show ?thesis
      using False assms(2) by (simp add: bracketed_def tokens_punctuation map_option_append)
  qed
qed

lemma reads_property: "reads_as t u \<Longrightarrow> reads_as (quote k @ CHR '':'' # CHR '' '' # t) (TStr k # TColon # u)"
  unfolding reads_as_def
  by (simp add: tokens_punctuation [of "CHR '':''" TColon] punctuation_def json_space_def code_unit_def map_option_append)

lemma reads_text: "json_wf j \<Longrightarrow> reads_as (json_text i j) (toks j)"
proof (induction j arbitrary: i)
  case (JNum x)
  then obtain N where "x = of_nat N" "N \<le> 2 ^ 52" by auto
  then have "reads_as (dec N) [TNum x]" unfolding reads_as_def using tokens_whole [of N] by (auto intro!: arg_cong2 [where f = map_option])
  then show ?case using \<open>x = of_nat N\<close> \<open>N \<le> 2 ^ 52\<close> by (simp add: num_to_string_whole)
next
  case (JArr js)
  then have "list_all2 reads_as (map (json_text (i + 2)) js) (map toks js)"
    by (auto simp: list_all2_conv_all_nth list_all_iff)
  then show ?case using reads_bracketed [of _ _ "CHR ''[''" TOpenArr "CHR '']''" TCloseArr i] by (simp add: punctuation_def)
next
  case (JObj kvs)
  have f: "filter (\<lambda>(k, v). v \<noteq> JUndef) kvs = kvs" using JObj.prems by (auto simp: filter_id_conv list_all_iff)
  have "list_all2 reads_as (map (\<lambda>(k, v). quote k @ '': '' @ json_text (i + 2) v) kvs)
     (map (\<lambda>(k, v). TStr k # TColon # toks v) kvs)"
    unfolding list_all2_map1 list_all2_map2 list.rel_map using JObj
    by (fastforce simp: list_all2_same list_all_iff intro!: reads_property)
  then show ?case
    using reads_bracketed [of _ _ "CHR ''{''" TOpenObj "CHR ''}''" TCloseObj i] by (simp add: punctuation_def f)
qed (simp_all add: reads_as_def tokens_words [simplified] map_option_single)

section \<open>Reading the tokens\<close>

definition feed :: "json \<Rightarrow> frame list \<Rightarrow> token list \<Rightarrow> json option" where
  "feed v fs ts = (case add_value v fs of Inl fs' \<Rightarrow> read After fs' ts | Inr j \<Rightarrow> if ts = [] then Some j else None)"

lemma feed_frames [simp]:
  "feed v (FArr js # fs) ts = read After (FArr (js @ [v]) # fs) ts"
  "feed v (FObj kvs k # fs) ts = read After (FObj (put k v kvs) k # fs) ts"
  by (simp_all add: feed_def add_value_def)

lemma read_steps:
  "read Value fs (TOpenArr # ts) = read FirstItem (FArr [] # fs) ts"
  "read Value fs (TOpenObj # ts) = read FirstName (FObj [] [] # fs) ts"
  "token_value t = Some v \<Longrightarrow> read Value fs (t # ts) = feed v fs ts"
  "read FirstItem (FArr js # fs) (TCloseArr # ts) = feed (JArr js) fs ts"
  "read FirstName (FObj kvs k # fs) (TCloseObj # ts) = feed (JObj kvs) fs ts"
  "read After (FArr js # fs) (TCloseArr # ts) = feed (JArr js) fs ts"
  "read After (FObj kvs k # fs) (TCloseObj # ts) = feed (JObj kvs) fs ts"
  "read After (FArr js # fs) (TComma # ts) = read Value (FArr js # fs) ts"
  "read After (FObj kvs k # fs) (TComma # ts) = read Name (FObj kvs k # fs) ts"
  "read Name (FObj kvs k # fs) (TStr n # ts) = read Colon (FObj kvs n # fs) ts"
  "read Colon fs (TColon # ts) = read Value fs ts"
  by (auto simp: close_frame_def feed_def token_value_def Let_def split: token.splits)

lemma read_first:
  "t \<noteq> TCloseArr \<Longrightarrow> read FirstItem fs (t # ts) = read Value fs (t # ts)"
  "t \<noteq> TCloseObj \<Longrightarrow> read FirstName fs (t # ts) = read Name fs (t # ts)"
  by (simp_all add: Let_def)

declare read.simps [simp del]

lemma toks_first: "\<exists>t u. toks j = t # u \<and> t \<noteq> TCloseArr"
  by (cases j) auto

lemma commas_first: "js \<noteq> [] \<Longrightarrow> \<exists>t u. commas (map toks js) @ r = t # u \<and> t \<noteq> TCloseArr"
proof -
  assume "js \<noteq> []"
  then obtain x xs where "js = x # xs" by (cases js) auto
  then show ?thesis using toks_first [of x] by (cases xs) force+
qed

lemma read_items:
  assumes "\<And>j fs ts. j \<in> set js \<Longrightarrow> read Value fs (toks j @ ts) = feed j fs ts" "js \<noteq> []"
  shows "read Value (FArr acc # fs) (commas (map toks js) @ TCloseArr # ts) = feed (JArr (acc @ js)) fs ts"
  using assms
proof (induction js arbitrary: acc rule: induct_list012)
  case (3 x y zs)
  show ?case
    using "3.IH"(2) [of "acc @ [x]"] "3.prems"(1) by (simp add: read_steps)
qed (simp_all add: read_steps)

lemma put_fresh: "k \<notin> set (map fst kvs) \<Longrightarrow> put k v kvs = kvs @ [(k, v)]"
  by (induction kvs) auto

lemma map_of_put [simp]: "map_of (put k v kvs) = (map_of kvs)(k \<mapsto> v)"
  by (induction kvs) (auto simp: fun_eq_iff)

lemma put_distinct:
  fixes kvs :: "(string \<times> 'a) list"
  shows "distinct (map fst kvs) \<Longrightarrow> distinct (map fst (put k v kvs))"
proof -
  have "fst ` set (put k v kvs) = insert k (fst ` set kvs)" for kvs :: "(string \<times> 'a) list"
    by (induction k v kvs rule: put.induct) (simp_all add: insert_commute)
  then show "distinct (map fst kvs) \<Longrightarrow> ?thesis" by (induction kvs) auto
qed

lemma put_map: "put k (f v) (map (\<lambda>(k, v). (k, f v)) kvs) = map (\<lambda>(k, v). (k, f v)) (put k v kvs)"
  by (induction kvs) auto

abbreviation prop_toks :: "string \<times> json \<Rightarrow> token list" where
  "prop_toks \<equiv> (\<lambda>(k, v). TStr k # TColon # toks v)"

lemma read_props:
  assumes "\<And>k v fs ts. (k, v) \<in> set kvs \<Longrightarrow> read Value fs (toks v @ ts) = feed v fs ts" "kvs \<noteq> []"
    "distinct (map fst (acc @ kvs))"
  shows "read Name (FObj acc n # fs) (commas (map prop_toks kvs) @ TCloseObj # ts) = feed (JObj (acc @ kvs)) fs ts"
  using assms
proof (induction kvs arbitrary: acc n rule: induct_list012)
  case (2 p)
  obtain k v where p: "p = (k, v)" by (cases p)
  show ?case using 2 by (simp add: p read_steps put_fresh)
next
  case (3 p q zs)
  obtain k v where p: "p = (k, v)" by (cases p)
  have "read Value fs (toks v @ ts) = feed v fs ts" for fs ts by (rule "3.prems"(1) [of k]) (simp add: p)
  moreover have "read Name (FObj (acc @ [p]) k # fs) (commas (map prop_toks (q # zs)) @ TCloseObj # ts)
      = feed (JObj ((acc @ [p]) @ q # zs)) fs ts"
    using "3.prems" by (intro "3.IH"(2)) auto
  ultimately show ?case using "3.prems"(3) by (simp add: p read_steps put_fresh)
qed simp

lemma read_toks: "json_wf j \<Longrightarrow> read Value fs (toks j @ ts) = feed j fs ts"
proof (induction j arbitrary: fs ts)
  case (JArr js)
  show ?case
  proof (cases "js = []")
    case True
    then show ?thesis by (simp add: read_steps)
  next
    case False
    then show ?thesis
      using JArr read_items [of js "[]" fs ts] commas_first [of js "TCloseArr # ts"]
      by (force simp: read_steps read_first list_all_iff)
  qed
next
  case (JObj kvs)
  show ?case
  proof (cases kvs)
    case Nil
    then show ?thesis by (simp add: read_steps)
  next
    case (Cons p ps)
    have "\<exists>k u. commas (map prop_toks kvs) @ TCloseObj # ts = TStr k # u" by (cases ps; cases p) (auto simp: Cons)
    moreover have "read Name (FObj [] [] # fs) (commas (map prop_toks kvs) @ TCloseObj # ts) = feed (JObj ([] @ kvs)) fs ts"
      using JObj Cons by (intro read_props) (fastforce simp: list_all_iff)+
    ultimately show ?thesis by (auto simp: read_steps read_first)
  qed
qed (simp_all add: read_steps token_value_def)

lemma JSON_parse_stringify: "json_wf j \<Longrightarrow> JSON_parse (JSON_stringify j) = Inr j"
proof -
  assume j: "json_wf j"
  then have "tokens (json_text 0 j) = Some (toks j)"
    using reads_text [OF j, of 0] by (auto simp: reads_as_def tokens.simps dest: spec [of _ "[]"])
  moreover have "read Value [] (toks j) = Some j"
    using read_toks [OF j, of "[]" "[]"] by (simp add: feed_def add_value_def)
  ultimately show ?thesis by (simp add: JSON_parse_def JSON_stringify_def)
qed

end
