(* ===== verification/MultisigScreen.thy ===== *)
theory MultisigScreen
  imports Staking Multisig Json
begin

text \<open>
  The Multisig screen of web-wallet/app.js: creating a multisig address, proposing a payment from
  it, signing a proposal that arrives as JSON text, broadcasting it, and handing it over as a QR
  code. A proposal in the text field is read by \<open>read_proposal\<close>; text that is not a proposal (a
  property is missing or has another type) is rejected there, where the program would run into
  the same kind of error later or treat the property as zero. The properties: the text of a
  proposal is read back as the proposal, and passing the text from cosigner to cosigner has the
  effect of signing the proposal in turn.
\<close>

section \<open>Definitions\<close>

subsection \<open>Proposals as JSON\<close>

text \<open>The JSON value of a proposal whose signature maps have their entries in the order \<open>as\<close>.\<close>

definition input_json :: "proposal_input \<Rightarrow> json" where
  "input_json i = JObj [(''txid'', JStr (pi_txid i)), (''vout'', JNum (of_nat (pi_vout i))),
     (''valueSatoshis'', JNum (of_int (pi_value i))), (''redeemScript'', JStr (pi_redeemScript i))]"

definition output_json :: "proposal_output \<Rightarrow> json" where
  "output_json out = JObj [(''scriptPubKey'', JStr (po_scriptPubKey out)), (''valueSatoshis'', JNum (of_int (po_value out)))]"

definition sigs_json :: "(string \<times> string) list \<Rightarrow> json" where
  "sigs_json kvs = JObj (map (\<lambda>(k, v). (k, JStr v)) kvs)"

definition proposal_json :: "proposal \<Rightarrow> (string \<times> string) list list \<Rightarrow> json" where
  "proposal_json P as = JObj
     [(''version'', JNum (of_nat (p_version P))), (''locktime'', JNum (of_nat (p_locktime P))),
      (''inputs'', JArr (map input_json (p_inputs P))), (''outputs'', JArr (map output_json (p_outputs P))),
      (''signatures'', JArr (map sigs_json as))]"

definition jint :: "json \<Rightarrow> int res" where
  "jint j = (case j of JNum x \<Rightarrow> if of_int \<lfloor>x\<rfloor> = x then Inr \<lfloor>x\<rfloor> else Inl (TypeErr ''not an integer'')
             | _ \<Rightarrow> Inl (TypeErr ''not an integer''))"

definition read_input :: "json \<Rightarrow> proposal_input res" where
  "read_input j =
     bindE (bindE (jget j ''txid'') jstring) (\<lambda>t.
     bindE (bindE (jget j ''vout'') jnat) (\<lambda>n.
     bindE (bindE (jget j ''valueSatoshis'') jint) (\<lambda>v.
     bindE (bindE (jget j ''redeemScript'') jstring) (\<lambda>r.
       Inr \<lparr>pi_txid = t, pi_vout = n, pi_value = v, pi_redeemScript = r\<rparr>))))"

definition read_output :: "json \<Rightarrow> proposal_output res" where
  "read_output j =
     bindE (bindE (jget j ''scriptPubKey'') jstring) (\<lambda>s.
     bindE (bindE (jget j ''valueSatoshis'') jint) (\<lambda>v. Inr \<lparr>po_scriptPubKey = s, po_value = v\<rparr>))"

definition read_sigs :: "json \<Rightarrow> sig_map res" where
  "read_sigs j =
     (case j of
        JObj kvs \<Rightarrow> bindE (mapE (\<lambda>(k, v). bindE (jstring v) (\<lambda>s. Inr (k, s))) kvs) (\<lambda>as. Inr (map_of as))
      | _ \<Rightarrow> Inl (TypeErr ''not a signature map''))"

definition read_list :: "json \<Rightarrow> string \<Rightarrow> (json \<Rightarrow> 'a res) \<Rightarrow> 'a list res" where
  "read_list j key f = bindE (bindE (jget j key) jlist) (mapE f)"

definition read_proposal :: "json \<Rightarrow> proposal res" where
  "read_proposal j =
     bindE (bindE (jget j ''version'') jnat) (\<lambda>version.
     bindE (bindE (jget j ''locktime'') jnat) (\<lambda>locktime.
     bindE (read_list j ''inputs'' read_input) (\<lambda>inputs.
     bindE (read_list j ''outputs'' read_output) (\<lambda>outputs.
     bindE (read_list j ''signatures'' read_sigs) (\<lambda>signatures.
       Inr \<lparr>p_version = version, p_locktime = locktime, p_inputs = inputs, p_outputs = outputs,
            p_signatures = signatures\<rparr>)))))"

text \<open>
  \<open>cac.signMultisigProposal\<close> on the parsed object: the signatures it adds are written into the
  object, which is then printed.
\<close>

definition set_sig :: "string \<Rightarrow> json \<Rightarrow> sig_map \<Rightarrow> json" where
  "set_sig pubkeyHex old m =
     (case (old, m pubkeyHex) of (JObj kvs, Some sg) \<Rightarrow> JObj (put pubkeyHex (JStr sg) kvs) | _ \<Rightarrow> old)"

definition set_sigs :: "string \<Rightarrow> json \<Rightarrow> sig_map list \<Rightarrow> json res" where
  "set_sigs pubkeyHex j ms =
     (case j of
        JObj kvs \<Rightarrow> bindE (bindE (jget j ''signatures'') jlist) (\<lambda>olds.
          Inr (JObj (put ''signatures'' (JArr (map2 (set_sig pubkeyHex) olds ms)) kvs)))
      | _ \<Rightarrow> Inl (TypeErr ''signatures''))"

definition sign_text :: "crypto \<Rightarrow> bytes \<Rightarrow> bytes \<Rightarrow> string \<Rightarrow> string res" where
  "sign_text C privk pubk text =
     bindE (JSON_parse text) (\<lambda>j.
     bindE (read_proposal j) (\<lambda>P.
     bindE (signMultisigProposal C P privk pubk) (\<lambda>P'.
     bindE (set_sigs (bytesToHex pubk) j (p_signatures P')) (\<lambda>j'. Inr (JSON_stringify j')))))"

subsection \<open>The handlers\<close>

text \<open>\<open>String(e.message || e)\<close>\<close>

definition message_or_string :: "js_error \<Rightarrow> string" where
  "message_or_string e = (if error_message e = [] then error_string e else error_message e)"

definition loadMultisig :: "env \<Rightarrow> unit act" where
  "loadMultisig E = bind (ensureKey E 0) (\<lambda>key. setText ''my-pubkey'' (bytesToHex (publicKey key)))"

definition msCreate :: "env \<Rightarrow> unit act" where
  "msCreate E = seqs
     [setText ''ms-create-error'' [],
      setDisplay ''ms-create-result'' ''none'',
      try_catch
        (bind (ensureKey E 0) (\<lambda>key.
         bind (field ''ms-pubkeys'') (\<lambda>v.
         bind (field ''ms-m'') (\<lambda>mv.
         let lns = filter (\<lambda>l. l \<noteq> []) (map trim (js_split (CHR 0x0A) (trim v)));
             cosignerPubkeys = map hexToBytes lns;
             allPubkeys = publicKey key # cosignerPubkeys;
             m = parseInt 10 mv
         in bind (lift (createMultisigRedeemScript m allPubkeys)) (\<lambda>redeemScript.
            bind current_network (\<lambda>net.
            bind (lift (multisigAddress (e_crypto E) redeemScript net)) (\<lambda>address. seqs
              [setText ''ms-redeem-script'' (bytesToHex redeemScript),
               setText ''ms-address'' address,
               setDisplay ''ms-create-result'' ''block'',
               setField ''ms-propose-address'' address,
               setField ''ms-propose-redeem'' (bytesToHex redeemScript)])))))))
        (\<lambda>e. setText ''ms-create-error'' (message_or_string e))]"

text \<open>\<open>10 + inputs * (redeemScript.length + 150) + 2 * 34\<close>\<close>

definition ms_vsize :: "bytes \<Rightarrow> nat \<Rightarrow> int" where
  "ms_vsize redeemScript inputs = 10 + int inputs * (int (length redeemScript) + 150) + 2 * 34"

definition ms_input :: "bytes \<Rightarrow> json \<times> nat \<times> int \<Rightarrow> multisig_input res" where
  "ms_input redeemScript c =
     (case c of (u, idx, v) \<Rightarrow> bindE (outpoint u) (\<lambda>(t, n).
        Inr \<lparr>mi_txid = rev (hexToBytes t), mi_vout = n, mi_value = num_of_int v, mi_redeemScript = redeemScript\<rparr>))"

text \<open>The proposal for given outputs of the address; \<open>Inl\<close> is the early return for lack of funds.\<close>

definition ms_proposal ::
    "crypto \<Rightarrow> bytes \<Rightarrow> bytes \<Rightarrow> int \<Rightarrow> int \<Rightarrow> json list \<Rightarrow> (string + proposal) res" where
  "ms_proposal C redeemScript outScript amountSatoshis feeRate utxos =
     (let fee = (\<lambda>n. fee_for feeRate (ms_vsize redeemScript n)) in
      bindE (select_coins fee amountSatoshis (map (\<lambda>u. (u, 0)) utxos) [] 0) (\<lambda>(chosen, totalIn).
      let feeSatoshis = fee (length chosen) in
      if totalIn < amountSatoshis + feeSatoshis
      then Inr (Inl (''Insufficient funds at this address: have '' @ formatCac totalIn @ '', need ''
                       @ formatCac (amountSatoshis + feeSatoshis)))
      else
        let change = totalIn - amountSatoshis - feeSatoshis;
            outputs = \<lparr>scriptPubKey = outScript, valueSatoshis = num_of_int amountSatoshis\<rparr>
              # (if 0 < change then [\<lparr>scriptPubKey = p2shScriptPubKey (hash160 C redeemScript), valueSatoshis = num_of_int change\<rparr>]
                 else [])
        in bindE (mapE (ms_input redeemScript) chosen) (\<lambda>inputs. Inr (Inr (createMultisigProposal inputs outputs 0)))))"

definition msPropose :: "env \<Rightarrow> unit act" where
  "msPropose E = seqs
     [setText ''ms-propose-error'' [],
      try_catch
        (bind (trimmed_field ''ms-propose-address'') (\<lambda>address.
         bind (trimmed_field ''ms-propose-redeem'') (\<lambda>redeemScriptHex.
         bind (trimmed_field ''ms-propose-to'') (\<lambda>toAddress.
         bind (field ''ms-propose-amount'') (\<lambda>v.
         let amountCac = parseFloat v
         in if address = [] \<or> redeemScriptHex = [] \<or> toAddress = [] \<or> \<not> truthy amountCac \<or> le_zero amountCac
            then setText ''ms-propose-error'' ''Fill in every field.''
            else let redeemScript = hexToBytes redeemScriptHex in
              bind current_network (\<lambda>net.
              bind (lift (script_for (e_crypto E) net toAddress)) (\<lambda>outScript.
              bind (lift (to_satoshis amountCac)) (\<lambda>amountSatoshis.
              bind (call E (\<lambda>b. gw_utxos b address)) (\<lambda>utxoResp.
              bind (fetch_fee_rate E) (\<lambda>feeRate.
              bind (lift (bindE (jget utxoResp ''utxos'') jlist)) (\<lambda>utxos.
              bind (lift (ms_proposal (e_crypto E) redeemScript outScript amountSatoshis feeRate utxos)) (\<lambda>r.
                case r of
                  Inl message \<Rightarrow> setText ''ms-propose-error'' message
                | Inr P \<Rightarrow> setField ''ms-proposal-json''
                    (JSON_stringify (proposal_json P (map (\<lambda>_. []) (p_inputs P))))))))))))))))
        (\<lambda>e. setText ''ms-propose-error'' (message_or_string e))]"

definition msSign :: "env \<Rightarrow> unit act" where
  "msSign E = seqs
     [setText ''ms-sign-error'' [],
      setText ''ms-sign-success'' [],
      try_catch
        (bind (ensureKey E 0) (\<lambda>key.
         bind (field ''ms-proposal-json'') (\<lambda>text.
         bind (lift (sign_text (e_crypto E) (privateKey key) (publicKey key) text)) (\<lambda>signed. seqs
           [setField ''ms-proposal-json'' signed,
            setText ''ms-sign-success'' (''Signed with your key. Send this JSON to the next cosigner, ''
              @ ''or finalize if enough signatures are collected.'')]))))
        (\<lambda>e. setText ''ms-sign-error'' (message_or_string e))]"

definition msBroadcast :: "env \<Rightarrow> unit act" where
  "msBroadcast E = seqs
     [setText ''ms-sign-error'' [],
      setText ''ms-sign-success'' [],
      try_catch
        (bind (field ''ms-proposal-json'') (\<lambda>text.
         bind (lift (bindE (JSON_parse text) read_proposal)) (\<lambda>P.
         bind (lift (finalizeMultisigTransaction P)) (\<lambda>rawTx.
         bind (call E (\<lambda>b. gw_broadcast b (bytesToHex rawTx))) (\<lambda>result.
         bind (lift (jget result ''txid'')) (\<lambda>t. setText ''ms-sign-success'' (''Broadcast: '' @ jtext t)))))))
        (\<lambda>e. setText ''ms-sign-error'' (case e of GatewayErr c m \<Rightarrow> m | _ \<Rightarrow> message_or_string e))]"

definition MS_QR_MAX_CHARS :: nat where
  "MS_QR_MAX_CHARS = 1500"

definition msShowQr :: "env \<Rightarrow> unit act" where
  "msShowQr E =
     bind (setText ''ms-qr-error'' []) (\<lambda>_.
     bind (trimmed_field ''ms-proposal-json'') (\<lambda>json.
       if json = [] then setText ''ms-qr-error'' ''Nothing to show -- paste or create a proposal first.''
       else if MS_QR_MAX_CHARS < length json
       then setText ''ms-qr-error'' (''This proposal is too large for a reliable QR code ('' @ dec (length json)
              @ '' characters). Share the JSON text directly instead.'')
       else seqs [setDisplay ''ms-qr-overlay'' ''flex'', renderQr E ''ms-qr-canvas'' json]))"

definition msQrClose :: "unit act" where
  "msQrClose = setDisplay ''ms-qr-overlay'' ''none''"

definition msScanQr :: "unit act" where
  "msScanQr = openQrScanner ScanProposal"

section \<open>Frames\<close>

lemma core_multisig [keeps_rules]:
  "keeps (core_is c) (msBroadcast E)" "keeps (core_is c) (msShowQr E)" "keeps (core_is c) msQrClose" "keeps (core_is c) msScanQr"
  unfolding msBroadcast_def msShowQr_def msQrClose_def msScanQr_def by (intro keeps_rules)+

lemma core_msPropose [keeps_rules]: "keeps (core_is c) (msPropose E)"
  unfolding msPropose_def by (intro keeps_rules)

context core_predicate
begin

lemmas multisig_frames [keeps_rules] = core_multisig [THEN keeps_frame] core_msPropose [THEN keeps_frame]

end

context wallet_predicate
begin

lemma keeps_multisig [keeps_rules]: "keeps I (loadMultisig E)" "keeps I (msCreate E)" "keeps I (msSign E)"
  unfolding loadMultisig_def msCreate_def msSign_def by (intro keeps_rules)+

end

section \<open>Proposals as text\<close>

text \<open>
  The proposals a text stands for: Numbers that are whole and at most \<open>2^52\<close>, and signature maps
  with one entry for each key.
\<close>

definition small :: "int \<Rightarrow> bool" where
  "small v \<longleftrightarrow> 0 \<le> v \<and> v \<le> 2 ^ 52"

definition printable :: "proposal \<Rightarrow> (string \<times> string) list list \<Rightarrow> bool" where
  "printable P as \<longleftrightarrow> small (int (p_version P)) \<and> small (int (p_locktime P))
     \<and> list_all (\<lambda>i. small (int (pi_vout i)) \<and> small (pi_value i)) (p_inputs P)
     \<and> list_all (\<lambda>out. small (po_value out)) (p_outputs P)
     \<and> p_signatures P = map map_of as \<and> list_all (\<lambda>kvs. distinct (map fst kvs)) as"

lemma mapE_map: "(\<And>x. x \<in> set xs \<Longrightarrow> f (g x) = Inr x) \<Longrightarrow> mapE f (map g xs) = Inr xs"
  by (induction xs) simp_all

lemma read_number [simp]: "jnat (JNum (of_nat n)) = Inr n" "jint (JNum (of_int v)) = Inr v"
  by (simp_all add: jnat_def jint_def)

lemma read_input_json [simp]: "read_input (input_json i) = Inr i"
  by (cases i) (simp add: read_input_def input_json_def jget_def jstring_def)

lemma read_output_json [simp]: "read_output (output_json out) = Inr out"
  by (cases out) (simp add: read_output_def output_json_def jget_def jstring_def)

lemma read_sigs_json [simp]: "read_sigs (sigs_json kvs) = Inr (map_of kvs)"
proof -
  have "mapE (\<lambda>(k, v). bindE (jstring v) (\<lambda>s. Inr (k, s))) (map (\<lambda>(k, v). (k, JStr v)) kvs) = Inr kvs"
    by (rule mapE_map) (auto simp: jstring_def)
  then show ?thesis by (simp add: read_sigs_def sigs_json_def)
qed

lemma read_proposal_json:
  assumes "p_signatures P = map map_of as"
  shows "read_proposal (proposal_json P as) = Inr P"
proof -
  have "mapE read_sigs (map sigs_json as) = Inr (p_signatures P)"
    unfolding assms by (induction as) simp_all
  then show ?thesis
    by (simp add: read_proposal_def proposal_json_def read_list_def jget_def jlist_def mapE_map)
qed

lemma wf_number: "small v \<Longrightarrow> json_wf (JNum (of_int v))"
proof -
  assume v: "small v"
  then obtain n where n: "v = int n" unfolding small_def using nonneg_int_cases by blast
  then have "int n \<le> int (2 ^ 52)" using v by (simp add: small_def)
  then have "n \<le> 2 ^ 52" unfolding of_nat_le_iff .
  then show ?thesis by (simp add: n)
qed

lemma wf_number_nat: "small (int n) \<Longrightarrow> json_wf (JNum (of_nat n))"
  using wf_number [of "int n"] by simp

declare json_wf.simps(4) [simp del]

lemma wf_proposal_json: "printable P as \<Longrightarrow> json_wf (proposal_json P as)"
proof -
  assume p: "printable P as"
  have "json_wf (input_json i)" if "i \<in> set (p_inputs P)" for i
    using that p by (simp add: printable_def input_json_def list_all_iff wf_number wf_number_nat)
  moreover have "json_wf (output_json out)" if "out \<in> set (p_outputs P)" for out
    using that p by (simp add: printable_def output_json_def list_all_iff wf_number)
  moreover have "json_wf (sigs_json kvs)" if "kvs \<in> set as" for kvs
    using that p by (auto simp: printable_def sigs_json_def list_all_iff comp_def case_prod_beta)
  ultimately show ?thesis
    using p by (simp add: printable_def proposal_json_def list_all_iff wf_number_nat)
qed

section \<open>Signing a text\<close>

definition adds :: "string \<Rightarrow> sig_map list \<Rightarrow> sig_map list \<Rightarrow> bool" where
  "adds k sigs sigs' \<longleftrightarrow> list_all2 (\<lambda>m m'. m' = m \<or> (\<exists>v. m' = m(k \<mapsto> v))) sigs sigs'"

lemma adds_update: "adds k (sigs[i := (sigs ! i)(k \<mapsto> v)]) sigs' \<Longrightarrow> i < length sigs \<Longrightarrow> adds k sigs sigs'"
  unfolding adds_def list_all2_conv_all_nth by (auto simp: nth_list_update split: if_splits)

lemma loop_adds: "sign_proposal_loop C P privk pubk i inps sigs = Inr sigs' \<Longrightarrow> adds (bytesToHex pubk) sigs sigs'"
proof (induction inps arbitrary: i sigs)
  case Nil
  then show ?case by (simp add: adds_def list_all2_same)
next
  case (Cons inp inps)
  show ?case
  proof (cases "scriptContainsPubkey (hexToBytes (pi_redeemScript inp)) pubk")
    case False
    then show ?thesis using Cons by (simp add: case_prod_beta)
  next
    case True
    then obtain v where "i < length sigs"
      "sign_proposal_loop C P privk pubk (Suc i) inps (sigs[i := (sigs ! i)(bytesToHex pubk \<mapsto> v)]) = Inr sigs'"
      using Cons.prems by (auto simp: case_prod_beta bindE_eq_Inr Let_def split: if_splits)
    then show ?thesis using Cons.IH adds_update by blast
  qed
qed

definition put_sig :: "string \<Rightarrow> (string \<times> string) list \<Rightarrow> sig_map \<Rightarrow> (string \<times> string) list" where
  "put_sig k kvs m = (case m k of None \<Rightarrow> kvs | Some v \<Rightarrow> put k v kvs)"

lemma set_sig_json: "set_sig k (sigs_json kvs) m = sigs_json (put_sig k kvs m)"
  using put_map [of k JStr _ kvs] by (simp add: set_sig_def sigs_json_def put_sig_def split: option.split)

lemma put_sig_map: "m' = map_of kvs \<or> (\<exists>v. m' = (map_of kvs)(k \<mapsto> v)) \<Longrightarrow> map_of (put_sig k kvs m') = m'"
  by (auto simp: put_sig_def fun_eq_iff split: option.split)

lemma set_sigs_json:
  "set_sigs k (proposal_json P as) ms = Inr (proposal_json (P\<lparr>p_signatures := ms\<rparr>) (map2 (put_sig k) as ms))"
  by (simp add: set_sigs_def proposal_json_def jget_def jlist_def zip_map1 case_prod_beta set_sig_json)

lemma sign_text_proposal:
  assumes "printable P as" "signMultisigProposal C P privk pubk = Inr P'"
  shows "\<exists>as'. printable P' as' \<and>
    sign_text C privk pubk (JSON_stringify (proposal_json P as)) = Inr (JSON_stringify (proposal_json P' as'))"
proof -
  let ?k = "bytesToHex pubk"
  obtain ms where ms: "P' = P\<lparr>p_signatures := ms\<rparr>" "adds ?k (p_signatures P) ms"
    using assms(2) loop_adds by (auto simp: signMultisigProposal_def bindE_eq_Inr)
  let ?as = "map2 (put_sig ?k) as ms"
  have s: "p_signatures P = map map_of as" using assms(1) by (simp add: printable_def)
  have l: "length ms = length as" using ms(2) s by (auto simp: adds_def dest: list_all2_lengthD)
  have "map map_of ?as = ms"
    using ms(2) l unfolding s adds_def by (intro nth_equalityI) (auto simp: list_all2_conv_all_nth intro!: put_sig_map)
  moreover have "list_all (\<lambda>kvs. distinct (map fst kvs)) ?as"
    using assms(1) l by (auto simp: printable_def list_all_length put_sig_def put_distinct split: option.split)
  ultimately have "printable P' ?as" using assms(1) by (simp add: printable_def ms(1))
  moreover have "sign_text C privk pubk (JSON_stringify (proposal_json P as)) = Inr (JSON_stringify (proposal_json P' ?as))"
    unfolding sign_text_def using assms(2) ms(1)
    by (simp add: JSON_parse_stringify [OF wf_proposal_json [OF assms(1)]] read_proposal_json [OF s] set_sigs_json)
  ultimately show ?thesis by blast
qed

definition sign_text_in_turn :: "crypto \<Rightarrow> (bytes \<times> bytes) list \<Rightarrow> string \<Rightarrow> string res" where
  "sign_text_in_turn C kps text = foldl (\<lambda>r kp. bindE r (sign_text C (fst kp) (snd kp))) (Inr text) kps"

lemma foldl_bindE_Inl: "foldl (\<lambda>r kp. bindE r (f kp)) (Inl e) kps = Inl e"
  by (induction kps) simp_all

lemma text_in_turn:
  assumes "printable P as" "sign_in_turn C kps P = Inr Q"
  shows "\<exists>as'. printable Q as' \<and>
    sign_text_in_turn C kps (JSON_stringify (proposal_json P as)) = Inr (JSON_stringify (proposal_json Q as'))"
  using assms
proof (induction kps arbitrary: P as)
  case Nil
  then show ?case by (auto simp: sign_in_turn_def sign_text_in_turn_def)
next
  case (Cons kp kps)
  obtain P' where P': "signMultisigProposal C P (fst kp) (snd kp) = Inr P'" "sign_in_turn C kps P' = Inr Q"
    using Cons.prems(2) foldl_bindE_Inl [of "\<lambda>kp Q. signMultisigProposal C Q (fst kp) (snd kp)"]
    by (cases "signMultisigProposal C P (fst kp) (snd kp)") (auto simp: sign_in_turn_def)
  obtain as' where "printable P' as'"
    "sign_text C (fst kp) (snd kp) (JSON_stringify (proposal_json P as)) = Inr (JSON_stringify (proposal_json P' as'))"
    using sign_text_proposal [OF Cons.prems(1) P'(1)] by blast
  then show ?case using Cons.IH [OF _ P'(2)] by (simp add: sign_text_in_turn_def)
qed

section \<open>Properties\<close>

text \<open>
  C17: Passing a proposal along as text is signing it in turn: each cosigner pastes the JSON, signs,
  and hands on the new text, and the last text is read as the proposal signed by all of them in
  their order, for any number of cosigners.
\<close>

theorem multisig_text_signing:
  assumes "printable P as" and "sign_in_turn C kps P = Inr Q"
  shows "bindE (sign_text_in_turn C kps (JSON_stringify (proposal_json P as))) (\<lambda>t. bindE (JSON_parse t) read_proposal) = Inr Q"
proof -
  obtain as' where as': "printable Q as'"
    "sign_text_in_turn C kps (JSON_stringify (proposal_json P as)) = Inr (JSON_stringify (proposal_json Q as'))"
    using text_in_turn [OF assms] by blast
  then have "p_signatures Q = map map_of as'" by (simp add: printable_def)
  then show ?thesis
    by (simp add: as'(2) JSON_parse_stringify [OF wf_proposal_json [OF as'(1)]] read_proposal_json)
qed

theorem multisig_text_signing_witness:
  "\<exists>Q. length (p_signatures Q) = 1 \<and>
     bindE (sign_text_in_turn demo_crypto [([1], replicate 33 2), ([2], replicate 33 4)]
         (JSON_stringify (proposal_json (createMultisigProposal [demo_multisig_input] [] 0) [[]])))
       (\<lambda>t. bindE (JSON_parse t) read_proposal) = Inr Q"
proof -
  let ?P = "createMultisigProposal [demo_multisig_input] [] 0" and ?kps = "[([1], replicate 33 2), ([2], replicate 33 4)]"
  have p: "printable ?P [[]]"
    by (simp add: printable_def createMultisigProposal_def demo_multisig_input_def small_def)
  have w: "wf_proposal ?P" by (simp add: wf_proposal_def createMultisigProposal_def)
  have "list_all (can_sign demo_crypto) ?kps" by (simp add: demo_can_sign)
  note q = sign_in_turn_eq [OF this w]
  show ?thesis
    by (rule exI, rule conjI [OF _ multisig_text_signing [OF p q]]) (simp add: add_sigs_def createMultisigProposal_def)
qed

end
