(* ===== verification/Onboarding.thy ===== *)
theory Onboarding
  imports MultisigScreen
begin

text \<open>
  Entering and leaving the wallet in web-wallet/app.js: switching screens, creating a wallet with
  the quiz about its phrase, restoring, starting the page, unlocking, switching networks and
  wiping. The phrase \<open>bip39.generateMnemonic\<close> returns and the draws of \<open>Math.random\<close> are arguments.
  The loop of the quiz that looks for three different positions need not end, so it is a partial
  function; its property says when it ends.

  The page calls \<open>boot\<close> in the middle of its script. What \<open>boot\<close> does before its first \<open>await\<close>
  touches nothing that the rest of the script reads, and what follows the \<open>await\<close> runs after the
  script; so \<open>load_page\<close> runs \<open>boot\<close> last.
\<close>

section \<open>Definitions\<close>

subsection \<open>Screens\<close>

definition tabs :: "string list" where
  "tabs = [''home'', ''send'', ''receive'', ''history'', ''staking'', ''multisig'', ''watch'', ''settings'']"

definition showScreen :: "env \<Rightarrow> string \<Rightarrow> unit act" where
  "showScreen E name = seqs
     [modify_page (\<lambda>p. p\<lparr>ui_screen := Some name, ui_tab := (if name \<in> set tabs then Some name else None)\<rparr>),
      if name = ''home'' then detach (loadHome E) else ret (),
      if name = ''send'' then seqs [renderAddressBook, detach (loadSendAmountFiat E), detach (loadSendFeeRate E)] else ret (),
      if name = ''receive'' then detach (loadReceive E) else ret (),
      if name = ''history'' then detach (loadHistory E) else ret (),
      if name = ''staking'' then detach (loadStaking E) else ret (),
      if name = ''multisig'' then detach (loadMultisig E) else ret (),
      if name = ''watch'' then detach (loadWatch E) else ret (),
      if name = ''settings'' then loadSettings else ret (),
      if name = ''home'' \<or> name = ''history'' then startTxPolling else stopTxPolling]"

definition newTxOpen :: "env \<Rightarrow> unit act" where
  "newTxOpen E = seqs [setDisplay ''new-tx-banner'' ''none'', showScreen E ''history'']"

definition leave_onboarding :: "page \<Rightarrow> page" where
  "leave_onboarding p = (if ui_screen p = Some ''onboarding'' then p\<lparr>ui_screen := None\<rparr> else p)"

definition enterWallet :: "env \<Rightarrow> unit act" where
  "enterWallet E = seqs
     [deriveAllKnownAddresses E,
      modify_page leave_onboarding,
      setDisplay ''lock-overlay'' ''none'',
      setDisplay ''tabbar'' ''flex'',
      showScreen E ''home'']"

subsection \<open>A new wallet\<close>

definition createWallet :: "string \<Rightarrow> unit act" where
  "createWallet mnemonic = seqs
     [setText ''new-mnemonic'' mnemonic,
      setDisplay ''new-mnemonic-card'' ''block'',
      setDisplay ''btn-create-wallet'' ''none'',
      setDisplay ''btn-show-restore'' ''none'',
      modify (\<lambda>s. s\<lparr>st_pendingMnemonic := Some mnemonic\<rparr>)]"

definition confirmWritten :: "bool \<Rightarrow> unit act" where
  "confirmWritten checked = setDisabled ''btn-mnemonic-continue'' (\<not> checked)"

text \<open>\<open>Math.floor(Math.random() * words.length)\<close> of draw \<open>k\<close>, and the loop that collects positions.\<close>

definition draw :: "(nat \<Rightarrow> rat) \<Rightarrow> nat \<Rightarrow> nat \<Rightarrow> nat" where
  "draw rand n k = nat \<lfloor>fl (rand k * of_nat n)\<rfloor>"

partial_function (option) quiz_loop :: "(nat \<Rightarrow> rat) \<Rightarrow> nat \<Rightarrow> nat \<Rightarrow> nat list \<Rightarrow> nat list option" where
  "quiz_loop rand n k indices =
     (if 3 \<le> length indices then Some indices
      else let i = draw rand n k
           in quiz_loop rand n (Suc k) (if i \<in> set indices then indices else indices @ [i]))"

definition quiz_positions :: "(nat \<Rightarrow> rat) \<Rightarrow> nat \<Rightarrow> nat list option" where
  "quiz_positions rand n = map_option sort (quiz_loop rand n 0 [])"

text \<open>\<open>showMnemonicQuiz\<close>; \<open>None\<close> when the loop does not end. The input fields start empty.\<close>

definition showMnemonicQuiz :: "(nat \<Rightarrow> rat) \<Rightarrow> string \<Rightarrow> unit act option" where
  "showMnemonicQuiz rand mnemonic =
     map_option (\<lambda>indices. seqs
       [modify_page (\<lambda>p. p\<lparr>ui_quiz := map (\<lambda>i. (i, [])) indices\<rparr>),
        setText ''mnemonic-quiz-error'' [],
        setDisplay ''new-mnemonic-card'' ''none'',
        setDisplay ''mnemonic-quiz-card'' ''block''])
       (quiz_positions rand (length (js_split (CHR '' '') mnemonic)))"

definition quizBack :: "unit act" where
  "quizBack = seqs [setDisplay ''mnemonic-quiz-card'' ''none'', setDisplay ''new-mnemonic-card'' ''block'']"

definition quiz_correct :: "string list \<Rightarrow> nat \<times> string \<Rightarrow> bool" where
  "quiz_correct words q = (case q of (idx, v) \<Rightarrow> js_get words idx = Some (toLowerCase (trim v)))"

text \<open>What both ways of starting a wallet do with the phrase.\<close>

definition adopt_phrase :: "string \<Rightarrow> unit act" where
  "adopt_phrase m = seqs
     [modify (\<lambda>s. s\<lparr>st_mnemonic := Some m, ls := (ls s)\<lparr>ls_mnemonic := Some m\<rparr>, st_addressIndices := [0]\<rparr>),
      saveAddressIndices]"

definition quizVerify :: "env \<Rightarrow> unit act" where
  "quizVerify E =
     bind (gets st_pendingMnemonic) (\<lambda>pending.
       case pending of
         None \<Rightarrow> lift (Inl (TypeErr ''Cannot read properties of undefined (reading split)''))
       | Some m \<Rightarrow>
           bind (gets (\<lambda>s. ui_quiz (page s))) (\<lambda>inputs.
             if \<not> list_all (quiz_correct (js_split (CHR '' '') m)) inputs
             then setText ''mnemonic-quiz-error''
                    ''One or more words don't match. Check your written-down phrase and try again.''
             else seqs
               [setText ''mnemonic-quiz-error'' [],
                adopt_phrase m,
                setDisplay ''mnemonic-quiz-card'' ''none'',
                enterWallet E]))"

definition showRestore :: "unit act" where
  "showRestore = setDisplay ''restore-card'' ''block''"

definition restoreConfirm :: "env \<Rightarrow> unit act" where
  "restoreConfirm E =
     bind (trimmed_field ''restore-mnemonic'') (\<lambda>mnemonic.
       if \<not> validateMnemonic (e_crypto E) mnemonic then setText ''restore-error'' ''Invalid recovery phrase.''
       else seqs [setText ''restore-error'' [], adopt_phrase mnemonic, enterWallet E])"

subsection \<open>Starting and unlocking\<close>

definition boot :: "env \<Rightarrow> unit act" where
  "boot E =
     bind (gets (\<lambda>s. isPinSet (ls s))) (\<lambda>pinSet.
       if pinSet then setDisplay ''lock-overlay'' ''flex''
       else bind (gets (\<lambda>s. ls_mnemonic (ls s))) (\<lambda>stored.
            let m = (case stored of None \<Rightarrow> None | Some t \<Rightarrow> if t = [] then None else Some t)
            in bind (modify (\<lambda>s. s\<lparr>st_mnemonic := m\<rparr>)) (\<lambda>_.
               if m \<noteq> None then enterWallet E else ret ())))"

definition load_page :: "env \<Rightarrow> unit act" where
  "load_page E = seqs
     [bind (gets (\<lambda>s. ls_theme (ls s))) (\<lambda>saved.
        if saved = Some ''dark'' \<or> saved = Some ''light'' then modify_page (\<lambda>p. p\<lparr>ui_theme := saved\<rparr>) else ret ()),
      refreshGateway,
      addRecipientRow,
      detach (boot E)]"

text \<open>Loading the page again: everything but the storage, and what was sent, starts anew.\<close>

definition reload :: "env \<Rightarrow> unit act" where
  "reload E = seqs [modify (\<lambda>s. initial_state (ls s) (requests s) (effects s)), load_page E]"

definition unlock :: "env \<Rightarrow> unit act" where
  "unlock E =
     bind (field ''lock-pin'') (\<lambda>pin.
     bind (setText ''lock-error'' []) (\<lambda>_.
       try_catch
         (bind (gets (\<lambda>s. loadEncryptedBlob (ls s))) (\<lambda>blob.
            case blob of
              None \<Rightarrow> lift (Inl (TypeErr ''Cannot read properties of null (reading salt)''))
            | Some b \<Rightarrow>
                bind (lift (decryptMnemonic (e_webcrypto E) b pin)) (\<lambda>m. seqs
                  [modify (\<lambda>s. s\<lparr>st_mnemonic := Some m\<rparr>),
                   setField ''lock-pin'' [],
                   enterWallet E])))
         (\<lambda>e. setText ''lock-error'' ''Incorrect PIN.'')))"

subsection \<open>Network and wiping\<close>

definition switchNetwork :: "env \<Rightarrow> string \<Rightarrow> unit act" where
  "switchNetwork E net = seqs
     [modify (\<lambda>s. s\<lparr>st_network := net, ls := (ls s)\<lparr>ls_network := Some net\<rparr>\<rparr>),
      refreshGateway,
      modify (\<lambda>s. s\<lparr>st_keys := Map.empty, st_addresses := Map.empty\<rparr>),
      deriveAllKnownAddresses E,
      showScreen E ''home'']"

text \<open>\<open>confirmed\<close> is the answer to the confirmation dialog.\<close>

definition wiped :: "store \<Rightarrow> store" where
  "wiped l = l\<lparr>ls_mnemonic := None, ls_encrypted := None,
     ls_indices := (ls_indices l)(''mainnet'' := None, ''testnet'' := None), ls_book := None, ss_stakeToken := None\<rparr>"

definition wipe :: "env \<Rightarrow> bool \<Rightarrow> unit act" where
  "wipe E confirmed =
     (if \<not> confirmed then ret () else seqs [modify_ls wiped, emit Reloaded, reload E])"

section \<open>The quiz\<close>

text \<open>
  What is used of \<open>Math.random\<close>: the draws are Numbers from 0 to the greatest one below 1, and not
  closer to 0 than \<open>2^-53\<close> unless 0.
\<close>

definition random_draws :: "(nat \<Rightarrow> rat) \<Rightarrow> bool" where
  "random_draws rand \<longleftrightarrow> (\<forall>k. rand k = 0 \<or> 1 / 2 ^ 53 \<le> rand k \<and> rand k \<le> 1 - 1 / 2 ^ 53)"

lemma draw_less:
  assumes "random_draws rand" "0 < n"
  shows "draw rand n k < n"
proof (cases "rand k = 0")
  case True
  then show ?thesis using assms(2) by (simp add: draw_def fl_0)
next
  case False
  define x where "x = rand k * of_nat n"
  have r: "1 / 2 ^ 53 \<le> rand k" "rand k \<le> 1 - 1 / 2 ^ 53" using assms(1) False by (auto simp: random_draws_def)
  have n: "(1 :: rat) \<le> of_nat n" using assms(2) by simp
  have p: "(2 :: rat) powi (- 1022) \<le> 1 / 2 ^ 53"
  proof -
    have "(2 :: rat) powi (- 1022) \<le> 2 powi (- 53)" by (rule power_int_increasing) simp_all
    then show ?thesis by (simp add: power_int_minus divide_simps)
  qed
  have "1 / 2 ^ 53 \<le> x" unfolding x_def using mult_mono [OF r(1) n] r(1) by simp
  then have "\<bar>fl x - x\<bar> \<le> x / 2 ^ 53" using p by (intro fl_error_pos) linarith
  then have "fl x \<le> x + x / 2 ^ 53" by linarith
  then have "fl x \<le> x * (1 + 1 / 2 ^ 53)" by (simp add: distrib_left)
  also have "\<dots> \<le> (1 - 1 / 2 ^ 53) * of_nat n * (1 + 1 / 2 ^ 53)"
    unfolding x_def using r(2) by (intro mult_right_mono) simp_all
  also have "\<dots> < of_nat n" using n by (simp add: field_simps)
  finally have "\<lfloor>fl x\<rfloor> < int n" by (simp add: floor_less_iff)
  then show ?thesis using assms(2) by (simp add: draw_def x_def)
qed

lemma quiz_loop_result:
  assumes "quiz_loop rand n k indices = Some is" "distinct indices" "length indices \<le> 3" "set indices \<subseteq> range (draw rand n)"
  shows "distinct is \<and> length is = 3 \<and> set is \<subseteq> range (draw rand n)"
proof -
  have "distinct indices \<longrightarrow> length indices \<le> 3 \<longrightarrow> set indices \<subseteq> range (draw rand n)
      \<longrightarrow> distinct is \<and> length is = 3 \<and> set is \<subseteq> range (draw rand n)"
    using assms(1)
    by (rule quiz_loop.raw_induct [rotated]) (fastforce simp: Let_def split: if_splits)
  then show ?thesis using assms(2-4) by blast
qed

lemma quiz_loop_ends:
  assumes "3 \<le> card (set indices \<union> draw rand n ` {k..<k + d})" "distinct indices"
  shows "\<exists>is. quiz_loop rand n k indices = Some is"
  using assms
proof (induction d arbitrary: k indices)
  case 0
  then have "3 \<le> length indices" by (simp add: distinct_card)
  then show ?case by (subst quiz_loop.simps) simp
next
  case (Suc d)
  let ?i = "draw rand n k"
  let ?next = "if ?i \<in> set indices then indices else indices @ [?i]"
  have "{k..<k + Suc d} = insert k {Suc k..<Suc k + d}" by auto
  then have "set indices \<union> draw rand n ` {k..<k + Suc d} = set ?next \<union> draw rand n ` {Suc k..<Suc k + d}" by auto
  then have "\<exists>is. quiz_loop rand n (Suc k) ?next = Some is"
    using Suc.prems by (intro Suc.IH) auto
  then show ?case by (subst quiz_loop.simps) (simp add: Let_def)
qed

lemma finite_prefix:
  assumes "finite S" "S \<subseteq> range f"
  shows "\<exists>d. S \<subseteq> f ` {0..<d :: nat}"
  using assms
proof (induction S rule: finite_induct)
  case (insert x S)
  then obtain d m where "S \<subseteq> f ` {0..<d}" "x = f m" by auto
  then show ?case by (intro exI [of _ "max d (Suc m)"]) force
qed auto

lemma draws_finite: "random_draws rand \<Longrightarrow> 0 < n \<Longrightarrow> range (draw rand n) \<subseteq> {..<n} \<and> finite (range (draw rand n))"
  using draw_less by (blast intro: finite_subset [of _ "{..<n}"])

lemma quiz_ends_iff:
  assumes "random_draws rand" "0 < n"
  shows "(\<exists>is. quiz_positions rand n = Some is) \<longleftrightarrow> 3 \<le> card (range (draw rand n))" (is "?l = ?r")
proof
  assume ?l
  then obtain "is" where "quiz_loop rand n 0 [] = Some is" by (auto simp: quiz_positions_def)
  then have r: "distinct is \<and> length is = 3 \<and> set is \<subseteq> range (draw rand n)" by (rule quiz_loop_result) simp_all
  then have "card (set is) \<le> card (range (draw rand n))" using draws_finite [OF assms] by (intro card_mono) simp_all
  then show ?r using r by (simp add: distinct_card)
next
  assume c: ?r
  obtain d where "range (draw rand n) \<subseteq> draw rand n ` {0..<d}"
    using finite_prefix [of "range (draw rand n)" "draw rand n"] draws_finite [OF assms] by blast
  then have "card (range (draw rand n)) \<le> card (draw rand n ` {0..<d})" by (intro card_mono) simp_all
  then show ?l using c quiz_loop_ends [of "[]" rand n 0 d] by (auto simp: quiz_positions_def)
qed

lemma quiz_result:
  assumes "random_draws rand" "0 < n" "quiz_positions rand n = Some is"
  shows "sorted is \<and> distinct is \<and> length is = 3 \<and> set is \<subseteq> {..<n}" "3 \<le> n"
proof -
  obtain l where l: "quiz_loop rand n 0 [] = Some l" "is = sort l" using assms(3) by (auto simp: quiz_positions_def)
  then have d: "distinct l \<and> length l = 3 \<and> set l \<subseteq> range (draw rand n)" by (intro quiz_loop_result [OF l(1)]) simp_all
  moreover have "range (draw rand n) \<subseteq> {..<n}" using draw_less [OF assms(1,2)] by auto
  ultimately show r: "sorted is \<and> distinct is \<and> length is = 3 \<and> set is \<subseteq> {..<n}" by (auto simp: l(2))
  then have "card (set is) \<le> card {..<n}" by (intro card_mono) auto
  then show "3 \<le> n" using r by (simp add: distinct_card)
qed

section \<open>Properties\<close>

text \<open>
  C28: The loop that picks the words to ask for ends exactly when the draws hit three different
  positions; it then gives three different positions of the phrase in increasing order. With a
  phrase of fewer than three words it never ends.
\<close>

theorem quiz_positions_terminates:
  assumes "random_draws rand" and "0 < n"
  shows "((\<exists>is. quiz_positions rand n = Some is) \<longleftrightarrow> 3 \<le> card (range (draw rand n)))
    \<and> (\<forall>is. quiz_positions rand n = Some is \<longrightarrow> sorted is \<and> distinct is \<and> length is = 3 \<and> set is \<subseteq> {..<n})
    \<and> (n < 3 \<longrightarrow> quiz_positions rand n = None)"
proof (intro conjI allI impI)
  show "(\<exists>is. quiz_positions rand n = Some is) \<longleftrightarrow> 3 \<le> card (range (draw rand n))" by (rule quiz_ends_iff [OF assms])
  show "quiz_positions rand n = None" if "n < 3"
    using quiz_result(2) [OF assms] that by (cases "quiz_positions rand n") auto
qed (use quiz_result(1) [OF assms] in blast)+

theorem quiz_positions_terminates_witness:
  "\<exists>is. quiz_positions (\<lambda>k. of_nat (k mod 3) / 4) 12 = Some is \<and> length is = 3"
proof -
  let ?r = "\<lambda>k. of_nat (k mod 3) / 4 :: rat"
  have r: "random_draws ?r"
  proof -
    have "of_nat (k mod 3) / 4 = (0 :: rat) \<or> 1 / 2 ^ 53 \<le> of_nat (k mod 3) / (4 :: rat) \<and> of_nat (k mod 3) / (4 :: rat) \<le> 1 - 1 / 2 ^ 53" for k :: nat
    proof -
      have "k mod 3 = 0 \<or> k mod 3 = 1 \<or> k mod 3 = 2" by linarith
      then show ?thesis by (elim disjE) simp_all
    qed
    then show ?thesis by (simp add: random_draws_def)
  qed
  have "draw ?r 12 0 = 0" "draw ?r 12 1 = 3" "draw ?r 12 2 = 6"
    using fl_int_exact [of 3] fl_int_exact [of 6] by (simp_all add: draw_def fl_0)
  then have "{0, 3, 6} \<subseteq> range (draw ?r 12)" by (metis insert_subset empty_subsetI range_eqI)
  then have "card {0, 3, 6 :: nat} \<le> card (range (draw ?r 12))"
    using draws_finite [OF r, of 12] by (intro card_mono) simp_all
  then have "3 \<le> card (range (draw ?r 12))" by simp
  then show ?thesis using quiz_positions_terminates [OF r, of 12] by auto
qed

end
