(* ===== verification/Quiet.thy ===== *)
theory Quiet
  imports Onboarding
begin

text \<open>
  What the handlers of web-wallet/app.js leave alone. The shell of the page is what decides which
  handlers can be reached: the visible screen, the lock overlay, the tab bar, the banner, the card
  with the lock buttons, and whether the wallet polls. The lemmas show, for every handler of a
  screen, that it leaves the shell as it is, and which requests it can send: only \<open>sendConfirm\<close>,
  \<open>bumpFee\<close> and \<open>msBroadcast\<close> can send a broadcast request.
\<close>

section \<open>The shell\<close>

definition shell_ids :: "string set" where
  "shell_ids = {''lock-overlay'', ''tabbar'', ''new-tx-banner'', ''lock-is-set''}"

definition shell :: "app \<Rightarrow> string option \<times> string list \<times> bool" where
  "shell s = (ui_screen (page s),
     map (ui_display (page s)) [''lock-overlay'', ''tabbar'', ''new-tx-banner'', ''lock-is-set''], v_txPolling s)"

text \<open>
  The shell is \<open>c\<close>, and the requests sent since the log was \<open>rs\<close> are no broadcasts, unless \<open>b\<close>
  allows them.
\<close>

definition quiet :: "bool \<Rightarrow> string option \<times> string list \<times> bool \<Rightarrow> request list \<Rightarrow> app \<Rightarrow> bool" where
  "quiet b c rs s \<longleftrightarrow> shell s = c \<and> sent_since rs (\<lambda>q. b \<or> \<not> broadcasts q) s"

named_theorems quiet_rules \<open>basic actions that leave the shell alone, with their conditions\<close>

lemma quiet_modify [quiet_rules]:
  "(\<And>s. shell (f s) = shell s) \<Longrightarrow> (\<And>s. requests (f s) = requests s) \<Longrightarrow> keeps (quiet b c rs) (modify f)"
  by (rule keeps_modify) (simp add: quiet_def sent_since_def)

lemma quiet_modify_ls [keeps_rules]: "keeps (quiet b c rs) (modify_ls f)"
  unfolding modify_ls_def by (rule quiet_modify) (simp_all add: shell_def)

lemma quiet_page [quiet_rules]:
  "(\<And>p. ui_screen (f p) = ui_screen p) \<Longrightarrow> (\<And>p. ui_display (f p) = ui_display p) \<Longrightarrow> keeps (quiet b c rs) (modify_page f)"
  unfolding modify_page_def by (rule quiet_modify) (simp_all add: shell_def)

lemma quiet_ui [keeps_rules]:
  "keeps (quiet b c rs) (setText i t)" "keeps (quiet b c rs) (setField i t)" "keeps (quiet b c rs) (setHtml i t)"
  "keeps (quiet b c rs) (setDisabled i d)" "keeps (quiet b c rs) (setActive i d)"
  unfolding page_defs by (rule quiet_page; simp)+

lemma quiet_display [quiet_rules]: "i \<notin> shell_ids \<Longrightarrow> keeps (quiet b c rs) (setDisplay i t)"
  unfolding setDisplay_def modify_page_def
  by (rule quiet_modify) (auto simp: shell_def shell_ids_def)

lemma quiet_emit [keeps_rules]: "keeps (quiet b c rs) (emit e)"
  unfolding emit_def by (rule quiet_modify) (simp_all add: shell_def)

lemma quiet_renderQr [keeps_rules]: "keeps (quiet b c rs) (renderQr E i t)"
  unfolding renderQr_def by (intro keeps_rules quiet_rules; simp)

lemma quiet_fetch [quiet_rules]: "b \<or> \<not> broadcasts req \<Longrightarrow> keeps (quiet b c rs) (fetch E req)"
  using sent_fetch [of "\<lambda>q. b \<or> \<not> broadcasts q" req rs E]
  by (simp add: keeps_def quiet_def fetch_def shell_def)

lemma quiet_call [quiet_rules]: "(\<And>x. b \<or> \<not> broadcasts (mk x)) \<Longrightarrow> keeps (quiet b c rs) (call E mk)"
  unfolding call_def by (intro keeps_rules quiet_rules)

lemmas quiet_simps = shell_def shell_ids_def

section \<open>The handlers\<close>

subsection \<open>Prices, keys and balances\<close>

lemma quiet_fetch_both [keeps_rules]:
  "\<not> broadcasts r1 \<Longrightarrow> \<not> broadcasts r2 \<Longrightarrow> keeps (quiet b c rs) (fetch_both E r1 r2)"
  unfolding fetch_both_def
  by (auto simp: keeps_def act_simps quiet_def shell_def sent_since_def split: sum.split)

lemma price_requests [simp]: "\<not> broadcasts (fetch_get u)" "\<not> broadcasts reserves_request"
  by (simp_all add: broadcasts_def fetch_get_def reserves_request_def BSC_RPC_URL_def)

lemma quiet_price [keeps_rules]:
  "keeps (quiet b c rs) (fetchPancakeDirectPrice E)" "keeps (quiet b c rs) (fetchBnbPoolPrice E)"
  "keeps (quiet b c rs) (fetchStellarPrice E)" "keeps (quiet b c rs) (fetchCacUsdPrice E)"
  unfolding fetchPancakeDirectPrice_def fetchBnbPoolPrice_def fetchStellarPrice_def fetchCacUsdPrice_def
  by (intro keeps_rules quiet_rules; simp)+

lemma quiet_wallet [keeps_rules]:
  "keeps (quiet b c rs) refreshGateway" "keeps (quiet b c rs) saveAddressIndices" "keeps (quiet b c rs) current_network"
  "keeps (quiet b c rs) (address_of i)" "keeps (quiet b c rs) (loadFiatValue E t)"
  unfolding refreshGateway_def saveAddressIndices_def save_indices_def current_network_def address_of_def loadFiatValue_def
  by (intro keeps_rules quiet_rules; simp add: quiet_simps)+

lemma quiet_ensureKey [keeps_rules]: "keeps (quiet b c rs) (ensureKey E i)" "keeps (quiet b c rs) (gatherAllUtxos E)"
  unfolding ensureKey_def gatherAllUtxos_def Let_def
  by (intro keeps_rules quiet_rules; simp add: quiet_simps)+

lemma quiet_derive [keeps_rules]: "keeps (quiet b c rs) (deriveAllKnownAddresses E)"
  unfolding deriveAllKnownAddresses_def by (intro keeps_rules quiet_rules; simp add: quiet_simps)

lemma quiet_sum_balances [keeps_rules]: "keeps (quiet b c rs) (sum_balances E is t)"
proof (induction "is" arbitrary: t)
  case (Cons i "is")
  then show ?case unfolding sum_balances.simps by (intro keeps_rules quiet_rules; simp)
qed (simp add: keeps_ret)

lemma quiet_loadHome [keeps_rules]: "keeps (quiet b c rs) (loadHome E)"
  unfolding loadHome_def by (intro keeps_rules quiet_rules; simp add: quiet_simps)

subsection \<open>Send\<close>

lemma quiet_fee [keeps_rules]:
  "keeps (quiet b c rs) updateSendFeeEstimate" "keeps (quiet b c rs) (fetch_fee_rate E)" "keeps (quiet b c rs) (loadSendFeeRate E)"
  "keeps (quiet b c rs) (setSendFeeRate r)" "keeps (quiet b c rs) feeDecrease" "keeps (quiet b c rs) feeIncrease"
  "keeps (quiet b c rs) feeReset" "keeps (quiet b c rs) feeRateChange" "keeps (quiet b c rs) updateSendAmountFiat"
  "keeps (quiet b c rs) (loadSendAmountFiat E)"
  unfolding fee_defs by (intro keeps_rules quiet_rules; simp add: quiet_simps)+

lemma quiet_rows [keeps_rules]:
  "keeps (quiet b c rs) addRecipientRow" "keeps (quiet b c rs) resetSendRecipients" "keeps (quiet b c rs) (rowFocus i)"
  "keeps (quiet b c rs) (rowAddressChange i v)" "keeps (quiet b c rs) (rowAmountInput i v)" "keeps (quiet b c rs) (rowRemove i)"
  "keeps (quiet b c rs) (rowScanned i v)" "keeps (quiet b c rs) (update_row i f)"
  unfolding row_defs by (intro keeps_rules quiet_rules; simp add: quiet_simps)+

lemma quiet_log [keeps_rules]: "keeps (quiet b c rs) (recordSentTx t r)"
  unfolding recordSentTx_def saveSentTxLog_def by (intro keeps_rules)

lemma quiet_send [keeps_rules]:
  "keeps (quiet True c rs) (send_chosen E os f ch us)" "keeps (quiet True c rs) (bumpFee E t)"
  unfolding send_chosen_def bumpFee_def Let_def saveSentTxLog_def
  by (intro keeps_rules quiet_rules; simp add: quiet_simps)+

lemma quiet_sendConfirm [keeps_rules]: "keeps (quiet True c rs) (sendConfirm E)"
  unfolding sendConfirm_def send_transaction_def Let_def
  by (intro keeps_rules quiet_rules; simp add: quiet_simps)

subsection \<open>History\<close>

lemma quiet_gather_history [keeps_rules]: "keeps (quiet b c rs) (gather_history E is acc)"
proof (induction "is" arbitrary: acc)
  case (Cons i "is")
  then show ?case unfolding gather_history.simps by (intro keeps_rules quiet_rules; simp)
qed (simp add: keeps_ret)

lemma quiet_history [keeps_rules]:
  "keeps (quiet b c rs) (fetchCombinedHistory E)" "keeps (quiet b c rs) (seenTxids ts)" "keeps (quiet b c rs) (loadHistory E)"
  "keeps (quiet b c rs) exportCsv" "keeps (quiet b c rs) (openTxDetail E t)" "keeps (quiet b c rs) txDetailClose"
  unfolding fetchCombinedHistory_def seenTxids_def loadHistory_def exportCsv_def openTxDetail_def txDetailClose_def
  by (intro keeps_rules quiet_rules; simp add: quiet_simps)+

lemma quiet_bumpClick [keeps_rules]: "keeps (quiet True c rs) (bumpClick E t)"
  unfolding bumpClick_def by (intro keeps_rules quiet_rules; simp add: quiet_simps)

subsection \<open>The smaller screens\<close>

lemma quiet_scan [keeps_rules]:
  "keeps (quiet b c rs) (openQrScanner t)" "keeps (quiet b c rs) closeQrScan" "keeps (quiet b c rs) (scanResult x)"
  "keeps (quiet b c rs) scanError"
  unfolding scan_defs by (intro keeps_rules quiet_rules keeps_target; simp add: quiet_simps)+

lemma quiet_book [keeps_rules]:
  "keeps (quiet b c rs) renderAddressBook" "keeps (quiet b c rs) (bookUse i)" "keeps (quiet b c rs) (bookRemove i)"
  "keeps (quiet b c rs) bookAdd"
  unfolding book_defs by (intro keeps_rules quiet_rules; simp add: quiet_simps)+

lemma quiet_receive [keeps_rules]:
  "keeps (quiet b c rs) (refreshReceiveQr E)" "keeps (quiet b c rs) (loadReceive E)" "keeps (quiet b c rs) copyAddress"
  "keeps (quiet b c rs) viewOnExplorer"
  unfolding receive_defs by (intro keeps_rules quiet_rules; simp add: quiet_simps)+

lemma quiet_address [keeps_rules]: "keeps (quiet b c rs) (selectAddress E i)" "keeps (quiet b c rs) (newAddress E)"
  unfolding selectAddress_def newAddress_def Let_def save_indices_def
  by (intro keeps_rules quiet_rules; simp add: quiet_simps)+

lemma quiet_watch [keeps_rules]:
  "keeps (quiet b c rs) (loadWatch E)" "keeps (quiet b c rs) (watchRemove E i)" "keeps (quiet b c rs) (watchExplorer i)"
  "keeps (quiet b c rs) (showXpub E)" "keeps (quiet b c rs) (watchXpubAdd E)" "keeps (quiet b c rs) (watchAdd E)"
  unfolding watch_defs by (intro keeps_rules quiet_rules; simp add: quiet_simps)+

lemma quiet_settings [keeps_rules]:
  "keeps (quiet b c rs) refreshMsgSignAddressList" "keeps (quiet b c rs) (msgVerify E)" "keeps (quiet b c rs) (msgSign E)"
  "keeps (quiet b c rs) refreshThemeButtons"
  unfolding refreshMsgSignAddressList_def msgVerify_def msgSign_def refreshThemeButtons_def
  by (intro keeps_rules quiet_rules; simp add: quiet_simps)+

lemma quiet_theme [keeps_rules]: "keeps (quiet b c rs) (applyTheme t)"
  unfolding applyTheme_def by (intro keeps_rules quiet_rules; simp add: quiet_simps)

subsection \<open>Staking and multisig\<close>

lemma quiet_staking_cards [keeps_rules]:
  "keeps (quiet b c rs) (staking_cards E)" "keeps (quiet b c rs) (show_status E)" "keeps (quiet b c rs) (show_referral E)"
  "keeps (quiet b c rs) (show_referral_history E)"
  unfolding staking_defs by (intro keeps_rules quiet_rules; simp add: quiet_simps)+

lemma quiet_staking_round: "keeps (quiet b c rs) again \<Longrightarrow> keeps (quiet b c rs) (staking_round E again)"
  unfolding staking_round_def by (intro keeps_rules quiet_rules; simp add: quiet_simps)

lemma quiet_staking [keeps_rules]:
  "keeps (quiet b c rs) (loadStaking E)" "keeps (quiet b c rs) (trimmed_field i)" "keeps (quiet b c rs) (auth_request E a em pw)"
  unfolding loadStaking_def trimmed_field_def auth_request_def
  by (intro keeps_rules quiet_rules quiet_staking_round; simp)+

lemma quiet_staking_actions [keeps_rules]:
  "keeps (quiet b c rs) (referralCopy ok)" "keeps (quiet b c rs) copyTimer" "keeps (quiet b c rs) (stakeAuth E a)"
  "keeps (quiet b c rs) (stakeDeposit E)" "keeps (quiet b c rs) (stakeWithdraw E)" "keeps (quiet b c rs) (referralWithdraw E)"
  "keeps (quiet b c rs) (enablePush E P)"
  unfolding referralCopy_def copyTimer_def stakeAuth_def stakeDeposit_def stakeWithdraw_def referralWithdraw_def
    enablePush_def withdrawal_done_def
  by (intro keeps_rules quiet_rules; simp add: quiet_simps)+

lemma quiet_multisig [keeps_rules]:
  "keeps (quiet b c rs) (loadMultisig E)" "keeps (quiet b c rs) (msCreate E)" "keeps (quiet b c rs) (msPropose E)"
  "keeps (quiet b c rs) (msSign E)" "keeps (quiet b c rs) (msShowQr E)" "keeps (quiet b c rs) msQrClose"
  "keeps (quiet b c rs) msScanQr"
  unfolding loadMultisig_def msCreate_def msPropose_def msSign_def msShowQr_def msQrClose_def msScanQr_def
  by (intro keeps_rules quiet_rules; simp add: quiet_simps)+

lemma quiet_msBroadcast [keeps_rules]: "keeps (quiet True c rs) (msBroadcast E)"
  unfolding msBroadcast_def by (intro keeps_rules quiet_rules; simp)

end
