(* ===== verification/App.thy ===== *)
theory App
  imports Quiet
begin

text \<open>
  The wallet page as a whole (web-wallet/app.js): its events, the handler of each, when the page
  offers an event to the user, and the states that can be reached from loading the page. An
  element can be used when the screen or card it stands on is shown and the lock overlay, which
  fills the window, is not. The properties of the reachable states rest on one invariant: every
  key is derived from the phrase in memory, the phrase in memory can always be recovered from the
  storage, a locked page has neither the phrase in \<open>state.mnemonic\<close> nor any key and can be unlocked,
  and the wallet polls on two screens only. Locking does not clear the phrase that creating a
  wallet left in \<open>state._pendingMnemonic\<close>.
\<close>

section \<open>Definitions\<close>

subsection \<open>Events\<close>

datatype onboarding_event =
  CreateWallet string | ConfirmWritten bool | QuizBack | QuizType nat string | QuizVerify | ShowRestore | RestoreConfirm

datatype send_event =
  AddRow | RowFocus nat | RowAddress nat string | RowAmount nat string | RowScan nat | RowRemove nat | SendConfirm
  | FeeDecrease | FeeIncrease | FeeReset | FeeRateChange | BookUse nat | BookRemove nat | BookAdd

datatype receive_event = RequestAmount | SelectAddress nat | NewAddress | CopyAddress | ViewOnExplorer

datatype history_event = ExportCsv | OpenTx string

datatype staking_event =
  Login | Signup | Deposit | Withdraw | ReferralWithdraw | ReferralCopy bool | EnablePush push_api

datatype multisig_event = MsCreate | MsPropose | MsSign | MsBroadcast | MsShowQr | MsScanQr

datatype watch_event = WatchAdd | WatchXpubAdd | ShowXpub | WatchRemove nat | WatchExplorer nat

datatype settings_event =
  MsgSign | MsgVerify | Theme string | SetPin bytes bytes | LockNow | RemovePin | SwitchNetwork string | Wipe bool

datatype overlay_event = ScanCancel | ScanResult string | ScanError | TxClose | Bump | MsQrClose

datatype event =
    Typed string string
  | Unlock
  | Tab string
  | BannerOpen
  | BannerDismiss
  | Tick
  | CopyTimer
  | Reload
  | OnOnboarding onboarding_event
  | OnSend send_event
  | OnReceive receive_event
  | OnHistory history_event
  | OnStaking staking_event
  | OnMultisig multisig_event
  | OnWatch watch_event
  | OnSettings settings_event
  | OnOverlay overlay_event

subsection \<open>Handlers\<close>

fun on_onboarding :: "env \<Rightarrow> onboarding_event \<Rightarrow> unit act" where
  "on_onboarding E (CreateWallet m) = createWallet m"
| "on_onboarding E (ConfirmWritten b) = confirmWritten b"
| "on_onboarding E QuizBack = quizBack"
| "on_onboarding E (QuizType i v) = modify_page (\<lambda>p. p\<lparr>ui_quiz := map (\<lambda>(j, w). (j, if j = i then v else w)) (ui_quiz p)\<rparr>)"
| "on_onboarding E QuizVerify = quizVerify E"
| "on_onboarding E ShowRestore = showRestore"
| "on_onboarding E RestoreConfirm = restoreConfirm E"

fun on_send :: "env \<Rightarrow> send_event \<Rightarrow> unit act" where
  "on_send E AddRow = addRecipientRow"
| "on_send E (RowFocus i) = rowFocus i"
| "on_send E (RowAddress i v) = rowAddressChange i v"
| "on_send E (RowAmount i v) = rowAmountInput i v"
| "on_send E (RowScan i) = openQrScanner (ScanRow i)"
| "on_send E (RowRemove i) = rowRemove i"
| "on_send E SendConfirm = sendConfirm E"
| "on_send E FeeDecrease = feeDecrease"
| "on_send E FeeIncrease = feeIncrease"
| "on_send E FeeReset = feeReset"
| "on_send E FeeRateChange = feeRateChange"
| "on_send E (BookUse i) = bookUse i"
| "on_send E (BookRemove i) = bookRemove i"
| "on_send E BookAdd = bookAdd"

fun on_receive :: "env \<Rightarrow> receive_event \<Rightarrow> unit act" where
  "on_receive E RequestAmount = refreshReceiveQr E"
| "on_receive E (SelectAddress i) = selectAddress E i"
| "on_receive E NewAddress = newAddress E"
| "on_receive E CopyAddress = copyAddress"
| "on_receive E ViewOnExplorer = viewOnExplorer"

fun on_history :: "env \<Rightarrow> history_event \<Rightarrow> unit act" where
  "on_history E ExportCsv = exportCsv"
| "on_history E (OpenTx t) = openTxDetail E t"

fun on_staking :: "env \<Rightarrow> staking_event \<Rightarrow> unit act" where
  "on_staking E Login = stakeAuth E ''login''"
| "on_staking E Signup = stakeAuth E ''signup''"
| "on_staking E Deposit = stakeDeposit E"
| "on_staking E Withdraw = stakeWithdraw E"
| "on_staking E ReferralWithdraw = referralWithdraw E"
| "on_staking E (ReferralCopy ok) = referralCopy ok"
| "on_staking E (EnablePush P) = enablePush E P"

fun on_multisig :: "env \<Rightarrow> multisig_event \<Rightarrow> unit act" where
  "on_multisig E MsCreate = msCreate E"
| "on_multisig E MsPropose = msPropose E"
| "on_multisig E MsSign = msSign E"
| "on_multisig E MsBroadcast = msBroadcast E"
| "on_multisig E MsShowQr = msShowQr E"
| "on_multisig E MsScanQr = msScanQr"

fun on_watch :: "env \<Rightarrow> watch_event \<Rightarrow> unit act" where
  "on_watch E WatchAdd = watchAdd E"
| "on_watch E WatchXpubAdd = watchXpubAdd E"
| "on_watch E ShowXpub = showXpub E"
| "on_watch E (WatchRemove i) = watchRemove E i"
| "on_watch E (WatchExplorer i) = watchExplorer i"

fun on_settings :: "env \<Rightarrow> settings_event \<Rightarrow> unit act" where
  "on_settings E MsgSign = msgSign E"
| "on_settings E MsgVerify = msgVerify E"
| "on_settings E (Theme t) = applyTheme t"
| "on_settings E (SetPin salt iv) = btnSetPin E salt iv"
| "on_settings E LockNow = lockNow"
| "on_settings E RemovePin = btnRemovePin"
| "on_settings E (SwitchNetwork net) = switchNetwork E net"
| "on_settings E (Wipe confirmed) = wipe E confirmed"

fun on_overlay :: "env \<Rightarrow> overlay_event \<Rightarrow> unit act" where
  "on_overlay E ScanCancel = closeQrScan"
| "on_overlay E (ScanResult t) = scanResult t"
| "on_overlay E ScanError = scanError"
| "on_overlay E TxClose = txDetailClose"
| "on_overlay E Bump = bind (gets (\<lambda>s. ui_bump (page s))) (\<lambda>t. case t of None \<Rightarrow> ret () | Some txid \<Rightarrow> bumpClick E txid)"
| "on_overlay E MsQrClose = msQrClose"

fun handler :: "env \<Rightarrow> event \<Rightarrow> unit act" where
  "handler E (Typed i v) = setField i v"
| "handler E Unlock = unlock E"
| "handler E (Tab name) = showScreen E name"
| "handler E BannerOpen = newTxOpen E"
| "handler E BannerDismiss = newTxDismiss"
| "handler E Tick = checkForNewTx E"
| "handler E CopyTimer = copyTimer"
| "handler E Reload = reload E"
| "handler E (OnOnboarding e) = on_onboarding E e"
| "handler E (OnSend e) = on_send E e"
| "handler E (OnReceive e) = on_receive E e"
| "handler E (OnHistory e) = on_history E e"
| "handler E (OnStaking e) = on_staking E e"
| "handler E (OnMultisig e) = on_multisig E e"
| "handler E (OnWatch e) = on_watch E e"
| "handler E (OnSettings e) = on_settings E e"
| "handler E (OnOverlay e) = on_overlay E e"

subsection \<open>What the page offers\<close>

definition covered :: "app \<Rightarrow> bool" where
  "covered s \<longleftrightarrow> ui_display (page s) ''lock-overlay'' \<noteq> ''none''"

definition shown :: "app \<Rightarrow> string \<Rightarrow> bool" where
  "shown s i \<longleftrightarrow> ui_display (page s) i \<noteq> ''none''"

definition on :: "app \<Rightarrow> string \<Rightarrow> bool" where
  "on s name \<longleftrightarrow> \<not> covered s \<and> ui_screen (page s) = Some name"

fun onboarding_offered :: "app \<Rightarrow> onboarding_event \<Rightarrow> bool" where
  "onboarding_offered s (CreateWallet m) = shown s ''btn-create-wallet''"
| "onboarding_offered s (ConfirmWritten b) = shown s ''new-mnemonic-card''"
| "onboarding_offered s ShowRestore = shown s ''btn-show-restore''"
| "onboarding_offered s RestoreConfirm = shown s ''restore-card''"
| "onboarding_offered s e = shown s ''mnemonic-quiz-card''"

fun settings_offered :: "app \<Rightarrow> settings_event \<Rightarrow> bool" where
  "settings_offered s (SetPin salt iv) = shown s ''lock-not-set''"
| "settings_offered s LockNow = shown s ''lock-is-set''"
| "settings_offered s RemovePin = shown s ''lock-is-set''"
| "settings_offered s (SwitchNetwork net) = (net = ''mainnet'' \<or> net = ''testnet'')"
| "settings_offered s e = True"

fun overlay_offered :: "app \<Rightarrow> overlay_event \<Rightarrow> bool" where
  "overlay_offered s (ScanResult t) = (st_qrScanHandle s \<noteq> None)"
| "overlay_offered s ScanError = True"
| "overlay_offered s ScanCancel = (\<not> covered s \<and> shown s ''qr-scan-overlay'')"
| "overlay_offered s MsQrClose = (\<not> covered s \<and> shown s ''ms-qr-overlay'')"
| "overlay_offered s e = (\<not> covered s \<and> shown s ''tx-detail-overlay'')"

fun offered :: "app \<Rightarrow> event \<Rightarrow> bool" where
  "offered s (Typed i v) = True"
| "offered s Unlock = covered s"
| "offered s (Tab name) = (\<not> covered s \<and> shown s ''tabbar'' \<and> name \<in> set tabs)"
| "offered s BannerOpen = (\<not> covered s \<and> shown s ''new-tx-banner'')"
| "offered s BannerDismiss = (\<not> covered s \<and> shown s ''new-tx-banner'')"
| "offered s Tick = v_txPolling s"
| "offered s CopyTimer = (v_copyTimers s \<noteq> [])"
| "offered s Reload = True"
| "offered s (OnOnboarding e) = (on s ''onboarding'' \<and> onboarding_offered s e)"
| "offered s (OnSend e) = on s ''send''"
| "offered s (OnReceive e) = on s ''receive''"
| "offered s (OnHistory e) = on s ''history''"
| "offered s (OnStaking e) = on s ''staking''"
| "offered s (OnMultisig e) = on s ''multisig''"
| "offered s (OnWatch e) = on s ''watch''"
| "offered s (OnSettings e) = (on s ''settings'' \<and> settings_offered s e)"
| "offered s (OnOverlay e) = overlay_offered s e"

text \<open>
  A step handles an offered event. The Continue button of the new phrase is a rule of its own: it
  is a step only when the loop that picks the positions ends.
\<close>

inductive step :: "env \<Rightarrow> app \<Rightarrow> app \<Rightarrow> bool" for E where
  event: "offered s e \<Longrightarrow> step E s (snd (handler E e s))"
| quiz: "on s ''onboarding'' \<Longrightarrow> shown s ''new-mnemonic-card'' \<Longrightarrow> \<not> ui_disabled (page s) ''btn-mnemonic-continue'' \<Longrightarrow>
     st_pendingMnemonic s = Some m \<Longrightarrow> showMnemonicQuiz rand m = Some act \<Longrightarrow> step E s (snd (act s))"

inductive_cases stepE: "step E s t"

inductive reachable :: "env \<Rightarrow> store \<Rightarrow> app \<Rightarrow> bool" for E l where
  start: "reachable E l (snd (load_page E (initial_state l [] [])))"
| more: "reachable E l s \<Longrightarrow> step E s t \<Longrightarrow> reachable E l t"

section \<open>Handlers that leave the vault and the shell alone\<close>

text \<open>The network, the phrase and their stored form.\<close>

definition vault :: "app \<Rightarrow> string \<times> string option \<times> string option \<times> string option \<times> enc_blob option" where
  "vault s = (st_network s, st_mnemonic s, ls_network (ls s), ls_mnemonic (ls s), ls_encrypted (ls s))"

abbreviation held where
  "held E c \<equiv> (\<lambda>s. derived E s \<and> vault s = c)"

lemma held_ensureKey: "keeps (held E c) (ensureKey E i)"
proof -
  have "vault (snd (ensureKey E i s)) = vault s" for s
    by (simp add: ensureKey_apply vault_def Let_def split: option.split sum.split)
  then show ?thesis using derived_ensureKey [of E i] unfolding keeps_def by simp
qed

interpretation held: wallet_predicate "held E c" E for E c
  by unfold_locales (simp add: derived_def vault_def core_def, rule held_ensureKey)

lemma held_modify:
  "(\<And>s. st_keys (f s) = st_keys s \<and> st_addresses (f s) = st_addresses s \<and> vault (f s) = vault s) \<Longrightarrow> keeps (held E c) (modify f)"
  by (rule keeps_modify) (simp add: derived_def vault_def)

lemma held_address [keeps_rules]: "keeps (held E c) (selectAddress E i)" "keeps (held E c) (newAddress E)"
  unfolding selectAddress_def newAddress_def save_indices_def Let_def
  by (intro keeps_rules held_modify held_ensureKey; simp add: vault_def)+

lemma held_derive [keeps_rules]: "keeps (held E c) (deriveAllKnownAddresses E)"
  unfolding deriveAllKnownAddresses_def by (intro keeps_rules held_modify held_ensureKey; simp add: vault_def)

lemma held_onboarding [keeps_rules]:
  "keeps (held E c) (createWallet m)" "keeps (held E c) (confirmWritten b)" "keeps (held E c) quizBack" "keeps (held E c) showRestore"
  unfolding createWallet_def confirmWritten_def quizBack_def showRestore_def
  by (intro keeps_rules held_modify; simp add: vault_def)+

lemma quiet_onboarding [keeps_rules]:
  "keeps (quiet b c rs) (createWallet m)" "keeps (quiet b c rs) (confirmWritten d)" "keeps (quiet b c rs) quizBack"
  "keeps (quiet b c rs) showRestore"
  unfolding createWallet_def confirmWritten_def quizBack_def showRestore_def
  by (intro keeps_rules quiet_rules; simp add: quiet_simps)+

fun broadcasting :: "event \<Rightarrow> bool" where
  "broadcasting (OnSend SendConfirm) = True"
| "broadcasting (OnMultisig MsBroadcast) = True"
| "broadcasting (OnOverlay Bump) = True"
| "broadcasting e = False"

fun changes_wallet :: "settings_event \<Rightarrow> bool" where
  "changes_wallet (SetPin salt iv) = True"
| "changes_wallet LockNow = True"
| "changes_wallet RemovePin = True"
| "changes_wallet (SwitchNetwork n) = True"
| "changes_wallet (Wipe b) = True"
| "changes_wallet e = False"

fun ordinary :: "event \<Rightarrow> bool" where
  "ordinary Unlock = False"
| "ordinary (Tab name) = False"
| "ordinary BannerOpen = False"
| "ordinary BannerDismiss = False"
| "ordinary Tick = False"
| "ordinary Reload = False"
| "ordinary (OnOnboarding e) = (e \<noteq> QuizVerify \<and> e \<noteq> RestoreConfirm)"
| "ordinary (OnSettings e) = (\<not> changes_wallet e)"
| "ordinary e = True"

lemma on_screen_frames [keeps_rules]:
  "keeps (quiet b c rs) (on_receive E r)" "keeps (held E d) (on_receive E r)"
  "keeps (quiet b c rs) (on_history E h)" "keeps (held E d) (on_history E h)"
  "keeps (quiet b c rs) (on_staking E t)" "keeps (held E d) (on_staking E t)"
  "keeps (quiet b c rs) (on_watch E w)" "keeps (held E d) (on_watch E w)"
  by ((cases r; simp; intro keeps_rules) | (cases h; simp; intro keeps_rules) | (cases t; simp; intro keeps_rules)
    | (cases w; simp; intro keeps_rules))+

lemma on_broadcast_frames [keeps_rules]:
  "keeps (quiet (broadcasting (OnSend e)) c rs) (on_send E e)" "keeps (held E d) (on_send E e)"
  "keeps (quiet (broadcasting (OnMultisig m)) c rs) (on_multisig E m)" "keeps (held E d) (on_multisig E m)"
  "keeps (quiet (broadcasting (OnOverlay ov)) c rs) (on_overlay E ov)" "keeps (held E d) (on_overlay E ov)"
  by ((cases e; simp; intro keeps_rules) | (cases m; simp; intro keeps_rules) | (cases ov; simp; intro keeps_rules))+

lemma on_onboarding_frames:
  "e \<noteq> QuizVerify \<Longrightarrow> e \<noteq> RestoreConfirm \<Longrightarrow> keeps (quiet b c rs) (on_onboarding E e)"
  "e \<noteq> QuizVerify \<Longrightarrow> e \<noteq> RestoreConfirm \<Longrightarrow> keeps (held E d) (on_onboarding E e)"
  by (cases e; simp; intro keeps_rules quiet_rules; simp)+

lemma on_settings_frames:
  "\<not> changes_wallet e \<Longrightarrow> keeps (quiet b c rs) (on_settings E e)"
  "\<not> changes_wallet e \<Longrightarrow> keeps (held E d) (on_settings E e)"
  by (cases e; simp; intro keeps_rules)+

lemma ordinary_quiet: "ordinary e \<Longrightarrow> keeps (quiet (broadcasting e) c rs) (handler E e)"
  by (cases e) (simp_all add: on_onboarding_frames on_settings_frames on_screen_frames on_broadcast_frames quiet_ui quiet_staking_actions)

lemma ordinary_held: "ordinary e \<Longrightarrow> keeps (held E c) (handler E e)"
  by (cases e) (simp_all add: on_onboarding_frames on_settings_frames on_screen_frames on_broadcast_frames held.page_frames held.staking_frames)

section \<open>Switching screens and entering the wallet\<close>

lemma quiet_after: "(\<And>c rs. keeps (quiet b c rs) m) \<Longrightarrow> shell (snd (m s)) = shell s"
  using keepsD [of "quiet b (shell s) (requests s)" m s] by (simp add: quiet_def sent_since_def)

lemma held_after:
  "(\<And>c. keeps (held E c) m) \<Longrightarrow> derived E s \<Longrightarrow> derived E (snd (m s)) \<and> vault (snd (m s)) = vault s"
  using keepsD [of "held E (vault s)" m s] by simp

text \<open>The shell with another screen and another display of the lock card, polling as the screen says.\<close>

definition lock_card :: "app \<Rightarrow> string \<Rightarrow> string" where
  "lock_card s name = (if name = ''settings'' then if isPinSet (ls s) then ''block'' else ''none''
     else ui_display (page s) ''lock-is-set'')"

definition polls :: "string \<Rightarrow> bool" where
  "polls name \<longleftrightarrow> name = ''home'' \<or> name = ''history''"

lemma polling_run: "shell (snd ((if polls name then startTxPolling else stopTxPolling) s))
    = (ui_screen (page s), map (ui_display (page s)) [''lock-overlay'', ''tabbar'', ''new-tx-banner'', ''lock-is-set''], polls name)"
  "fst ((if polls name then startTxPolling else stopTxPolling) s) = Inr ()"
  by (simp_all add: startTxPolling_def stopTxPolling_def act_simps shell_def)

lemma loadSettings_run:
  "fst (loadSettings s) = Inr ()"
  "shell (snd (loadSettings s)) = (ui_screen (page s),
     [ui_display (page s) ''lock-overlay'', ui_display (page s) ''tabbar'', ui_display (page s) ''new-tx-banner'', lock_card s ''settings''], v_txPolling s)"
  by (simp_all add: loadSettings_def refreshLockCardVisibility_def refreshThemeButtons_def refreshMsgSignAddressList_def
      act_simps Let_def shell_def lock_card_def)

definition load_screen :: "env \<Rightarrow> string \<Rightarrow> unit act" where
  "load_screen E name =
     (if name = ''home'' then detach (loadHome E)
      else if name = ''send'' then seqs [renderAddressBook, detach (loadSendAmountFiat E), detach (loadSendFeeRate E)]
      else if name = ''receive'' then detach (loadReceive E)
      else if name = ''history'' then detach (loadHistory E)
      else if name = ''staking'' then detach (loadStaking E)
      else if name = ''multisig'' then detach (loadMultisig E)
      else if name = ''watch'' then detach (loadWatch E)
      else if name = ''settings'' then loadSettings else ret ())"

lemma bind_unit: "bind (ret x) f = f x" "bind m (\<lambda>_. ret ()) = m"
  by (auto simp: bind_def ret_def fun_eq_iff split: prod.split sum.split)

lemma bind_run: "fst (m s) = Inr x \<Longrightarrow> bind m f s = f x (snd (m s))"
  by (cases "m s") (simp add: bind_apply)

lemma showScreen_eq:
  "showScreen E name = bind (modify_page (\<lambda>p. p\<lparr>ui_screen := Some name, ui_tab := (if name \<in> set tabs then Some name else None)\<rparr>))
     (\<lambda>_. bind (load_screen E name) (\<lambda>_. if polls name then startTxPolling else stopTxPolling))"
  unfolding showScreen_def load_screen_def polls_def by (simp add: seqs_last bind_unit del: seqs.simps(2))

lemma load_screen_run:
  "fst (load_screen E name s) = Inr ()"
  "shell (snd (load_screen E name s)) = (ui_screen (page s),
     [ui_display (page s) ''lock-overlay'', ui_display (page s) ''tabbar'', ui_display (page s) ''new-tx-banner'', lock_card s name], v_txPolling s)"
proof -
  have "fst (renderAddressBook s) = Inr ()" for s
    by (simp add: renderAddressBook_def act_simps)
  then show "fst (load_screen E name s) = Inr ()"
    by (simp add: load_screen_def loadSettings_run act_simps split: prod.split sum.split) (metis fst_conv sum.distinct(1))
  show "shell (snd (load_screen E name s)) = (ui_screen (page s),
     [ui_display (page s) ''lock-overlay'', ui_display (page s) ''tabbar'', ui_display (page s) ''new-tx-banner'', lock_card s name], v_txPolling s)"
  proof (cases "name = ''settings''")
    case True
    then show ?thesis by (simp add: load_screen_def loadSettings_run)
  next
    case False
    have "keeps (quiet False c rs) (load_screen E name)" for c rs
      unfolding load_screen_def using False by (intro keeps_rules; simp)
    from quiet_after [OF this, of s] show ?thesis using False by (simp add: shell_def lock_card_def)
  qed
qed

lemma showScreen_shell:
  "fst (showScreen E name s) = Inr ()"
  "shell (snd (showScreen E name s)) = (Some name,
     [ui_display (page s) ''lock-overlay'', ui_display (page s) ''tabbar'', ui_display (page s) ''new-tx-banner'', lock_card s name], polls name)"
proof -
  let ?s1 = "snd (modify_page (\<lambda>p. p\<lparr>ui_screen := Some name, ui_tab := (if name \<in> set tabs then Some name else None)\<rparr>) s)"
  let ?s2 = "snd (load_screen E name ?s1)"
  have r: "showScreen E name s = (if polls name then startTxPolling else stopTxPolling) ?s2"
    using load_screen_run(1) [of E name ?s1] unfolding showScreen_eq
    by (subst bind_run, simp add: modify_page_def modify_apply) (rule bind_run)
  show "fst (showScreen E name s) = Inr ()" unfolding r by (rule polling_run)
  have "shell ?s2 = (Some name, [ui_display (page s) ''lock-overlay'', ui_display (page s) ''tabbar'',
      ui_display (page s) ''new-tx-banner'', lock_card s name], v_txPolling s)"
    by (simp add: load_screen_run lock_card_def modify_page_def modify_apply)
  then show "shell (snd (showScreen E name s)) = (Some name,
     [ui_display (page s) ''lock-overlay'', ui_display (page s) ''tabbar'', ui_display (page s) ''new-tx-banner'', lock_card s name], polls name)"
    unfolding r polling_run(1) by (simp add: shell_def)
qed

lemma held_showScreen [keeps_rules]: "keeps (held E c) (showScreen E name)"
  unfolding showScreen_eq load_screen_def by (intro keeps_rules)

lemma wallet_derived:
  assumes "hashes_ok E" "wallet_of E m net s"
  shows "derived E s"
proof -
  have w: "st_mnemonic s = Some m" "NETWORKS (st_network s) = Some net" using assms(2) by (simp_all add: wallet_of_def)
  have k: "k = key_at E m net i" if "st_keys s i = Some k" for i k
    using wallet_keys(1) [OF assms(2), of i] that by (simp split: if_splits)
  have a: "st_keys s i = Some (key_at E m net i) \<and> a = address_at E m net i" if "st_addresses s i = Some a" for i a
    using wallet_keys [OF assms(2), of i] that by (simp split: if_splits)
  show ?thesis unfolding derived_def
    using k [unfolded key_at_def] a p2pkh_key_at [OF assms(1), of m net] w by blast
qed

lemma empty_wallet:
  "st_mnemonic s = Some m \<Longrightarrow> NETWORKS (st_network s) = Some net \<Longrightarrow> st_keys s = Map.empty \<Longrightarrow> st_addresses s = Map.empty \<Longrightarrow>
     wallet_of E m net s"
  by (simp add: wallet_of_def)

lemma derive_all_held:
  assumes "hashes_ok E" "wallet_of E m net s"
  shows "fst (deriveAllKnownAddresses E s) = Inr ()"
    "wallet_of E m net (snd (deriveAllKnownAddresses E s)) \<and> vault (snd (deriveAllKnownAddresses E s)) = vault s
     \<and> shell (snd (deriveAllKnownAddresses E s)) = shell s \<and> page (snd (deriveAllKnownAddresses E s)) = page s
     \<and> ls (snd (deriveAllKnownAddresses E s)) = ls s"
  using derive_list_wallet [OF assms(2)]
  by (simp_all add: derive_all [OF assms] wallet_of_def) (simp_all add: vault_def shell_def derive_list_def)

lemma enterWallet_run:
  assumes "hashes_ok E" "wallet_of E m net s"
  shows "fst (enterWallet E s) = Inr ()" "derived E (snd (enterWallet E s))" "vault (snd (enterWallet E s)) = vault s"
    "shell (snd (enterWallet E s)) = (Some ''home'',
       [''none'', ''flex'', ui_display (page s) ''new-tx-banner'', ui_display (page s) ''lock-is-set''], True)"
proof -
  define s1 where "s1 = snd (deriveAllKnownAddresses E s)"
  define s2 where "s2 = snd (seqs [modify_page leave_onboarding, setDisplay ''lock-overlay'' ''none'', setDisplay ''tabbar'' ''flex''] s1)"
  have e: "enterWallet E s = showScreen E ''home'' s2"
    unfolding enterWallet_def seqs_last by (subst bind_run [where x = "()"], rule derive_all_held(1) [OF assms])
      (simp add: s2_def s1_def act_simps)
  have p: "page s1 = page s" "wallet_of E m net s1" "vault s1 = vault s"
    using derive_all_held(2) [OF assms] by (simp_all add: s1_def)
  have "wallet_of E m net s2" using p(2) by (simp add: s2_def act_simps wallet_of_def)
  then have d: "derived E s2" using assms(1) by (rule wallet_derived [rotated])
  have v: "vault s2 = vault s" using p(3) by (simp add: s2_def act_simps vault_def)
  show "fst (enterWallet E s) = Inr ()" unfolding e by (rule showScreen_shell)
  show "derived E (snd (enterWallet E s))" "vault (snd (enterWallet E s)) = vault s"
    unfolding e using held_after [OF held_showScreen d] v by simp_all
  show "shell (snd (enterWallet E s)) = (Some ''home'',
       [''none'', ''flex'', ui_display (page s) ''new-tx-banner'', ui_display (page s) ''lock-is-set''], True)"
    unfolding e showScreen_shell(2) by (simp add: s2_def act_simps p(1) leave_onboarding_def lock_card_def polls_def)
qed

section \<open>The invariant\<close>

text \<open>What a store of this program satisfies between two visits of the page.\<close>

definition store_ok :: "env \<Rightarrow> store \<Rightarrow> bool" where
  "store_ok E l \<longleftrightarrow> (ls_mnemonic l = None \<or> ls_encrypted l = None)
     \<and> (\<forall>b. ls_encrypted l = Some b \<longrightarrow> (\<exists>pin m. decryptMnemonic (e_webcrypto E) b pin = Inr m))
     \<and> (ls_network l = None \<or> ls_network l = Some [] \<or> ls_network l = Some ''mainnet'' \<or> ls_network l = Some ''testnet'')"

definition recoverable :: "env \<Rightarrow> store \<Rightarrow> string \<Rightarrow> bool" where
  "recoverable E l m \<longleftrightarrow> ls_mnemonic l = Some m
     \<or> (\<exists>b pin. ls_encrypted l = Some b \<and> decryptMnemonic (e_webcrypto E) b pin = Inr m)"

definition page_ok :: "env \<Rightarrow> app \<Rightarrow> bool" where
  "page_ok E s \<longleftrightarrow> derived E s \<and> (st_network s = ''mainnet'' \<or> st_network s = ''testnet'') \<and> store_ok E (ls s)
     \<and> (st_mnemonic s \<noteq> None \<longleftrightarrow> \<not> covered s \<and> ui_screen (page s) \<noteq> Some ''onboarding'')
     \<and> (\<forall>m. st_mnemonic s = Some m \<longrightarrow> recoverable E (ls s) m)
     \<and> (shown s ''tabbar'' \<or> shown s ''new-tx-banner'' \<longrightarrow> ui_screen (page s) \<noteq> Some ''onboarding'')
     \<and> (shown s ''lock-is-set'' \<or> covered s \<longrightarrow> isPinSet (ls s))
     \<and> (on s ''onboarding'' \<longrightarrow> \<not> isPinSet (ls s))
     \<and> (v_txPolling s \<longrightarrow> on s ''home'' \<or> on s ''history'')"

lemma page_ok_networks: "page_ok E s \<Longrightarrow> \<exists>net. NETWORKS (st_network s) = Some net"
  by (auto simp: page_ok_def NETWORKS_def)

lemma derived_empty: "derived E s \<Longrightarrow> st_mnemonic s = None \<Longrightarrow> st_keys s = Map.empty \<and> st_addresses s = Map.empty"
  unfolding derived_def by (metis ext not_None_eq option.distinct(1))

lemma shell_eq:
  "shell s = (scr, [a, b, c, d], p) \<longleftrightarrow> ui_screen (page s) = scr \<and> ui_display (page s) ''lock-overlay'' = a
     \<and> ui_display (page s) ''tabbar'' = b \<and> ui_display (page s) ''new-tx-banner'' = c \<and> ui_display (page s) ''lock-is-set'' = d
     \<and> v_txPolling s = p"
  by (auto simp: shell_def)

lemma vault_eq:
  "vault s = vault t \<longleftrightarrow> st_network s = st_network t \<and> st_mnemonic s = st_mnemonic t \<and> ls_network (ls s) = ls_network (ls t)
     \<and> ls_mnemonic (ls s) = ls_mnemonic (ls t) \<and> ls_encrypted (ls s) = ls_encrypted (ls t)"
  by (simp add: vault_def)

lemmas page_ok_simps = page_ok_def covered_def shown_def on_def isPinSet_def store_ok_def recoverable_def

lemma page_ok_frame: "page_ok E s \<Longrightarrow> derived E t \<Longrightarrow> vault t = vault s \<Longrightarrow> shell t = shell s \<Longrightarrow> page_ok E t"
  unfolding vault_eq page_ok_simps by (simp add: shell_def)

lemma page_ok_ordinary:
  assumes "page_ok E s" "ordinary e"
  shows "page_ok E (snd (handler E e s))"
proof (rule page_ok_frame [OF assms(1)])
  have "derived E s" using assms(1) by (simp add: page_ok_def)
  then show "derived E (snd (handler E e s))" "vault (snd (handler E e s)) = vault s"
    using held_after [of E "handler E e" s] ordinary_held [OF assms(2)] by simp_all
  show "shell (snd (handler E e s)) = shell s"
    using ordinary_quiet [OF assms(2)] by (rule quiet_after)
qed

text \<open>Entering the wallet from a state with a phrase that can be recovered.\<close>

lemma page_ok_entered:
  assumes "hashes_ok E" "wallet_of E m net s" "store_ok E (ls s)" "recoverable E (ls s) m"
    "st_network s = ''mainnet'' \<or> st_network s = ''testnet''" "shown s ''lock-is-set'' \<longrightarrow> isPinSet (ls s)"
  shows "page_ok E (snd (enterWallet E s))"
proof -
  note r = enterWallet_run [OF assms(1,2)]
  have "st_mnemonic s = Some m" using assms(2) by (simp add: wallet_of_def)
  then show ?thesis using r(2-4) assms(3-6) unfolding vault_eq shell_eq
    by (auto simp: page_ok_simps)
qed

lemma page_ok_showScreen:
  assumes "page_ok E s" "st_mnemonic s \<noteq> None" "name \<in> set tabs"
  shows "page_ok E (snd (showScreen E name s))"
proof -
  have "derived E s" using assms(1) by (simp add: page_ok_def)
  then have h: "derived E (snd (showScreen E name s))" "vault (snd (showScreen E name s)) = vault s"
    using held_after [OF held_showScreen] by simp_all
  have n: "name \<noteq> ''onboarding''" using assms(3) by (auto simp: tabs_def)
  show ?thesis using h assms(1,2) showScreen_shell(2) [of E name s] n unfolding vault_eq shell_eq
    by (auto simp: page_ok_simps lock_card_def polls_def split: if_splits)
qed

subsection \<open>Events that change the vault or the shell\<close>

lemma page_ok_unlocked: "page_ok E s \<Longrightarrow> shown s ''tabbar'' \<or> shown s ''new-tx-banner'' \<Longrightarrow> \<not> covered s \<Longrightarrow> st_mnemonic s \<noteq> None"
  by (simp add: page_ok_def)

lemma page_ok_tab: "page_ok E s \<Longrightarrow> offered s (Tab name) \<Longrightarrow> page_ok E (snd (handler E (Tab name) s))"
  using page_ok_showScreen [of E s name] page_ok_unlocked [of E s] by simp

lemma page_ok_banner: "page_ok E s \<Longrightarrow> page_ok E (snd (setDisplay ''new-tx-banner'' ''none'' s))"
  by (simp add: page_ok_simps act_simps derived_def)

lemma page_ok_bannerOpen:
  assumes "page_ok E s" "offered s BannerOpen"
  shows "page_ok E (snd (handler E BannerOpen s))"
proof -
  let ?t = "snd (setDisplay ''new-tx-banner'' ''none'' s)"
  have "handler E BannerOpen s = showScreen E ''history'' ?t"
    by (simp add: newTxOpen_def seqs_last del: seqs.simps) (simp add: act_simps)
  moreover have "st_mnemonic ?t \<noteq> None" using assms page_ok_unlocked [OF assms(1)] by (simp add: act_simps)
  ultimately show ?thesis using page_ok_showScreen [OF page_ok_banner [OF assms(1)]] by (simp add: tabs_def)
qed

lemma page_ok_bannerDismiss: "page_ok E s \<Longrightarrow> page_ok E (snd (handler E BannerDismiss s))"
  by (simp add: newTxDismiss_def page_ok_banner)

text \<open>The timer changes the shell by showing the banner, and only while a phrase is in memory.\<close>

lemma quiet_weaken:
  "(\<And>c. keeps (quiet b c rs) m) \<Longrightarrow> keeps (\<lambda>s. f (shell s) \<and> sent_since rs (\<lambda>q. b \<or> \<not> broadcasts q) s) m"
  unfolding keeps_def quiet_def by metis

definition unbannered :: "string option \<times> string list \<times> bool \<Rightarrow> string option \<times> string list \<times> bool" where
  "unbannered c = (case c of (scr, ds, p) \<Rightarrow> (scr, [ds ! 0, ds ! 1, ds ! 3], p))"

lemma checkForNewTx_shell:
  "keeps (\<lambda>s. unbannered (shell s) = c \<and> sent_since rs (\<lambda>q. b \<or> \<not> broadcasts q) s) (checkForNewTx E)"
proof -
  note w = quiet_weaken [where f = "\<lambda>x. unbannered x = c"]
  have "keeps (\<lambda>s. unbannered (shell s) = c \<and> sent_since rs (\<lambda>q. b \<or> \<not> broadcasts q) s) (showNewTxBanner n)" for n
    by (simp add: keeps_def showNewTxBanner_def act_simps shell_def unbannered_def sent_since_def)
  then show ?thesis
    unfolding checkForNewTx_def Let_def
    by (intro keeps_rules w [OF quiet_history(1)] w [OF quiet_history(2)]) simp_all
qed

lemma page_ok_tick:
  assumes "page_ok E s"
  shows "page_ok E (snd (handler E Tick s))"
proof (cases "unlocked s")
  case False
  then show ?thesis using assms by (simp add: checkForNewTx_def act_simps)
next
  case True
  let ?t = "snd (checkForNewTx E s)"
  have h: "derived E ?t" "vault ?t = vault s"
    using held_after [OF held.history_frames(5), of E s] assms by (simp_all add: page_ok_def)
  have "unbannered (shell ?t) = unbannered (shell s)"
    using keepsD [OF checkForNewTx_shell [of "unbannered (shell s)" "requests s" True]] by (simp add: sent_since_def)
  moreover have "st_mnemonic s \<noteq> None" using True by (auto simp: unlocked_def split: option.splits)
  ultimately show ?thesis using h assms unfolding vault_eq
    by (auto simp: page_ok_simps shell_def unbannered_def)
qed

lemma page_ok_lockNow:
  assumes "page_ok E s" "offered s (OnSettings LockNow)"
  shows "page_ok E (snd (lockNow s))"
  using assms by (auto simp: lockNow_def act_simps page_ok_simps derived_def)

text \<open>AES-GCM decrypts what it encrypted under the same key and nonce.\<close>

definition aes_ok :: "env \<Rightarrow> bool" where
  "aes_ok E \<longleftrightarrow> (\<forall>k iv m. aes_decrypt (e_webcrypto E) k iv (aes_encrypt (e_webcrypto E) k iv m) = Inr m)"

lemma blob_opens:
  "aes_ok E \<Longrightarrow> decryptMnemonic (e_webcrypto E) (encryptMnemonic (e_webcrypto E) salt iv m pin) pin = Inr m"
  by (rule decrypt_encrypt) (simp add: aes_ok_def)

text \<open>A valid PIN in both fields.\<close>

definition pin_accepted :: "app \<Rightarrow> bool" where
  "pin_accepted s \<longleftrightarrow> 4 \<le> length (ui_field (page s) ''set-pin'') \<and> ui_field (page s) ''set-pin'' = ui_field (page s) ''set-pin-confirm''"

lemma setPin_refused:
  assumes "\<not> pin_accepted s"
  shows "vault (snd (btnSetPin E salt iv s)) = vault s" "shell (snd (btnSetPin E salt iv s)) = shell s"
    "derived E s \<Longrightarrow> derived E (snd (btnSetPin E salt iv s))"
  using assms by (auto simp: btnSetPin_def act_simps pin_accepted_def vault_def shell_def derived_def)

lemma setPin_accepted:
  fixes E :: env and salt iv :: bytes
  assumes "pin_accepted s" "st_mnemonic s = Some m"
  defines "t \<equiv> snd (btnSetPin E salt iv s)"
  shows "vault t = (st_network s, Some m, ls_network (ls s), None,
      Some (encryptMnemonic (e_webcrypto E) salt iv m (ui_field (page s) ''set-pin'')))"
    "shell t = (ui_screen (page s), [ui_display (page s) ''lock-overlay'', ui_display (page s) ''tabbar'',
       ui_display (page s) ''new-tx-banner'', ''block''], v_txPolling s)"
    "derived E s \<Longrightarrow> derived E t"
  using assms(1,2) unfolding t_def
  by (auto simp: btnSetPin_def act_simps pin_accepted_def vault_def shell_def derived_def null_text_def setPin_def
      refreshLockCardVisibility_def isPinSet_def Let_def)

lemma removePin_run:
  assumes "st_mnemonic s = Some m"
  defines "t \<equiv> snd (btnRemovePin s)"
  shows "vault t = (st_network s, Some m, ls_network (ls s), Some m, None)"
    "shell t = (ui_screen (page s), [ui_display (page s) ''lock-overlay'', ui_display (page s) ''tabbar'',
       ui_display (page s) ''new-tx-banner'', ''none''], v_txPolling s)"
    "derived E s \<Longrightarrow> derived E t"
  using assms(1) unfolding t_def
  by (simp_all add: btnRemovePin_def act_simps vault_def shell_def derived_def null_text_def removePin_def
      refreshLockCardVisibility_def isPinSet_def Let_def)

lemma page_ok_settings: "page_ok E s \<Longrightarrow> on s ''settings'' \<Longrightarrow> \<exists>m. st_mnemonic s = Some m"
  by (auto simp: page_ok_def on_def)

lemma page_ok_setPin:
  assumes "page_ok E s" "aes_ok E" "on s ''settings''"
  shows "page_ok E (snd (btnSetPin E salt iv s))"
proof (cases "pin_accepted s")
  case False
  then show ?thesis using assms(1) setPin_refused [OF False] by (intro page_ok_frame [OF assms(1)]) (simp_all add: page_ok_def)
next
  case True
  obtain m where m: "st_mnemonic s = Some m" using page_ok_settings [OF assms(1,3)] by blast
  note t = setPin_accepted [OF True m, of E salt iv] blob_opens [OF assms(2), of salt iv m]
  show ?thesis using assms(1,3) m t unfolding vault_def shell_eq by (auto simp: page_ok_simps)
qed

lemma page_ok_removePin:
  assumes "page_ok E s" "on s ''settings''"
  shows "page_ok E (snd (btnRemovePin s))"
proof -
  obtain m where m: "st_mnemonic s = Some m" using page_ok_settings [OF assms] by blast
  show ?thesis using assms m removePin_run [OF m] unfolding vault_def shell_eq by (auto simp: page_ok_simps)
qed

subsection \<open>Entering with a phrase\<close>

lemma page_ok_onboarding:
  "page_ok E s \<Longrightarrow> on s ''onboarding'' \<Longrightarrow> st_mnemonic s = None \<and> st_keys s = Map.empty \<and> st_addresses s = Map.empty
     \<and> ls_encrypted (ls s) = None \<and> \<not> shown s ''lock-is-set'' \<and> store_ok E (ls s)
     \<and> (st_network s = ''mainnet'' \<or> st_network s = ''testnet'')"
  using derived_empty [of E s] by (auto simp: page_ok_def on_def isPinSet_def)

lemma page_ok_adopted:
  assumes "hashes_ok E" "page_ok E s" "on s ''onboarding''"
    and t: "st_mnemonic t = Some m" "st_keys t = st_keys s" "st_addresses t = st_addresses s" "st_network t = st_network s"
      "ls_mnemonic (ls t) = Some m" "ls_encrypted (ls t) = ls_encrypted (ls s)" "ls_network (ls t) = ls_network (ls s)"
      "ui_display (page t) ''lock-is-set'' = ui_display (page s) ''lock-is-set''"
  shows "page_ok E (snd (enterWallet E t))"
proof -
  note o = page_ok_onboarding [OF assms(2,3)]
  obtain net where "NETWORKS (st_network s) = Some net" using page_ok_networks [OF assms(2)] by blast
  then have "wallet_of E m net t" using t o by (intro empty_wallet) simp_all
  then show ?thesis
    by (rule page_ok_entered [OF assms(1)]) (use t o in \<open>auto simp: store_ok_def recoverable_def shown_def\<close>)
qed

definition adopted :: "string \<Rightarrow> app \<Rightarrow> app" where
  "adopted m s = save_indices (s\<lparr>st_mnemonic := Some m, ls := (ls s)\<lparr>ls_mnemonic := Some m\<rparr>, st_addressIndices := [0]\<rparr>)"

lemma adopt_apply: "adopt_phrase m s = (Inr (), adopted m s)"
  by (simp add: adopt_phrase_def act_simps saveAddressIndices_def adopted_def)

lemma adopted_parts:
  "st_mnemonic (adopted m s) = Some m" "st_keys (adopted m s) = st_keys s"
  "st_addresses (adopted m s) = st_addresses s" "st_network (adopted m s) = st_network s"
  "ls_mnemonic (ls (adopted m s)) = Some m" "ls_encrypted (ls (adopted m s)) = ls_encrypted (ls s)"
  "ls_network (ls (adopted m s)) = ls_network (ls s)" "page (adopted m s) = page s"
  by (simp_all add: adopted_def save_indices_def)

lemma page_ok_setText: "page_ok E s \<Longrightarrow> page_ok E (snd (setText i v s))"
  by (rule page_ok_frame) (simp_all add: page_ok_def act_simps derived_def vault_def shell_def)

lemma page_ok_quizVerify:
  assumes "hashes_ok E" "page_ok E s" "on s ''onboarding''"
  shows "page_ok E (snd (quizVerify E s))"
proof (cases "st_pendingMnemonic s")
  case None
  then show ?thesis using assms(2) by (simp add: quizVerify_def act_simps)
next
  case (Some m)
  show ?thesis
  proof (cases "list_all (quiz_correct (js_split (CHR '' '') m)) (ui_quiz (page s))")
    case True
    let ?t = "snd (setDisplay ''mnemonic-quiz-card'' ''none'' (adopted m (snd (setText ''mnemonic-quiz-error'' [] s))))"
    have "quizVerify E s = enterWallet E ?t"
      using Some True unfolding quizVerify_def seqs_last
      by (simp add: act_simps adopt_apply)
    moreover have "page_ok E (snd (enterWallet E ?t))"
      by (rule page_ok_adopted [OF assms]) (simp_all add: act_simps adopted_parts)
    ultimately show ?thesis by simp
  next
    case False
    then show ?thesis using Some page_ok_setText [OF assms(2)] by (simp add: quizVerify_def bind_apply gets_apply)
  qed
qed

lemma page_ok_restoreConfirm:
  assumes "hashes_ok E" "page_ok E s" "on s ''onboarding''"
  shows "page_ok E (snd (restoreConfirm E s))"
proof -
  let ?m = "trim (ui_field (page s) ''restore-mnemonic'')"
  let ?t = "adopted ?m (snd (setText ''restore-error'' [] s))"
  have r: "restoreConfirm E s = (if validateMnemonic (e_crypto E) ?m then enterWallet E ?t
      else setText ''restore-error'' ''Invalid recovery phrase.'' s)"
    unfolding restoreConfirm_def seqs_last
    by (simp add: act_simps adopt_apply trimmed_field_def)
  have "page_ok E (snd (enterWallet E ?t))"
    by (rule page_ok_adopted [OF assms]) (simp_all add: act_simps adopted_parts)
  then show ?thesis using page_ok_setText [OF assms(2)] by (simp add: r)
qed

text \<open>Unlocking; the wallet of another network is entered in the same way.\<close>

lemma page_ok_covered:
  "page_ok E s \<Longrightarrow> covered s \<Longrightarrow> st_mnemonic s = None \<and> st_keys s = Map.empty \<and> st_addresses s = Map.empty
     \<and> (\<exists>b. ls_encrypted (ls s) = Some b)"
  using derived_empty [of E s] by (auto simp: page_ok_def isPinSet_def)

definition unlocking :: "string \<Rightarrow> app \<Rightarrow> app" where
  "unlocking m s = snd (seqs [setText ''lock-error'' [], modify (\<lambda>s. s\<lparr>st_mnemonic := Some m\<rparr>), setField ''lock-pin'' []] s)"

lemma unlock_right:
  assumes "ls_encrypted (ls s) = Some b" "decryptMnemonic (e_webcrypto E) b (ui_field (page s) ''lock-pin'') = Inr m"
    "fst (enterWallet E (unlocking m s)) = Inr ()"
  shows "unlock E s = enterWallet E (unlocking m s)"
proof -
  obtain t where "enterWallet E (unlocking m s) = (Inr (), t)" using assms(3) by (cases "enterWallet E (unlocking m s)") simp
  then show ?thesis using assms(1,2) unfolding unlock_def unlocking_def seqs_last by (simp add: act_simps loadEncryptedBlob_def)
qed

lemma unlock_wrong:
  assumes "ls_encrypted (ls s) = Some b" "decryptMnemonic (e_webcrypto E) b (ui_field (page s) ''lock-pin'') = Inl e"
  shows "unlock E s = setText ''lock-error'' ''Incorrect PIN.'' s"
  using assms by (simp add: unlock_def act_simps loadEncryptedBlob_def)

lemma unlocking_wallet:
  assumes "page_ok E s" "covered s"
  shows "\<exists>net. wallet_of E m net (unlocking m s)"
proof -
  obtain net where "NETWORKS (st_network s) = Some net" using page_ok_networks [OF assms(1)] by blast
  then show ?thesis using page_ok_covered [OF assms]
    by (intro exI [of _ net] empty_wallet) (simp_all add: unlocking_def act_simps)
qed

lemma unlock_enters:
  assumes "hashes_ok E" "page_ok E s" "covered s" "ls_encrypted (ls s) = Some b"
    "decryptMnemonic (e_webcrypto E) b (ui_field (page s) ''lock-pin'') = Inr m"
  shows "unlock E s = enterWallet E (unlocking m s)"
proof -
  obtain net where "wallet_of E m net (unlocking m s)" using unlocking_wallet [OF assms(2,3)] by blast
  then show ?thesis using enterWallet_run(1) [OF assms(1)] by (intro unlock_right [OF assms(4,5)]) blast
qed

lemma page_ok_unlock:
  assumes "hashes_ok E" "page_ok E s" "covered s"
  shows "page_ok E (snd (unlock E s))"
proof -
  obtain b where b: "ls_encrypted (ls s) = Some b" using page_ok_covered [OF assms(2,3)] by blast
  show ?thesis
  proof (cases "decryptMnemonic (e_webcrypto E) b (ui_field (page s) ''lock-pin'')")
    case (Inl e)
    then show ?thesis using unlock_wrong [OF b Inl] page_ok_setText [OF assms(2)] by simp
  next
    case (Inr m)
    obtain net where "wallet_of E m net (unlocking m s)" using unlocking_wallet [OF assms(2,3)] by blast
    then have "page_ok E (snd (enterWallet E (unlocking m s)))"
      by (rule page_ok_entered [OF assms(1)])
        (use assms(2) b Inr in \<open>auto simp: unlocking_def act_simps page_ok_simps\<close>)
    then show ?thesis using unlock_enters [OF assms b Inr] by simp
  qed
qed

subsection \<open>Loading the page, switching the network and wiping\<close>

definition preboot :: "unit act" where
  "preboot = seqs [bind (gets (\<lambda>s. ls_theme (ls s))) (\<lambda>saved.
        if saved = Some ''dark'' \<or> saved = Some ''light'' then modify_page (\<lambda>p. p\<lparr>ui_theme := saved\<rparr>) else ret ()),
      refreshGateway, addRecipientRow]"

lemma load_page_run: "load_page E s = (Inr (), snd (boot E (snd (preboot s))))"
  unfolding load_page_def preboot_def seqs_last
  by (simp add: act_simps refreshGateway_def addRecipientRow_def updateRecipientRemoveButtons_def modify_rows_def)

lemma preboot_frames: "keeps (quiet b c rs) preboot" "keeps (held E d) preboot"
  unfolding preboot_def refreshGateway_def
  by (intro keeps_rules quiet_rules held_modify; simp add: quiet_simps vault_def)+

lemma preboot_fresh:
  fixes l rs es
  defines "s \<equiv> snd (preboot (initial_state l rs es))"
  shows "st_mnemonic s = None" "st_keys s = Map.empty" "st_addresses s = Map.empty"
    "st_network s = st_network (initial_state l rs es)"
    "ls_mnemonic (ls s) = ls_mnemonic l" "ls_encrypted (ls s) = ls_encrypted l" "ls_network (ls s) = ls_network l"
    "shell s = (Some ''onboarding'', [''none'', ''none'', ''none'', ''none''], False)"
proof -
  let ?i = "initial_state l rs es"
  have "derived E ?i" for E by (simp add: derived_def initial_state_def)
  then have d: "derived E s" "vault s = vault ?i" for E
    using held_after [OF preboot_frames(2), of E ?i] by (simp_all add: s_def)
  have i: "st_mnemonic ?i = None" "ls ?i = l" by (simp_all add: initial_state_def)
  then show v: "st_mnemonic s = None" "st_network s = st_network ?i"
    "ls_mnemonic (ls s) = ls_mnemonic l" "ls_encrypted (ls s) = ls_encrypted l" "ls_network (ls s) = ls_network l"
    using d(2) unfolding vault_eq by simp_all
  show "st_keys s = Map.empty" "st_addresses s = Map.empty" using derived_empty [OF d(1)] v(1) by simp_all
  show "shell s = (Some ''onboarding'', [''none'', ''none'', ''none'', ''none''], False)"
    using quiet_after [OF preboot_frames(1), of ?i]
    by (simp add: s_def initial_state_def shell_def initial_page_def hidden_ids_def)
qed

lemma network_known: "store_ok E l \<Longrightarrow> st_network (initial_state l rs es) = ''mainnet'' \<or> st_network (initial_state l rs es) = ''testnet''"
  by (auto simp: store_ok_def initial_state_def)

lemma load_enters:
  assumes "store_ok E l" "\<not> isPinSet l" "ls_mnemonic l = Some m" "m \<noteq> []"
  shows "snd (load_page E (initial_state l rs es)) = snd (enterWallet E ((snd (preboot (initial_state l rs es)))\<lparr>st_mnemonic := Some m\<rparr>))"
    "\<exists>net. wallet_of E m net ((snd (preboot (initial_state l rs es)))\<lparr>st_mnemonic := Some m\<rparr>)"
proof -
  define s where "s = snd (preboot (initial_state l rs es))"
  note f = preboot_fresh [where l = l and rs = rs and es = es, folded s_def]
  have "boot E s = enterWallet E (s\<lparr>st_mnemonic := Some m\<rparr>)"
    using assms by (simp add: boot_def bind_apply gets_apply modify_apply f isPinSet_def Let_def)
  then show "snd (load_page E (initial_state l rs es)) = snd (enterWallet E ((snd (preboot (initial_state l rs es)))\<lparr>st_mnemonic := Some m\<rparr>))"
    by (simp add: load_page_run s_def)
  obtain net where "NETWORKS (st_network s) = Some net"
    using network_known [OF assms(1), of rs es] f(4) by (auto simp: NETWORKS_def)
  then show "\<exists>net. wallet_of E m net ((snd (preboot (initial_state l rs es)))\<lparr>st_mnemonic := Some m\<rparr>)"
    using f unfolding s_def [symmetric] by (intro exI [of _ net] empty_wallet) simp_all
qed

lemma page_ok_load:
  assumes "hashes_ok E" "store_ok E l"
  shows "page_ok E (snd (load_page E (initial_state l rs es)))"
proof -
  define s where "s = snd (preboot (initial_state l rs es))"
  note f = preboot_fresh [where l = l and rs = rs and es = es, folded s_def]
  have n: "st_network s = ''mainnet'' \<or> st_network s = ''testnet''"
    using network_known [OF assms(2), of rs es] f(4) by simp
  consider "isPinSet l" | "\<not> isPinSet l" "ls_mnemonic l = None \<or> ls_mnemonic l = Some []"
    | m where "\<not> isPinSet l" "ls_mnemonic l = Some m" "m \<noteq> []" by (cases "ls_mnemonic l") auto
  then show ?thesis
  proof cases
    case 1
    then have "snd (boot E s) = snd (setDisplay ''lock-overlay'' ''flex'' s)" by (simp add: boot_def act_simps f isPinSet_def)
    then show ?thesis using 1 f n assms(2) unfolding load_page_run s_def [symmetric] shell_eq
      by (simp add: act_simps page_ok_simps derived_def)
  next
    case 2
    then have "snd (boot E s) = s\<lparr>st_mnemonic := None\<rparr>" by (auto simp: boot_def act_simps f isPinSet_def Let_def)
    then show ?thesis using 2 f n assms(2) unfolding load_page_run s_def [symmetric] shell_eq
      by (simp add: page_ok_simps derived_def)
  next
    case 3
    let ?t = "s\<lparr>st_mnemonic := Some m\<rparr>"
    obtain net where "wallet_of E m net ?t" using load_enters(2) [OF assms(2) 3] unfolding s_def by blast
    then have "page_ok E (snd (enterWallet E ?t))"
      by (rule page_ok_entered [OF assms(1)]) (use 3 f n assms(2) in \<open>simp_all add: recoverable_def shown_def shell_eq store_ok_def\<close>)
    then show ?thesis unfolding load_enters(1) [OF assms(2) 3] s_def .
  qed
qed

lemma page_ok_reload: "hashes_ok E \<Longrightarrow> store_ok E (ls s) \<Longrightarrow> page_ok E (snd (reload E s))"
  using page_ok_load [of E "ls s" "requests s" "effects s"] unfolding reload_def seqs_last by (simp add: bind_apply modify_apply)

lemma page_ok_wipe:
  assumes "hashes_ok E" "page_ok E s"
  shows "page_ok E (snd (wipe E b s))"
proof (cases b)
  case True
  have "store_ok E (wiped (ls s))" using assms(2) by (auto simp: page_ok_def store_ok_def wiped_def)
  then show ?thesis using True page_ok_reload [OF assms(1), of "snd (seqs [modify_ls wiped, emit Reloaded] s)"]
    unfolding wipe_def seqs_last by (simp add: act_simps)
next
  case False
  then show ?thesis using assms(2) by (simp add: wipe_def ret_apply)
qed

lemma page_ok_switchNetwork:
  assumes "hashes_ok E" "page_ok E s" "on s ''settings''" "net = ''mainnet'' \<or> net = ''testnet''"
  shows "page_ok E (snd (switchNetwork E net s))"
proof -
  let ?u = "snd (seqs [modify (\<lambda>s. s\<lparr>st_network := net, ls := (ls s)\<lparr>ls_network := Some net\<rparr>\<rparr>), refreshGateway,
      modify (\<lambda>s. s\<lparr>st_keys := Map.empty, st_addresses := Map.empty\<rparr>)] s)"
  obtain m where m: "st_mnemonic s = Some m" using page_ok_settings [OF assms(2,3)] by blast
  obtain n where "NETWORKS net = Some n" using assms(4) by (auto simp: NETWORKS_def)
  then have w: "wallet_of E m n ?u" using m by (intro empty_wallet) (simp_all add: act_simps refreshGateway_def)
  obtain t where t: "deriveAllKnownAddresses E ?u = (Inr (), t)"
    using derive_all_held(1) [OF assms(1) w] by (cases "deriveAllKnownAddresses E ?u") simp
  then have d: "wallet_of E m n t" "vault t = vault ?u" "shell t = shell ?u"
    using derive_all_held(2) [OF assms(1) w] by simp_all
  have e: "switchNetwork E net s = showScreen E ''home'' t"
    using t unfolding switchNetwork_def seqs_last by (simp add: act_simps refreshGateway_def)
  have "page_ok E ?u" using assms(2,4) by (auto simp: act_simps refreshGateway_def page_ok_simps derived_def)
  then have "page_ok E t" by (rule page_ok_frame) (use d wallet_derived [OF assms(1)] in blast)+
  moreover have "st_mnemonic t \<noteq> None" using d(1) by (simp add: wallet_of_def)
  ultimately show ?thesis unfolding e by (intro page_ok_showScreen) (simp_all add: tabs_def)
qed

subsection \<open>Every step keeps the invariant\<close>

lemma quiz_frames:
  assumes "showMnemonicQuiz rand m = Some act"
  shows "keeps (quiet b c rs) act" "keeps (held E d) act"
proof -
  obtain i where a: "act = seqs [modify_page (\<lambda>p. p\<lparr>ui_quiz := map (\<lambda>i. (i, [])) i\<rparr>), setText ''mnemonic-quiz-error'' [],
      setDisplay ''new-mnemonic-card'' ''none'', setDisplay ''mnemonic-quiz-card'' ''block'']"
    using assms by (auto simp: showMnemonicQuiz_def)
  show "keeps (quiet b c rs) act" "keeps (held E d) act"
    unfolding a by (intro keeps_rules quiet_rules; simp add: quiet_simps)+
qed

lemma page_ok_event:
  assumes "hashes_ok E" "aes_ok E" "page_ok E s" "offered s e"
  shows "page_ok E (snd (handler E e s))"
proof (cases "ordinary e")
  case True
  then show ?thesis by (rule page_ok_ordinary [OF assms(3)])
next
  case False
  note special = page_ok_tab page_ok_bannerOpen page_ok_bannerDismiss page_ok_tick page_ok_unlock page_ok_reload
    page_ok_quizVerify page_ok_restoreConfirm page_ok_setPin page_ok_lockNow page_ok_removePin page_ok_switchNetwork page_ok_wipe
  have "store_ok E (ls s)" using assms(3) by (simp add: page_ok_def)
  then show ?thesis using False special [of E s] assms
    by (cases e) (auto elim: changes_wallet.elims)
qed

lemma page_ok_step:
  assumes "hashes_ok E" "aes_ok E" "page_ok E s" "step E s t"
  shows "page_ok E t"
  using assms(4)
proof (cases rule: step.cases)
  case (event e)
  then show ?thesis using page_ok_event [OF assms(1-3)] by simp
next
  case (quiz m rand act)
  have "derived E s" using assms(3) by (simp add: page_ok_def)
  then show ?thesis using quiz(1) quiet_after [OF quiz_frames(1) [OF quiz(6)]] held_after [OF quiz_frames(2) [OF quiz(6)]]
    by (intro page_ok_frame [OF assms(3)]) simp_all
qed

lemma reachable_page_ok:
  assumes "hashes_ok E" "aes_ok E" "store_ok E l" "reachable E l s"
  shows "page_ok E s"
  using assms(4) by (induction rule: reachable.induct) (auto intro: page_ok_load page_ok_step assms)

subsection \<open>Broadcasts\<close>

lemma quiet_sent: "(\<And>c. keeps (quiet False c rs) m) \<Longrightarrow> keeps (sent_since rs (\<lambda>q. \<not> broadcasts q)) m"
  by (rule quiet_weaken [where f = "\<lambda>_. True" and b = False, simplified])

lemma sent_showScreen [keeps_rules]: "keeps (sent_since rs (\<lambda>q. \<not> broadcasts q)) (showScreen E name)"
proof -
  have "keeps (sent_since rs (\<lambda>q. \<not> broadcasts q)) (load_screen E name)"
  proof (cases "name = ''settings''")
    case True
    then show ?thesis unfolding load_screen_def loadSettings_def refreshLockCardVisibility_def refreshThemeButtons_def refreshMsgSignAddressList_def Let_def
      by (simp, intro keeps_rules)
  next
    case False
    then show ?thesis unfolding load_screen_def by (intro quiet_sent keeps_rules; simp)
  qed
  then show ?thesis unfolding showScreen_eq startTxPolling_def stopTxPolling_def
    by (intro keeps_rules sent_modify) simp_all
qed

lemma sent_enterWallet [keeps_rules]: "keeps (sent_since rs (\<lambda>q. \<not> broadcasts q)) (enterWallet E)"
proof -
  have "keeps (sent_since rs (\<lambda>q. \<not> broadcasts q)) (deriveAllKnownAddresses E)"
    by (intro quiet_sent keeps_rules)
  then show ?thesis unfolding enterWallet_def by (intro keeps_rules)
qed

lemma sent_load [keeps_rules]: "keeps (sent_since rs (\<lambda>q. \<not> broadcasts q)) (load_page E)" "keeps (sent_since rs (\<lambda>q. \<not> broadcasts q)) (reload E)"
proof -
  have "keeps (sent_since rs (\<lambda>q. \<not> broadcasts q)) (boot E)"
    unfolding boot_def Let_def by (intro keeps_rules sent_modify) simp_all
  moreover have "keeps (sent_since rs (\<lambda>q. \<not> broadcasts q)) preboot"
    by (rule quiet_sent) (rule preboot_frames)
  ultimately have "sent_since rs (\<lambda>q. \<not> broadcasts q) (snd (load_page E s))" if "sent_since rs (\<lambda>q. \<not> broadcasts q) s" for s
    using that unfolding load_page_run by (simp add: keeps_def)
  then show l: "keeps (sent_since rs (\<lambda>q. \<not> broadcasts q)) (load_page E)" by (simp add: keeps_def)
  show "keeps (sent_since rs (\<lambda>q. \<not> broadcasts q)) (reload E)"
    unfolding reload_def by (intro keeps_rules sent_modify l) (simp add: initial_state_def)
qed

lemma sent_adopt [keeps_rules]: "keeps (sent_since rs P) (adopt_phrase m)"
  by (simp add: keeps_def adopt_apply adopted_def save_indices_def sent_since_def)

lemma sent_derive [keeps_rules]: "keeps (sent_since rs (\<lambda>q. \<not> broadcasts q)) (deriveAllKnownAddresses E)"
  by (intro quiet_sent keeps_rules)

lemma sent_settings:
  "keeps (sent_since rs (\<lambda>q. \<not> broadcasts q)) (btnSetPin E salt iv)" "keeps (sent_since rs (\<lambda>q. \<not> broadcasts q)) lockNow"
  "keeps (sent_since rs (\<lambda>q. \<not> broadcasts q)) btnRemovePin" "keeps (sent_since rs (\<lambda>q. \<not> broadcasts q)) (switchNetwork E net)"
  "keeps (sent_since rs (\<lambda>q. \<not> broadcasts q)) (wipe E b)"
  unfolding btnSetPin_def lockNow_def btnRemovePin_def switchNetwork_def wipe_def refreshLockCardVisibility_def refreshGateway_def
  by (intro keeps_rules sent_modify; simp)+

lemma sent_entering:
  "keeps (sent_since rs (\<lambda>q. \<not> broadcasts q)) (quizVerify E)" "keeps (sent_since rs (\<lambda>q. \<not> broadcasts q)) (restoreConfirm E)"
  "keeps (sent_since rs (\<lambda>q. \<not> broadcasts q)) (unlock E)" "keeps (sent_since rs (\<lambda>q. \<not> broadcasts q)) (newTxOpen E)"
  "keeps (sent_since rs (\<lambda>q. \<not> broadcasts q)) newTxDismiss"
  unfolding quizVerify_def restoreConfirm_def unlock_def newTxOpen_def newTxDismiss_def trimmed_field_def
  by (intro keeps_rules sent_modify; simp)+

lemma sent_event:
  assumes "\<not> broadcasting e"
  shows "keeps (sent_since rs (\<lambda>q. \<not> broadcasts q)) (handler E e)"
proof (cases "ordinary e")
  case True
  then show ?thesis using ordinary_quiet [OF True] assms by (intro quiet_sent) simp
next
  case False
  have "keeps (sent_since rs (\<lambda>q. \<not> broadcasts q)) (checkForNewTx E)"
    using checkForNewTx_shell [of _ rs False E] unfolding keeps_def by auto
  then show ?thesis using False
    by (cases e) (auto elim: changes_wallet.elims simp: sent_settings sent_entering sent_showScreen sent_load)
qed

section \<open>Sessions\<close>

subsection \<open>Starting\<close>

lemma load_locked: "isPinSet l \<Longrightarrow> covered (snd (load_page E (initial_state l rs es)))"
  using preboot_fresh(6) [where l = l and rs = rs and es = es]
  by (simp add: load_page_run boot_def act_simps isPinSet_def covered_def)

lemma load_plain:
  assumes "hashes_ok E" "store_ok E l" "\<not> isPinSet l" "ls_mnemonic l = Some m" "m \<noteq> []"
  shows "st_mnemonic (snd (load_page E (initial_state l rs es))) = Some m" "on (snd (load_page E (initial_state l rs es))) ''home''"
proof -
  obtain net where w: "wallet_of E m net ((snd (preboot (initial_state l rs es)))\<lparr>st_mnemonic := Some m\<rparr>)"
    using load_enters(2) [OF assms(2-5)] by blast
  show "st_mnemonic (snd (load_page E (initial_state l rs es))) = Some m" "on (snd (load_page E (initial_state l rs es))) ''home''"
    using enterWallet_run [OF assms(1) w] unfolding load_enters(1) [OF assms(2-5)] vault_eq shell_eq
    by (simp_all add: on_def covered_def)
qed

lemma event_reachable: "reachable E l s \<Longrightarrow> offered s e \<Longrightarrow> reachable E l (snd (handler E e s))"
  by (blast intro: reachable.more step.event)

lemma unlock_pin:
  assumes "hashes_ok E" "page_ok E s" "covered s" "ls_encrypted (ls s) = Some b"
  defines "t pin \<equiv> snd (handler E Unlock (snd (handler E (Typed ''lock-pin'' pin) s)))"
  shows "decryptMnemonic (e_webcrypto E) b pin = Inr m \<Longrightarrow> on (t pin) ''home'' \<and> st_mnemonic (t pin) = Some m"
    "decryptMnemonic (e_webcrypto E) b pin = Inl e \<Longrightarrow>
       covered (t pin) \<and> st_mnemonic (t pin) = None \<and> ui_text (page (t pin)) ''lock-error'' = ''Incorrect PIN.''"
proof -
  let ?u = "snd (setField ''lock-pin'' pin s)"
  have u: "page_ok E ?u" "covered ?u" "ls_encrypted (ls ?u) = Some b" "ui_field (page ?u) ''lock-pin'' = pin"
    using assms(2-4) page_ok_ordinary [of E s "Typed ''lock-pin'' pin"] by (simp_all add: covered_def act_simps)
  have t: "t pin = snd (unlock E ?u)" by (simp add: t_def)
  show "on (t pin) ''home'' \<and> st_mnemonic (t pin) = Some m" if "decryptMnemonic (e_webcrypto E) b pin = Inr m"
  proof -
    obtain net where w: "wallet_of E m net (unlocking m ?u)" using unlocking_wallet [OF u(1,2)] by blast
    have "unlock E ?u = enterWallet E (unlocking m ?u)" using that u(4) by (intro unlock_enters [OF assms(1) u(1-3)]) simp
    then show ?thesis using enterWallet_run [OF assms(1) w] w unfolding t vault_eq shell_eq
      by (simp add: on_def covered_def wallet_of_def)
  qed
  show "covered (t pin) \<and> st_mnemonic (t pin) = None \<and> ui_text (page (t pin)) ''lock-error'' = ''Incorrect PIN.''"
    if "decryptMnemonic (e_webcrypto E) b pin = Inl e"
  proof -
    have "unlock E ?u = setText ''lock-error'' ''Incorrect PIN.'' ?u" using that u(4) by (intro unlock_wrong [OF u(3)]) simp
    then show ?thesis using u(2) page_ok_covered [OF u(1,2)] by (simp add: t act_simps covered_def)
  qed
qed

lemma preboot_ls: "ls (snd (preboot s)) = ls s"
  by (simp add: preboot_def act_simps refreshGateway_def addRecipientRow_def updateRecipientRemoveButtons_def modify_rows_def)

lemma wipe_run:
  defines "t E s \<equiv> snd (wipe E True s)"
  shows "ls (t E s) = wiped (ls s)" "st_mnemonic (t E s) = None" "st_keys (t E s) = Map.empty" "st_addresses (t E s) = Map.empty"
    "on (t E s) ''onboarding''" "\<not> shown (t E s) ''tabbar''"
proof -
  let ?u = "snd (preboot (initial_state (wiped (ls s)) (requests s) (effects s @ [Reloaded])))"
  note f = preboot_fresh [where l = "wiped (ls s)" and rs = "requests s" and es = "effects s @ [Reloaded]"]
  have "ls ?u = wiped (ls s)" by (simp add: preboot_ls initial_state_def)
  moreover have "t E s = ?u\<lparr>st_mnemonic := None\<rparr>"
    using f(5,6) unfolding t_def wipe_def reload_def seqs_last
    by (simp add: act_simps load_page_run boot_def isPinSet_def wiped_def Let_def)
  ultimately show "ls (t E s) = wiped (ls s)" "st_mnemonic (t E s) = None" "st_keys (t E s) = Map.empty"
    "st_addresses (t E s) = Map.empty" "on (t E s) ''onboarding''" "\<not> shown (t E s) ''tabbar''"
    using f unfolding shell_eq by (simp_all add: on_def covered_def shown_def)
qed

lemma reload_run: "handler E Reload s = load_page E (initial_state (ls s) (requests s) (effects s))"
  by (simp add: reload_def seqs_last bind_apply modify_apply del: seqs.simps)

lemma lock_run:
  "covered (snd (lockNow s))" "ls (snd (lockNow s)) = ls s"
  by (simp_all add: lockNow_def act_simps covered_def)

text \<open>A store with the phrase of the demonstration under the PIN 1234.\<close>

definition demo_locked :: store where
  "demo_locked = demo_store\<lparr>ls_mnemonic := None, ls_encrypted := Some (encryptMnemonic demo_webcrypto [1] [2] ''abc'' ''1234'')\<rparr>"

lemma demo_aes_ok: "aes_ok demo_env"
  by (simp add: aes_ok_def demo_env_def demo_webcrypto_def)

lemma demo_blob_opens: "decryptMnemonic demo_webcrypto (encryptMnemonic demo_webcrypto [1] [2] ''abc'' ''1234'') ''1234'' = Inr ''abc''"
  using blob_opens [OF demo_aes_ok] by (simp add: demo_env_def)

lemma demo_stores: "store_ok demo_env demo_store" "store_ok demo_env demo_locked"
  using demo_blob_opens by (auto simp: store_ok_def demo_store_def demo_locked_def demo_env_def)

lemma load_locked_ls: "isPinSet l \<Longrightarrow> ls (snd (load_page E (initial_state l rs es))) = l"
  by (simp add: load_page_run boot_def act_simps preboot_ls initial_state_def)

text \<open>The page of the demonstration, loaded, and then on the settings screen with a PIN typed in.\<close>

abbreviation demo_loaded :: app where
  "demo_loaded \<equiv> snd (load_page demo_env (initial_state demo_store [] []))"

definition demo_settings :: app where
  "demo_settings = snd (handler demo_env (Typed ''set-pin-confirm'' ''1234'')
     (snd (handler demo_env (Typed ''set-pin'' ''1234'') (snd (handler demo_env (Tab ''settings'') demo_loaded)))))"

lemma demo_loaded_parts:
  "st_mnemonic demo_loaded = Some ''abc''" "\<not> isPinSet (ls demo_loaded)"
  "on demo_loaded ''home''" "shown demo_loaded ''tabbar''" "v_txPolling demo_loaded"
proof -
  let ?s = "(snd (preboot (initial_state demo_store [] [])))\<lparr>st_mnemonic := Some ''abc''\<rparr>"
  have d: "\<not> isPinSet demo_store" "ls_mnemonic demo_store = Some ''abc''" "''abc'' \<noteq> []" by (simp_all add: demo_store_def isPinSet_def)
  obtain net where w: "wallet_of demo_env ''abc'' net ?s" using load_enters(2) [OF demo_stores(1) d] by blast
  note r = enterWallet_run [OF demo_hashes_ok w] load_enters(1) [OF demo_stores(1) d, of "[]" "[]"]
  have "ls ?s = demo_store" by (simp add: preboot_ls initial_state_def)
  then show "st_mnemonic demo_loaded = Some ''abc''" "\<not> isPinSet (ls demo_loaded)"
    "on demo_loaded ''home''" "shown demo_loaded ''tabbar''" "v_txPolling demo_loaded"
    using r d(1) unfolding r(5) vault_eq shell_eq by (simp_all add: on_def covered_def shown_def isPinSet_def)
qed

lemma demo_settings_reachable:
  "reachable demo_env demo_store demo_settings" "on demo_settings ''settings''" "pin_accepted demo_settings"
proof -
  let ?t = "snd (handler demo_env (Tab ''settings'') demo_loaded)"
  have r: "reachable demo_env demo_store ?t"
    using demo_loaded_parts by (intro event_reachable reachable.start) (simp_all add: on_def tabs_def)
  show "reachable demo_env demo_store demo_settings" unfolding demo_settings_def
    by (rule event_reachable [OF event_reachable [OF r]]) simp_all
  have "on ?t ''settings''" using showScreen_shell(2) [of demo_env "''settings''" demo_loaded] demo_loaded_parts(3)
    unfolding shell_eq by (simp add: on_def covered_def)
  then show "on demo_settings ''settings''" "pin_accepted demo_settings"
    by (simp_all add: demo_settings_def act_simps on_def covered_def pin_accepted_def)
qed

section \<open>The phrase of a new wallet\<close>

abbreviation pending where
  "pending p \<equiv> (\<lambda>s. st_pendingMnemonic s = p)"

lemma pending_ensureKey: "keeps (pending p) (ensureKey E i)"
  unfolding keeps_def by (simp add: ensureKey_apply Let_def split: option.split sum.split)

interpretation pending: wallet_predicate "pending p" E for p E
  by unfold_locales (simp add: core_def, rule pending_ensureKey)

lemma pending_modify: "(\<And>s. st_pendingMnemonic (f s) = st_pendingMnemonic s) \<Longrightarrow> keeps (pending p) (modify f)"
  by (rule keeps_modify) simp

lemma pending_address [keeps_rules]: "keeps (pending p) (selectAddress E i)" "keeps (pending p) (newAddress E)"
  "keeps (pending p) (deriveAllKnownAddresses E)"
  unfolding selectAddress_def newAddress_def save_indices_def Let_def deriveAllKnownAddresses_def
  by (intro keeps_rules pending_modify pending_ensureKey; simp)+

lemma pending_onboarding [keeps_rules]:
  "keeps (pending p) (confirmWritten b)" "keeps (pending p) quizBack" "keeps (pending p) showRestore"
  unfolding confirmWritten_def quizBack_def showRestore_def by (intro keeps_rules)+

lemma pending_screens [keeps_rules]:
  "keeps (pending p) (on_receive E r)" "keeps (pending p) (on_history E h)" "keeps (pending p) (on_staking E t)"
  "keeps (pending p) (on_watch E w)" "keeps (pending p) (on_send E e)" "keeps (pending p) (on_multisig E m)"
  "keeps (pending p) (on_overlay E ov)"
  by ((cases r; simp; intro keeps_rules) | (cases h; simp; intro keeps_rules) | (cases t; simp; intro keeps_rules)
    | (cases w; simp; intro keeps_rules) | (cases e; simp; intro keeps_rules) | (cases m; simp; intro keeps_rules)
    | (cases ov; simp; intro keeps_rules))+

lemma pending_showScreen [keeps_rules]: "keeps (pending p) (showScreen E name)"
  unfolding showScreen_def load_screen_def by (intro keeps_rules pending_modify; simp)

lemma pending_enterWallet [keeps_rules]: "keeps (pending p) (enterWallet E)"
  unfolding enterWallet_def by (intro keeps_rules)

lemma pending_adopt [keeps_rules]: "keeps (pending p) (adopt_phrase m)"
  unfolding adopt_phrase_def saveAddressIndices_def by (intro keeps_rules pending_modify; simp add: save_indices_def)

lemma pending_entering [keeps_rules]:
  "keeps (pending p) (quizVerify E)" "keeps (pending p) (restoreConfirm E)" "keeps (pending p) (unlock E)"
  unfolding quizVerify_def restoreConfirm_def unlock_def trimmed_field_def by (intro keeps_rules pending_modify; simp)+

lemma pending_settings [keeps_rules]:
  "keeps (pending p) (btnSetPin E salt iv)" "keeps (pending p) lockNow" "keeps (pending p) btnRemovePin"
  "keeps (pending p) (switchNetwork E net)"
  unfolding btnSetPin_def lockNow_def btnRemovePin_def switchNetwork_def refreshGateway_def refreshLockCardVisibility_def modify_ls_def
  by (intro keeps_rules pending_modify; simp)+

text \<open>The events after which the phrase of a new wallet is the same as before.\<close>

fun keeps_pending :: "event \<Rightarrow> bool" where
  "keeps_pending (OnOnboarding (CreateWallet m)) = False"
| "keeps_pending Reload = False"
| "keeps_pending (OnSettings (Wipe confirmed)) = (\<not> confirmed)"
| "keeps_pending e = True"

lemma pending_event: "keeps_pending e \<Longrightarrow> keeps (pending p) (handler E e)"
proof (cases e)
  case (OnOnboarding oe)
  then show "keeps_pending e \<Longrightarrow> ?thesis" by (cases oe) (simp_all add: pending_onboarding pending_entering pending.page_frames)
next
  case (OnSettings se)
  then show "keeps_pending e \<Longrightarrow> ?thesis" by (cases se; simp; (intro keeps_rules)?; simp add: wipe_def keeps_ret)
next
  case BannerOpen
  then show ?thesis by (simp add: newTxOpen_def) (intro keeps_rules)
qed (simp_all add: pending_screens pending_showScreen pending_entering pending.page_frames pending.staking_frames pending.history_frames)

lemma pin_then_lock:
  fixes salt iv :: bytes
  assumes "page_ok E s" "aes_ok E" "on s ''settings''" "pin_accepted s" "st_mnemonic s = Some m"
  defines "t \<equiv> snd (handler E (OnSettings (SetPin salt iv)) s)"
  defines "u \<equiv> snd (handler E (OnSettings LockNow) t)"
  shows "page_ok E t" "on t ''settings''" "offered t (OnSettings LockNow)" "ls_mnemonic (ls t) = None" "page_ok E u" "covered u" "ls u = ls t"
    "ls_encrypted (ls t) = Some (encryptMnemonic (e_webcrypto E) salt iv m (ui_field (page s) ''set-pin''))"
proof -
  note a = setPin_accepted [OF assms(4,5), of E salt iv]
  show t: "page_ok E t" "on t ''settings''" "offered t (OnSettings LockNow)" "ls_mnemonic (ls t) = None"
    "ls_encrypted (ls t) = Some (encryptMnemonic (e_webcrypto E) salt iv m (ui_field (page s) ''set-pin''))"
    using page_ok_setPin [OF assms(1-3), of salt iv] a assms(3) unfolding t_def vault_def shell_eq
    by (simp_all add: on_def covered_def shown_def)
  show "page_ok E u" unfolding u_def using page_ok_lockNow [OF t(1,3)] by simp
  show "covered u" "ls u = ls t" unfolding u_def by (simp_all add: lock_run)
qed

definition demo_phrase :: string where
  "demo_phrase = ''a b c d''"

definition demo_empty :: store where
  "demo_empty = demo_store\<lparr>ls_mnemonic := None\<rparr>"

definition demo_created :: app where
  "demo_created = snd (handler demo_env (OnOnboarding (ConfirmWritten True))
     (snd (handler demo_env (OnOnboarding (CreateWallet demo_phrase)) (snd (load_page demo_env (initial_state demo_empty [] []))))))"

lemma demo_created_parts:
  "reachable demo_env demo_empty demo_created" "on demo_created ''onboarding''" "shown demo_created ''new-mnemonic-card''"
  "\<not> ui_disabled (page demo_created) ''btn-mnemonic-continue''" "st_pendingMnemonic demo_created = Some demo_phrase"
proof -
  let ?s = "snd (load_page demo_env (initial_state demo_empty [] []))"
  let ?c = "snd (handler demo_env (OnOnboarding (CreateWallet demo_phrase)) ?s)"
  have s: "ui_screen (page ?s) = Some ''onboarding''" "ui_display (page ?s) = ui_display initial_page"
    by (simp_all add: load_page_run preboot_def boot_def act_simps refreshGateway_def addRecipientRow_def
        updateRecipientRemoveButtons_def modify_rows_def initial_state_def isPinSet_def demo_empty_def demo_store_def initial_page_def Let_def)
  then have o: "on ?s ''onboarding''" "shown ?s ''btn-create-wallet''"
    by (simp_all add: on_def covered_def shown_def initial_page_def hidden_ids_def)
  have c: "on ?c ''onboarding''" "shown ?c ''new-mnemonic-card''" "st_pendingMnemonic ?c = Some demo_phrase"
    using o(1) by (simp_all add: createWallet_def act_simps on_def covered_def shown_def)
  have "reachable demo_env demo_empty ?c" using o by (intro event_reachable reachable.start) simp_all
  then show "reachable demo_env demo_empty demo_created"
    unfolding demo_created_def by (rule event_reachable) (use c in simp)
  show "on demo_created ''onboarding''" "shown demo_created ''new-mnemonic-card''"
    "\<not> ui_disabled (page demo_created) ''btn-mnemonic-continue''" "st_pendingMnemonic demo_created = Some demo_phrase"
    unfolding demo_created_def using c by (simp_all add: confirmWritten_def act_simps on_def covered_def shown_def)
qed

lemma demo_quiz: "quiz_positions (\<lambda>k. of_nat k / 4) 4 = Some [0, 1, 2]"
proof -
  have "draw (\<lambda>k. of_nat k / 4) 4 0 = 0" "draw (\<lambda>k. of_nat k / 4) 4 1 = 1" "draw (\<lambda>k. of_nat k / 4) 4 2 = 2"
    using fl_int_exact [of 1] fl_int_exact [of 2] by (simp_all add: draw_def fl_0)
  then have "quiz_loop (\<lambda>k. of_nat k / 4) 4 0 [] = Some [0, 1, 2]"
    by (subst quiz_loop.simps, simp add: Let_def, subst quiz_loop.simps, simp add: Let_def numeral_eq_Suc,
        subst quiz_loop.simps, simp add: Let_def numeral_eq_Suc, subst quiz_loop.simps, simp)
  then show ?thesis by (simp add: quiz_positions_def)
qed

definition demo_answered :: app where
  "demo_answered = snd (handler demo_env (OnOnboarding (QuizType 2 ''c'')) (snd (handler demo_env (OnOnboarding (QuizType 1 ''b''))
     (snd (handler demo_env (OnOnboarding (QuizType 0 ''a''))
       (snd (the (showMnemonicQuiz (\<lambda>k. of_nat k / 4) demo_phrase) demo_created)))))))"

lemma demo_answered_parts:
  "reachable demo_env demo_empty demo_answered" "on demo_answered ''onboarding''" "shown demo_answered ''mnemonic-quiz-card''"
  "st_pendingMnemonic demo_answered = Some demo_phrase" "ui_quiz (page demo_answered) = [(0, ''a''), (1, ''b''), (2, ''c'')]"
proof -
  let ?q = "snd (the (showMnemonicQuiz (\<lambda>k. of_nat k / 4) demo_phrase) demo_created)"
  let ?act = "seqs [modify_page (\<lambda>p. p\<lparr>ui_quiz := map (\<lambda>i. (i, [])) [0, 1, 2]\<rparr>),
        setText ''mnemonic-quiz-error'' [], setDisplay ''new-mnemonic-card'' ''none'', setDisplay ''mnemonic-quiz-card'' ''block'']"
  have "length (js_split (CHR '' '') demo_phrase) = 4" by (simp add: demo_phrase_def js_split_def)
  then have act: "showMnemonicQuiz (\<lambda>k. of_nat k / 4) demo_phrase = Some ?act"
    by (simp only: showMnemonicQuiz_def demo_quiz option.map)
  have q: "on ?q ''onboarding''" "shown ?q ''mnemonic-quiz-card''" "st_pendingMnemonic ?q = Some demo_phrase"
    "ui_quiz (page ?q) = [(0, []), (1, []), (2, [])]"
    using demo_created_parts(2,5) unfolding act by (simp_all add: act_simps on_def covered_def shown_def)
  have "reachable demo_env demo_empty ?q"
    using reachable.more [OF demo_created_parts(1) step.quiz [OF demo_created_parts(2-5) act]] unfolding act option.sel .
  moreover have "on s ''onboarding'' \<and> shown s ''mnemonic-quiz-card'' \<Longrightarrow> reachable demo_env demo_empty s \<Longrightarrow>
      on (snd (handler demo_env (OnOnboarding (QuizType i v)) s)) ''onboarding''
    \<and> shown (snd (handler demo_env (OnOnboarding (QuizType i v)) s)) ''mnemonic-quiz-card''
    \<and> reachable demo_env demo_empty (snd (handler demo_env (OnOnboarding (QuizType i v)) s))" for s i v
    using event_reachable [of demo_env demo_empty s "OnOnboarding (QuizType i v)"]
    by (simp add: act_simps on_def covered_def shown_def)
  ultimately show "reachable demo_env demo_empty demo_answered" "on demo_answered ''onboarding''" "shown demo_answered ''mnemonic-quiz-card''"
    unfolding demo_answered_def using q(1,2) by blast+
  show "st_pendingMnemonic demo_answered = Some demo_phrase" "ui_quiz (page demo_answered) = [(0, ''a''), (1, ''b''), (2, ''c'')]"
    unfolding demo_answered_def using q(3,4) by (simp_all add: act_simps)
qed

lemma quiz_enters:
  assumes "hashes_ok E" "page_ok E s" "on s ''onboarding''" "st_pendingMnemonic s = Some m"
    and "list_all (quiz_correct (js_split (CHR '' '') m)) (ui_quiz (page s))"
  shows "on (snd (quizVerify E s)) ''home''" "shown (snd (quizVerify E s)) ''tabbar''" "st_mnemonic (snd (quizVerify E s)) = Some m"
    "\<not> isPinSet (ls (snd (quizVerify E s)))"
proof -
  let ?t = "snd (setDisplay ''mnemonic-quiz-card'' ''none'' (adopted m (snd (setText ''mnemonic-quiz-error'' [] s))))"
  have r: "quizVerify E s = enterWallet E ?t"
    using assms(4,5) unfolding quizVerify_def seqs_last by (simp add: act_simps adopt_apply)
  obtain net where "NETWORKS (st_network s) = Some net" using page_ok_networks [OF assms(2)] by blast
  then have w: "wallet_of E m net ?t"
    using page_ok_onboarding [OF assms(2,3)] by (intro empty_wallet) (simp_all add: act_simps adopted_parts)
  have "st_mnemonic ?t = Some m" "ls_encrypted (ls ?t) = None"
    using page_ok_onboarding [OF assms(2,3)] by (simp_all add: act_simps adopted_parts)
  then show "on (snd (quizVerify E s)) ''home''" "shown (snd (quizVerify E s)) ''tabbar''" "st_mnemonic (snd (quizVerify E s)) = Some m"
    "\<not> isPinSet (ls (snd (quizVerify E s)))"
    using enterWallet_run [OF assms(1) w] unfolding r vault_eq shell_eq by (simp_all add: on_def covered_def shown_def isPinSet_def)
qed

lemma settings_lock_card:
  "\<not> isPinSet (ls s) \<Longrightarrow> shown (snd (showScreen E ''settings'' s)) ''lock-not-set''"
  by (simp add: showScreen_def act_simps loadSettings_def refreshLockCardVisibility_def stopTxPolling_def
      refreshThemeButtons_def refreshMsgSignAddressList_def shown_def tabs_def Let_def)

section \<open>Properties\<close>

text \<open>
  C2: In every state the page can reach, each key in memory is the one derived from the phrase in
  memory for its index on the selected network, and each address in memory is the address of the
  key with its index. Switching the network, locking, unlocking, restoring and wiping never leave
  a key of another phrase or network behind.
\<close>

theorem reachable_keys_derived:
  assumes "hashes_ok E" and "aes_ok E" and "store_ok E l" and "reachable E l s"
  shows "derived E s"
  using reachable_page_ok [OF assms] by (simp add: page_ok_def)

theorem reachable_keys_derived_witness: "derived demo_env demo_loaded"
  by (rule reachable_keys_derived [OF demo_hashes_ok demo_aes_ok demo_stores(1) reachable.start])

text \<open>
  C3: In every state the page can reach, the phrase in memory is also in the storage, in plain
  text or in a blob that some PIN opens; the storage never holds both forms; and a blob in the
  storage can be opened with some PIN.
\<close>

theorem reachable_phrase_recoverable:
  assumes "hashes_ok E" and "aes_ok E" and "store_ok E l" and "reachable E l s"
  shows "(\<forall>m. st_mnemonic s = Some m \<longrightarrow> recoverable E (ls s) m)
    \<and> (ls_mnemonic (ls s) = None \<or> ls_encrypted (ls s) = None)
    \<and> (\<forall>b. ls_encrypted (ls s) = Some b \<longrightarrow> (\<exists>pin m. decryptMnemonic (e_webcrypto E) b pin = Inr m))"
  using reachable_page_ok [OF assms] by (simp add: page_ok_def store_ok_def)

theorem reachable_phrase_recoverable_witness: "recoverable demo_env (ls demo_loaded) ''abc''"
  using reachable_phrase_recoverable [OF demo_hashes_ok demo_aes_ok demo_stores(1) reachable.start] demo_loaded_parts(1) by blast

text \<open>
  C1: In every state the page can reach, the wallet's phrase is in \<open>state.mnemonic\<close> exactly when the
  page is neither locked nor on the onboarding screen. While the page is locked \<open>state.mnemonic\<close> is
  null, \<open>state.keys\<close> and \<open>state.addresses\<close> are empty, and the storage holds the phrase in encrypted
  form only. This does not extend to \<open>state._pendingMnemonic\<close>, where Create puts the phrase of a new
  wallet: every event except creating again, reloading the page and a confirmed wipe, and so
  locking as well, leaves it as it is.
\<close>

theorem locked_holds_no_key:
  assumes "hashes_ok E" and "aes_ok E" and "store_ok E l" and "reachable E l s"
  shows "(st_mnemonic s \<noteq> None \<longleftrightarrow> \<not> covered s \<and> ui_screen (page s) \<noteq> Some ''onboarding'')
    \<and> (covered s \<longrightarrow> st_mnemonic s = None \<and> st_keys s = Map.empty \<and> st_addresses s = Map.empty
         \<and> ls_mnemonic (ls s) = None \<and> ls_encrypted (ls s) \<noteq> None)
    \<and> (\<forall>e. keeps_pending e \<longrightarrow> st_pendingMnemonic (snd (handler E e s)) = st_pendingMnemonic s)"
proof -
  have p: "page_ok E s" by (rule reachable_page_ok [OF assms])
  then show ?thesis using page_ok_covered [OF p] keepsD [OF pending_event]
    by (auto simp: page_ok_def store_ok_def)
qed

theorem locked_holds_no_key_witness:
  "st_keys (snd (load_page demo_env (initial_state demo_locked [] []))) = Map.empty"
  using locked_holds_no_key [OF demo_hashes_ok demo_aes_ok demo_stores(2) reachable.start]
    load_locked [of demo_locked demo_env "[]" "[]"] by (simp add: demo_locked_def isPinSet_def)

text \<open>
  A page that is locked after a wallet was created on it still has the phrase in the variable
  \<open>_pendingMnemonic\<close>: there is a session that creates a wallet, sets a PIN and locks, and ends
  locked with the phrase of the encrypted blob in that variable.
\<close>

theorem locked_keeps_created_phrase:
  "\<exists>s b m. reachable demo_env demo_empty s \<and> covered s \<and> st_mnemonic s = None
     \<and> ls_encrypted (ls s) = Some b \<and> decryptMnemonic (e_webcrypto demo_env) b ''1234'' = Inr m \<and> st_pendingMnemonic s = Some m"
proof -
  have store: "store_ok demo_env demo_empty" by (simp add: store_ok_def demo_empty_def demo_store_def)
  note ok = reachable_page_ok [OF demo_hashes_ok demo_aes_ok store]
  define h where "h = snd (handler demo_env (OnOnboarding QuizVerify) demo_answered)"
  define t where "t = snd (handler demo_env (Tab ''settings'') h)"
  define u where "u = snd (handler demo_env (Typed ''set-pin-confirm'' ''1234'') (snd (handler demo_env (Typed ''set-pin'' ''1234'') t)))"
  define v where "v = snd (handler demo_env (OnSettings (SetPin [1] [2])) u)"
  define w where "w = snd (handler demo_env (OnSettings LockNow) v)"
  have "list_all (quiz_correct (js_split (CHR '' '') demo_phrase)) (ui_quiz (page demo_answered))"
    by (simp add: demo_answered_parts(5) quiz_correct_def demo_phrase_def js_split_def js_get_def) code_simp
  note q = quiz_enters [OF demo_hashes_ok ok [OF demo_answered_parts(1)] demo_answered_parts(2,4) this]
  have h: "on h ''home''" "shown h ''tabbar''" "st_mnemonic h = Some demo_phrase" "\<not> isPinSet (ls h)" using q by (simp_all add: h_def)
  have rh: "reachable demo_env demo_empty h"
    unfolding h_def by (rule event_reachable [OF demo_answered_parts(1)]) (use demo_answered_parts in simp)
  have rt: "reachable demo_env demo_empty t"
    unfolding t_def by (rule event_reachable [OF rh]) (use h in \<open>simp add: on_def tabs_def\<close>)
  have "on t ''settings''" using showScreen_shell(2) [of demo_env "''settings''" h] h(1)
    unfolding shell_eq by (simp add: t_def on_def covered_def)
  then have u: "on u ''settings''" "pin_accepted u" "ui_field (page u) ''set-pin'' = ''1234''"
    by (simp_all add: u_def act_simps on_def covered_def pin_accepted_def)
  have ru: "reachable demo_env demo_empty u"
    unfolding u_def by (rule event_reachable [OF event_reachable [OF rt]]) simp_all
  have "st_mnemonic t = Some demo_phrase"
    using held_after [OF held_showScreen, of demo_env h "''settings''"] ok [OF rh] h(3) unfolding vault_eq
    by (simp add: t_def page_ok_def)
  then have "st_mnemonic u = Some demo_phrase" by (simp add: u_def act_simps)
  note l = pin_then_lock [OF ok [OF ru] demo_aes_ok u(1,2) this, of "[1]" "[2]", folded v_def, folded w_def]
  have "offered u (OnSettings (SetPin [1] [2]))"
    using u(1) settings_lock_card [OF h(4), of demo_env] by (simp add: u_def t_def act_simps shown_def)
  then have "reachable demo_env demo_empty w"
    unfolding w_def v_def by (intro event_reachable [OF event_reachable [OF ru]] l(3) [unfolded v_def])
  moreover have "st_pendingMnemonic w = Some demo_phrase"
    unfolding w_def v_def u_def t_def h_def
    by (intro keepsD [OF pending_event] demo_answered_parts(4)) simp_all
  moreover have "st_mnemonic w = None" using page_ok_covered [OF l(5,6)] by simp
  ultimately show ?thesis
    using l(6-8) u(3) blob_opens [OF demo_aes_ok] by auto
qed

text \<open>
  C6: A locked page can always be unlocked. Some PIN opens the stored blob. Typing a PIN that
  opens it and pressing Unlock leads to the home screen with the decrypted phrase in memory;
  typing any other PIN leaves the page locked, without a phrase and with the error shown.
\<close>

theorem locked_opens_with_pin:
  assumes "hashes_ok E" and "aes_ok E" and "store_ok E l" and "reachable E l s" and "covered s"
  shows "\<exists>b. ls_encrypted (ls s) = Some b \<and> (\<exists>pin m. decryptMnemonic (e_webcrypto E) b pin = Inr m)
    \<and> (\<forall>pin. let t = snd (handler E Unlock (snd (handler E (Typed ''lock-pin'' pin) s))) in reachable E l t
        \<and> (case decryptMnemonic (e_webcrypto E) b pin of
             Inr m \<Rightarrow> on t ''home'' \<and> st_mnemonic t = Some m
           | Inl e \<Rightarrow> covered t \<and> st_mnemonic t = None \<and> ui_text (page t) ''lock-error'' = ''Incorrect PIN.''))"
proof -
  have p: "page_ok E s" by (rule reachable_page_ok [OF assms(1-4)])
  obtain b where b: "ls_encrypted (ls s) = Some b" using page_ok_covered [OF p assms(5)] by blast
  have r: "reachable E l (snd (handler E Unlock (snd (handler E (Typed ''lock-pin'' pin) s))))" for pin
    using assms(5) by (intro event_reachable assms(4)) (simp_all add: covered_def act_simps)
  have "\<exists>pin m. decryptMnemonic (e_webcrypto E) b pin = Inr m" using p b by (auto simp: page_ok_def store_ok_def)
  then show ?thesis using b r unlock_pin [OF assms(1) p assms(5) b]
    by (auto simp: Let_def split: sum.split)
qed

theorem locked_opens_with_pin_witness:
  "\<exists>t. reachable demo_env demo_locked t \<and> on t ''home'' \<and> st_mnemonic t = Some ''abc''"
proof -
  let ?s = "snd (load_page demo_env (initial_state demo_locked [] []))"
  have c: "covered ?s" by (rule load_locked) (simp add: demo_locked_def isPinSet_def)
  have "ls ?s = demo_locked" by (rule load_locked_ls) (simp add: demo_locked_def isPinSet_def)
  then have b: "ls_encrypted (ls ?s) = Some (encryptMnemonic demo_webcrypto [1] [2] ''abc'' ''1234'')" by (simp add: demo_locked_def)
  have w: "e_webcrypto demo_env = demo_webcrypto" by (simp add: demo_env_def)
  let ?t = "snd (handler demo_env Unlock (snd (handler demo_env (Typed ''lock-pin'' ''1234'') ?s)))"
  have "reachable demo_env demo_locked ?t \<and> (case decryptMnemonic demo_webcrypto (encryptMnemonic demo_webcrypto [1] [2] ''abc'' ''1234'') ''1234'' of
      Inr m \<Rightarrow> on ?t ''home'' \<and> st_mnemonic ?t = Some m
    | Inl e \<Rightarrow> covered ?t \<and> st_mnemonic ?t = None \<and> ui_text (page ?t) ''lock-error'' = ''Incorrect PIN.'')"
    using locked_opens_with_pin [OF demo_hashes_ok demo_aes_ok demo_stores(2) reachable.start c]
    unfolding b w Let_def option.inject by blast
  then show ?thesis unfolding demo_blob_opens by auto
qed

text \<open>
  C9: In every state the page can reach, the timer that looks for new transactions runs only while
  the home or the history screen is shown and the page is not locked.
\<close>

theorem polling_only_when_shown:
  assumes "hashes_ok E" and "aes_ok E" and "store_ok E l" and "reachable E l s" and "v_txPolling s"
  shows "(on s ''home'' \<or> on s ''history'') \<and> st_mnemonic s \<noteq> None"
  using reachable_page_ok [OF assms(1-4)] assms(5) by (auto simp: page_ok_def on_def)

theorem polling_only_when_shown_witness: "v_txPolling demo_loaded \<and> (on demo_loaded ''home'' \<or> on demo_loaded ''history'')"
  using polling_only_when_shown [OF demo_hashes_ok demo_aes_ok demo_stores(1) reachable.start] demo_loaded_parts(5) by blast

text \<open>
  C5: Confirming a payment, bumping the fee of one and broadcasting a multisig transaction are the
  only events whose handling can send a broadcast request to the gateway; whatever state the page
  is in and whatever the gateway answers, every other event appends requests of other kinds only.
\<close>

theorem only_confirmations_broadcast:
  assumes "\<not> broadcasting e"
  shows "\<exists>qs. requests (snd (handler E e s)) = requests s @ qs \<and> list_all (\<lambda>q. \<not> broadcasts q) qs"
  using sent_sinceI [OF sent_event [OF assms]] by (simp add: sent_since_def)

theorem only_confirmations_broadcast_witness:
  "\<exists>qs. requests (snd (handler demo_env (Tab ''send'') demo_app)) = requests demo_app @ qs \<and> list_all (\<lambda>q. \<not> broadcasts q) qs"
  by (rule only_confirmations_broadcast) simp

text \<open>
  C8: Setting a PIN, locking, typing the PIN and unlocking brings back the same phrase on the home
  screen. After the PIN is set the storage has the phrase in encrypted form only, and while locked
  \<open>state.mnemonic\<close> is null.
\<close>

theorem pin_lock_unlock_roundtrip:
  fixes salt iv :: bytes
  assumes "hashes_ok E" and "aes_ok E" and "store_ok E l" and "reachable E l s"
    and "on s ''settings''" and "pin_accepted s"
  defines "t \<equiv> snd (handler E (OnSettings (SetPin salt iv)) s)"
  defines "u \<equiv> snd (handler E (OnSettings LockNow) t)"
  defines "v \<equiv> snd (handler E Unlock (snd (handler E (Typed ''lock-pin'' (ui_field (page s) ''set-pin'')) u)))"
  shows "ls_mnemonic (ls t) = None \<and> isPinSet (ls t) \<and> offered t (OnSettings LockNow)
    \<and> covered u \<and> st_mnemonic u = None \<and> on v ''home'' \<and> st_mnemonic v = st_mnemonic s"
proof -
  have p: "page_ok E s" by (rule reachable_page_ok [OF assms(1-4)])
  obtain m where m: "st_mnemonic s = Some m" using page_ok_settings [OF p assms(5)] by blast
  note l = pin_then_lock [OF p assms(2,5,6) m, of salt iv, folded t_def, folded u_def]
  have "on v ''home'' \<and> st_mnemonic v = Some m" unfolding v_def
    using l(5-8) blob_opens [OF assms(2)] by (intro unlock_pin(1) [OF assms(1)]) simp_all
  then show ?thesis using l m page_ok_covered [of E u] by (simp add: isPinSet_def)
qed

theorem pin_lock_unlock_roundtrip_witness:
  "covered (snd (handler demo_env (OnSettings LockNow) (snd (handler demo_env (OnSettings (SetPin [1] [2])) demo_settings))))"
  using pin_lock_unlock_roundtrip [OF demo_hashes_ok demo_aes_ok demo_stores(1) demo_settings_reachable] by blast

text \<open>
  C29: Wiping, once confirmed, leaves no phrase, key or address in memory and neither the phrase,
  the encrypted blob, the address indices of both networks, the address book nor the staking token
  in the storage, and shows the onboarding screen. The list of sent transactions, the watch list,
  the theme and the network stay.
\<close>

theorem wipe_forgets:
  "let t = snd (wipe E True s) in st_mnemonic t = None \<and> st_keys t = Map.empty \<and> st_addresses t = Map.empty \<and> on t ''onboarding''
    \<and> ls_mnemonic (ls t) = None \<and> ls_encrypted (ls t) = None \<and> ls_indices (ls t) ''mainnet'' = None
    \<and> ls_indices (ls t) ''testnet'' = None \<and> ls_book (ls t) = None \<and> ss_stakeToken (ls t) = None
    \<and> ls_sent (ls t) = ls_sent (ls s) \<and> ls_watch (ls t) = ls_watch (ls s) \<and> ls_network (ls t) = ls_network (ls s)
    \<and> ls_theme (ls t) = ls_theme (ls s)"
  using wipe_run [of E s] by (simp add: wiped_def Let_def)

text \<open>
  C7: Loading the page again in any state with a phrase in memory brings the wallet back: without
  a PIN the home screen with the same phrase, with a PIN the locked page, from which a PIN leads
  to the home screen with the same phrase.
\<close>

theorem reload_keeps_wallet:
  assumes "hashes_ok E" and "aes_ok E" and "store_ok E l" and "reachable E l s" and "st_mnemonic s = Some m" and "m \<noteq> []"
  defines "t \<equiv> snd (handler E Reload s)"
  shows "if isPinSet (ls s)
    then covered t \<and> (\<exists>pin. let u = snd (handler E Unlock (snd (handler E (Typed ''lock-pin'' pin) t)))
           in on u ''home'' \<and> st_mnemonic u = Some m)
    else on t ''home'' \<and> st_mnemonic t = Some m"
proof -
  have p: "page_ok E s" by (rule reachable_page_ok [OF assms(1-4)])
  then have l: "store_ok E (ls s)" "recoverable E (ls s) m" using assms(5) by (simp_all add: page_ok_def)
  show ?thesis
  proof (cases "isPinSet (ls s)")
    case True
    then obtain b pin where b: "ls_encrypted (ls s) = Some b" "decryptMnemonic (e_webcrypto E) b pin = Inr m"
      using l by (auto simp: recoverable_def isPinSet_def store_ok_def)
    have t: "page_ok E t" "covered t" "ls t = ls s"
      unfolding t_def reload_run using page_ok_load [OF assms(1) l(1)] load_locked [OF True] load_locked_ls [OF True] by blast+
    then show ?thesis using True unlock_pin(1) [OF assms(1) t(1,2)] b by (auto simp: Let_def)
  next
    case False
    then have "ls_mnemonic (ls s) = Some m" using l(2) by (auto simp: recoverable_def isPinSet_def)
    then show ?thesis using False load_plain [OF assms(1) l(1) False _ assms(6)] unfolding t_def reload_run by simp
  qed
qed

theorem reload_keeps_wallet_witness:
  "on (snd (handler demo_env Reload demo_loaded)) ''home'' \<and> st_mnemonic (snd (handler demo_env Reload demo_loaded)) = Some ''abc''"
  using reload_keeps_wallet [OF demo_hashes_ok demo_aes_ok demo_stores(1) reachable.start demo_loaded_parts(1)] demo_loaded_parts(2)
  by simp

end
