(* ===== verification/Checkout.thy ===== *)
theory Checkout
  imports Wallet
begin

text \<open>
  The merchant widget (checkout-widget/checkout.js), which polls the balance of an address and
  calls the merchant back once the balance has risen by the amount due. The callbacks are the
  merchant's code: arguments that may throw and may call \<open>stop\<close>. The widget is a state machine
  whose steps interleave the answer to a balance request, the timer, \<open>stop\<close> and the drawing of the
  QR code, so that \<open>stop\<close> can come while a request is on its way.

  The properties: the merchant is told of a payment at most once and only of a sufficient rise;
  \<open>stop\<close> ends the requests, but not the callback of a request already on its way; and with
  callbacks that return, a sequence of answers leads to the callback exactly when the balances in
  it rise by the amount due.
\<close>

section \<open>Definitions\<close>

text \<open>What the widget told the merchant.\<close>

datatype callback = Detected string | Errored js_error

text \<open>
  A callback gets the earlier calls besides its argument, so that it may depend on them. It says
  whether it called \<open>stop\<close>, and returns or throws.
\<close>

record checkout_opts =
  co_address :: string
  co_amountCac :: json
  co_gatewayUrl :: string
  co_onDetected :: "(callback list \<Rightarrow> string \<Rightarrow> bool \<times> unit res) option"
  co_onError :: "(callback list \<Rightarrow> js_error \<Rightarrow> bool \<times> unit res) option"

text \<open>
  \<open>cw_timer\<close>: a timeout is pending. \<open>cw_flight\<close>: the number of calls of \<open>poll\<close> that wait for a
  balance. \<open>cw_qr\<close>: the QR code is being drawn.
\<close>

record widget =
  cw_amount :: int
  cw_html :: string
  cw_status :: string
  cw_color :: string
  cw_baseline :: "int option"
  cw_detected :: bool
  cw_stopped :: bool
  cw_timer :: bool
  cw_flight :: nat
  cw_qr :: bool
  cw_calls :: "callback list"
  cw_requests :: "request list"

definition checkout_html :: "int \<Rightarrow> string \<Rightarrow> string" where
  "checkout_html amountSatoshis address = js_join [CHR 0x0A]
     [[],
      ''    <div class=\"cac-checkout\" style=\"font-family:-apple-system,sans-serif;max-width:320px;text-align:center;color:#ece7e0;background:#1c1922;border:1px solid #322c3a;border-radius:12px;padding:20px;\">'',
      ''      <div style=\"font-size:13px;color:#9b93a3;margin-bottom:8px;\">Pay with CodexaCoin</div>'',
      ''      <div style=\"font-size:20px;font-weight:700;color:#f0c350;margin-bottom:12px;\">'' @ formatCac amountSatoshis @ '' CAC</div>'',
      ''      <canvas class=\"cac-checkout-qr\"></canvas>'',
      ''      <div style=\"font-family:ui-monospace,monospace;font-size:12px;word-break:break-all;margin:10px 0;\">'' @ address @ ''</div>'',
      ''      <div class=\"cac-checkout-status\" style=\"font-size:13px;color:#9b93a3;\">Waiting for payment&hellip;</div>'',
      ''    </div>'',
      ''  '']"

definition balance_request :: "checkout_opts \<Rightarrow> request" where
  "balance_request opts = \<lparr>rq_method = ''GET'', rq_url = co_gatewayUrl opts @ ''/v1/address/'' @ co_address opts @ ''/balance'',
     rq_auth = None, rq_body = None\<rparr>"

text \<open>\<open>fetchBalance\<close> from the answer to its request, which is an error when \<open>fetch\<close> rejects.\<close>

definition fetchBalance :: "response res \<Rightarrow> int res" where
  "fetchBalance answer =
     bindE answer (\<lambda>resp.
     bindE (resp_json resp) (\<lambda>data.
       if \<not> resp_ok resp
       then bindE (jget data ''error'') (\<lambda>e.
            Inl (JsError (jtext (jor (jget_opt e ''message'') (JStr (''Request failed ('' @ dec (resp_status resp) @ '')''))))))
       else bindE (bindE (jget data ''confirmed'') jBigInt) (\<lambda>confirmed.
            bindE (bindE (jget data ''unconfirmed'') jBigInt) (\<lambda>unconfirmed.
            Inr (confirmed + unconfirmed)))))"

definition stop :: "widget \<Rightarrow> widget" where
  "stop w = w\<lparr>cw_stopped := True, cw_timer := False\<rparr>"

definition call_detected :: "checkout_opts \<Rightarrow> string \<Rightarrow> widget \<Rightarrow> unit res \<times> widget" where
  "call_detected opts balance w =
     (case co_onDetected opts of
        None \<Rightarrow> (Inr (), w)
      | Some f \<Rightarrow> (case f (cw_calls w) balance of (stops, r) \<Rightarrow>
          let w1 = w\<lparr>cw_calls := cw_calls w @ [Detected balance]\<rparr> in (r, if stops then stop w1 else w1)))"

definition call_error :: "checkout_opts \<Rightarrow> js_error \<Rightarrow> widget \<Rightarrow> unit res \<times> widget" where
  "call_error opts e w =
     (case co_onError opts of
        None \<Rightarrow> (Inr (), w)
      | Some f \<Rightarrow> (case f (cw_calls w) e of (stops, r) \<Rightarrow>
          let w1 = w\<lparr>cw_calls := cw_calls w @ [Errored e]\<rparr> in (r, if stops then stop w1 else w1)))"

text \<open>\<open>poll\<close> up to its request; the rest of it once the answer is there.\<close>

definition poll :: "checkout_opts \<Rightarrow> widget \<Rightarrow> widget" where
  "poll opts w = (if cw_stopped w then w
     else w\<lparr>cw_flight := Suc (cw_flight w), cw_requests := cw_requests w @ [balance_request opts]\<rparr>)"

definition arm :: "widget \<Rightarrow> widget" where
  "arm w = (if cw_stopped w then w else w\<lparr>cw_timer := True\<rparr>)"

definition poll_failed :: "checkout_opts \<Rightarrow> js_error \<Rightarrow> widget \<Rightarrow> widget" where
  "poll_failed opts e w =
     (case call_error opts e (w\<lparr>cw_status := ''Could not check payment status -- retrying...''\<rparr>) of
        (Inr _, w1) \<Rightarrow> arm w1
      | (Inl _, w1) \<Rightarrow> w1)"

definition payment_received :: "checkout_opts \<Rightarrow> int \<Rightarrow> widget \<Rightarrow> widget" where
  "payment_received opts balance w =
     (case call_detected opts (dec_int balance)
             (w\<lparr>cw_detected := True, cw_status := ''Payment received!'', cw_color := ''#6fcf97''\<rparr>) of
        (Inr _, w1) \<Rightarrow> stop w1
      | (Inl e, w1) \<Rightarrow> poll_failed opts e w1)"

definition poll_answered :: "checkout_opts \<Rightarrow> response res \<Rightarrow> widget \<Rightarrow> widget" where
  "poll_answered opts answer w0 =
     (let w = w0\<lparr>cw_flight := cw_flight w0 - 1\<rparr> in
      case fetchBalance answer of
        Inl e \<Rightarrow> poll_failed opts e w
      | Inr balance \<Rightarrow>
          (case cw_baseline w of
             None \<Rightarrow> arm (w\<lparr>cw_baseline := Some balance\<rparr>)
           | Some baseline \<Rightarrow>
               if \<not> cw_detected w \<and> cw_amount w \<le> balance - baseline then payment_received opts balance w
               else arm w))"

text \<open>
  \<open>createCheckout\<close>; \<open>found\<close> says whether the container exists. The drawing of the QR code may fail
  later.
\<close>

definition createCheckout :: "checkout_opts \<Rightarrow> bool \<Rightarrow> widget res" where
  "createCheckout opts found =
     bindE (to_satoshis (js_Number (co_amountCac opts))) (\<lambda>amountSatoshis.
       if \<not> found then Inl (JsError ''createCheckout: container not found'')
       else Inr (poll opts
         \<lparr>cw_amount = amountSatoshis, cw_html = checkout_html amountSatoshis (co_address opts), cw_status = ''Waiting for payment&hellip;'',
          cw_color = ''#9b93a3'', cw_baseline = None, cw_detected = False, cw_stopped = False, cw_timer = False, cw_flight = 0,
          cw_qr = True, cw_calls = [], cw_requests = []\<rparr>))"

definition timer_fires :: "checkout_opts \<Rightarrow> widget \<Rightarrow> widget" where
  "timer_fires opts w = poll opts (w\<lparr>cw_timer := False\<rparr>)"

definition qr_failed :: "checkout_opts \<Rightarrow> js_error \<Rightarrow> widget \<Rightarrow> widget" where
  "qr_failed opts e w = snd (call_error opts e (w\<lparr>cw_qr := False\<rparr>))"

inductive checkout_step :: "checkout_opts \<Rightarrow> widget \<Rightarrow> widget \<Rightarrow> bool" for opts where
  answered: "0 < cw_flight w \<Longrightarrow> checkout_step opts w (poll_answered opts answer w)"
| fires: "cw_timer w \<Longrightarrow> checkout_step opts w (timer_fires opts w)"
| stops: "checkout_step opts w (stop w)"
| drawn: "cw_qr w \<Longrightarrow> checkout_step opts w (w\<lparr>cw_qr := False\<rparr>)"
| not_drawn: "cw_qr w \<Longrightarrow> checkout_step opts w (qr_failed opts e w)"

inductive checkout_run :: "checkout_opts \<Rightarrow> widget \<Rightarrow> bool" for opts where
  created: "createCheckout opts found = Inr w \<Longrightarrow> checkout_run opts w"
| continued: "checkout_run opts w \<Longrightarrow> checkout_step opts w v \<Longrightarrow> checkout_run opts v"

text \<open>Rounds of an undisturbed widget: an answer arrives, and then the timer fires if it is set.\<close>

definition round_of :: "checkout_opts \<Rightarrow> response res \<Rightarrow> widget \<Rightarrow> widget" where
  "round_of opts answer w = (if cw_flight w = 0 then w
     else let v = poll_answered opts answer w in if cw_timer v then timer_fires opts v else v)"

text \<open>Callbacks that return and do not call \<open>stop\<close>.\<close>

definition cooperative :: "checkout_opts \<Rightarrow> bool" where
  "cooperative opts \<longleftrightarrow> (\<forall>f. co_onDetected opts = Some f \<longrightarrow> (\<forall>c x. f c x = (False, Inr ())))
     \<and> (\<forall>f. co_onError opts = Some f \<longrightarrow> (\<forall>c e. f c e = (False, Inr ())))"

text \<open>The payment in a sequence of results: the first balance that exceeds the first one by the amount.\<close>

definition successes :: "'a res list \<Rightarrow> 'a list" where
  "successes rs = concat (map (\<lambda>r. case r of Inl e \<Rightarrow> [] | Inr x \<Rightarrow> [x]) rs)"

definition payment :: "int \<Rightarrow> int res list \<Rightarrow> int option" where
  "payment amount rs = (case successes rs of [] \<Rightarrow> None | b # xs \<Rightarrow> find (\<lambda>x. amount \<le> x - b) xs)"

section \<open>Lemmas\<close>

subsection \<open>What a step changes\<close>

definition detections :: "widget \<Rightarrow> callback list" where
  "detections w = filter (\<lambda>c. case c of Detected _ \<Rightarrow> True | Errored _ \<Rightarrow> False) (cw_calls w)"

definition told :: "checkout_opts \<Rightarrow> int \<Rightarrow> callback list" where
  "told opts x = (if co_onDetected opts = None then [] else [Detected (dec_int x)])"

text \<open>
  \<open>v\<close> comes from \<open>w\<close> by telling the merchant of the payments \<open>ds\<close> and possibly of errors, and by
  possibly being stopped or setting the timer.
\<close>

definition moved :: "widget \<Rightarrow> callback list \<Rightarrow> widget \<Rightarrow> bool" where
  "moved w ds v \<longleftrightarrow> cw_amount v = cw_amount w \<and> cw_baseline v = cw_baseline w \<and> cw_flight v = cw_flight w
     \<and> cw_requests v = cw_requests w \<and> detections v = detections w @ ds \<and> (cw_stopped w \<longrightarrow> cw_stopped v)
     \<and> ((cw_stopped w \<longrightarrow> \<not> cw_timer w) \<longrightarrow> cw_stopped v \<longrightarrow> \<not> cw_timer v)"

lemma moved_trans: "moved w ds u \<Longrightarrow> moved u es v \<Longrightarrow> moved w (ds @ es) v"
  by (auto simp: moved_def)

lemma moved_stop: "moved w [] (stop w)" "cw_detected (stop w) = cw_detected w"
  by (simp_all add: moved_def stop_def detections_def)

lemma moved_arm: "moved w [] (arm w)" "cw_detected (arm w) = cw_detected w"
  by (simp_all add: moved_def arm_def detections_def)

lemma moved_call_error:
  "moved w [] (snd (call_error opts e w))" "cw_detected (snd (call_error opts e w)) = cw_detected w"
  "cw_timer (snd (call_error opts e w)) \<Longrightarrow> cw_timer w \<and> cw_stopped (snd (call_error opts e w)) = cw_stopped w"
  by (auto simp: moved_def call_error_def detections_def stop_def Let_def split: option.splits prod.splits if_splits)

lemma moved_call_detected:
  "moved w (told opts x) (snd (call_detected opts (dec_int x) w))"
  "cw_detected (snd (call_detected opts (dec_int x) w)) = cw_detected w"
  by (auto simp: moved_def call_detected_def detections_def told_def stop_def Let_def split: option.split prod.split)

lemma moved_failed: "moved w [] (poll_failed opts e w)" "cw_detected (poll_failed opts e w) = cw_detected w"
proof -
  let ?w = "w\<lparr>cw_status := ''Could not check payment status -- retrying...''\<rparr>"
  let ?u = "snd (call_error opts e ?w)"
  have v: "poll_failed opts e w = ?u \<or> poll_failed opts e w = arm ?u"
    unfolding poll_failed_def by (cases "call_error opts e ?w") (auto split: sum.split)
  have "moved w [] ?w" by (simp add: moved_def detections_def)
  from moved_trans [OF this moved_call_error(1)] have u: "moved w [] ?u" by simp
  from v u moved_trans [OF u moved_arm(1)] show "moved w [] (poll_failed opts e w)" by auto
  show "cw_detected (poll_failed opts e w) = cw_detected w" using v moved_call_error(2) [where w = ?w] moved_arm(2) [of ?u] by auto
qed

lemma moved_received: "moved w (told opts x) (payment_received opts x w)" "cw_detected (payment_received opts x w)"
proof -
  let ?w = "w\<lparr>cw_detected := True, cw_status := ''Payment received!'', cw_color := ''#6fcf97''\<rparr>"
  let ?u = "snd (call_detected opts (dec_int x) ?w)"
  have v: "payment_received opts x w = stop ?u \<or> (\<exists>e. payment_received opts x w = poll_failed opts e ?u)"
    unfolding payment_received_def by (cases "call_detected opts (dec_int x) ?w") (auto split: sum.split)
  have "moved w [] ?w" by (simp add: moved_def detections_def)
  from moved_trans [OF this moved_call_detected(1)] have u: "moved w (told opts x) ?u" by simp
  from v moved_trans [OF u moved_stop(1)] moved_trans [OF u moved_failed(1)]
  show "moved w (told opts x) (payment_received opts x w)" by auto
  show "cw_detected (payment_received opts x w)"
    using v moved_call_detected(2) [where w = ?w] moved_stop(2) [of ?u] moved_failed(2) [where w = ?u] by auto
qed

lemma answer_cases:
  fixes w answer opts
  defines "w1 \<equiv> w\<lparr>cw_flight := cw_flight w - 1\<rparr>"
  obtains
    (failed) e where "fetchBalance answer = Inl e" "poll_answered opts answer w = poll_failed opts e w1"
  | (first) x where "fetchBalance answer = Inr x" "cw_baseline w = None"
      "poll_answered opts answer w = arm (w1\<lparr>cw_baseline := Some x\<rparr>)"
  | (paid) x b where "fetchBalance answer = Inr x" "cw_baseline w = Some b" "\<not> cw_detected w" "cw_amount w \<le> x - b"
      "poll_answered opts answer w = payment_received opts x w1"
  | (waiting) x b where "fetchBalance answer = Inr x" "cw_baseline w = Some b" "cw_detected w \<or> x - b < cw_amount w"
      "poll_answered opts answer w = arm w1"
proof (cases "fetchBalance answer")
  case (Inl e)
  then show ?thesis by (intro failed) (simp_all add: poll_answered_def w1_def)
next
  case (Inr x)
  show ?thesis
  proof (cases "cw_baseline w")
    case None
    then show ?thesis using Inr by (intro first) (simp_all add: poll_answered_def w1_def)
  next
    case (Some b)
    then show ?thesis using Inr paid [OF Inr Some] waiting [OF Inr Some]
      by (cases "\<not> cw_detected w \<and> cw_amount w \<le> x - b") (auto simp: poll_answered_def w1_def)
  qed
qed

subsection \<open>The invariant\<close>

definition checkout_ok :: "checkout_opts \<Rightarrow> widget \<Rightarrow> bool" where
  "checkout_ok opts w \<longleftrightarrow> cw_flight w \<le> 1 \<and> (cw_timer w \<longrightarrow> cw_flight w = 0 \<and> \<not> cw_stopped w)
     \<and> (if cw_detected w then \<exists>b x. cw_baseline w = Some b \<and> cw_amount w \<le> x - b \<and> detections w = told opts x
        else detections w = [])"

lemma checkout_ok_moved:
  "checkout_ok opts w \<Longrightarrow> moved w [] v \<Longrightarrow> cw_detected v = cw_detected w \<Longrightarrow> cw_flight w = 0 \<Longrightarrow> \<not> cw_timer w \<Longrightarrow> checkout_ok opts v"
  by (auto simp: checkout_ok_def moved_def)

lemma checkout_ok_answered:
  assumes "checkout_ok opts w" "0 < cw_flight w"
  shows "checkout_ok opts (poll_answered opts answer w)"
proof -
  let ?w = "w\<lparr>cw_flight := cw_flight w - 1\<rparr>"
  have w: "checkout_ok opts ?w" "cw_flight ?w = 0" "\<not> cw_timer ?w" using assms by (auto simp: checkout_ok_def detections_def)
  show ?thesis
  proof (cases rule: answer_cases [of answer opts w])
    case (failed e)
    then show ?thesis using checkout_ok_moved [OF w(1) moved_failed w(2,3)] by simp
  next
    case (first x)
    then show ?thesis using w by (auto simp: checkout_ok_def arm_def detections_def)
  next
    case (paid x b)
    then show ?thesis using w moved_received [where w = ?w and opts = opts and x = x]
      by (auto simp: checkout_ok_def moved_def)
  next
    case (waiting x b)
    then show ?thesis using checkout_ok_moved [OF w(1) moved_arm w(2,3)] by simp
  qed
qed

lemma checkout_ok_step: "checkout_step opts w v \<Longrightarrow> checkout_ok opts w \<Longrightarrow> checkout_ok opts v"
proof (induction rule: checkout_step.induct)
  case (answered w answer)
  then show ?case by (simp add: checkout_ok_answered)
next
  case (not_drawn w e)
  then show ?case using moved_call_error [where w = "w\<lparr>cw_qr := False\<rparr>" and opts = opts and e = e]
    by (auto simp: checkout_ok_def qr_failed_def moved_def detections_def)
qed (auto simp: checkout_ok_def timer_fires_def poll_def stop_def detections_def)

lemma checkout_run_ok: "checkout_run opts w \<Longrightarrow> checkout_ok opts w"
proof (induction rule: checkout_run.induct)
  case (created found w)
  then show ?case by (auto simp: createCheckout_def bindE_eq_Inr checkout_ok_def poll_def detections_def split: if_splits)
qed (rule checkout_ok_step)

lemma stopped_step:
  "checkout_step opts w v \<Longrightarrow> cw_stopped w \<Longrightarrow> \<not> cw_timer w \<Longrightarrow> cw_stopped v \<and> \<not> cw_timer v \<and> cw_requests v = cw_requests w"
proof (induction rule: checkout_step.induct)
  case (answered w answer)
  let ?w = "w\<lparr>cw_flight := cw_flight w - 1\<rparr>"
  show ?case using answered moved_failed(1) [where w = ?w and opts = opts] moved_received(1) [where w = ?w and opts = opts]
    by (cases rule: answer_cases [of answer opts w]) (auto simp: moved_def arm_def)
next
  case (not_drawn w e)
  then show ?case using moved_call_error [where w = "w\<lparr>cw_qr := False\<rparr>" and opts = opts and e = e] by (auto simp: qr_failed_def moved_def)
qed (auto simp: stop_def)

subsection \<open>Rounds\<close>

definition waiting_widget :: "widget \<Rightarrow> bool" where
  "waiting_widget w \<longleftrightarrow> \<not> cw_stopped w \<and> cw_flight w = 1 \<and> \<not> cw_timer w \<and> \<not> cw_detected w"

definition expects :: "widget \<Rightarrow> int res list \<Rightarrow> int option" where
  "expects w rs = (case cw_baseline w of None \<Rightarrow> payment (cw_amount w) rs
     | Some b \<Rightarrow> find (\<lambda>x. cw_amount w \<le> x - b) (successes rs))"

lemma successes_Cons: "successes (Inl e # rs) = successes rs" "successes (Inr x # rs) = x # successes rs"
  by (simp_all add: successes_def)

lemma cooperative_error:
  assumes "cooperative opts"
  shows "\<exists>cs. call_error opts e w = (Inr (), w\<lparr>cw_calls := cw_calls w @ cs\<rparr>) \<and> (\<forall>c\<in>set cs. \<exists>e. c = Errored e)"
proof (cases "co_onError opts")
  case None
  then show ?thesis by (intro exI [of _ "[]"]) (simp add: call_error_def)
next
  case (Some f)
  then have "f c x = (False, Inr ())" for c x using assms by (simp add: cooperative_def)
  then show ?thesis using Some by (intro exI [of _ "[Errored e]"]) (simp add: call_error_def)
qed

lemma cooperative_detected:
  "cooperative opts \<Longrightarrow> fst (call_detected opts t w) = Inr () \<and> cw_stopped (snd (call_detected opts t w)) = cw_stopped w"
  by (auto simp: cooperative_def call_detected_def split: option.split)

lemma fire_armed:
  "\<not> cw_stopped w \<Longrightarrow> (let v = arm w in if cw_timer v then timer_fires opts v else v)
     = w\<lparr>cw_timer := False, cw_flight := Suc (cw_flight w), cw_requests := cw_requests w @ [balance_request opts]\<rparr>"
  by (simp add: arm_def timer_fires_def poll_def)

lemma round_waits:
  assumes "cooperative opts" "waiting_widget w" "\<not> (\<exists>x b. fetchBalance a = Inr x \<and> cw_baseline w = Some b \<and> cw_amount w \<le> x - b)"
  defines "v \<equiv> round_of opts a w"
  shows "waiting_widget v" "detections v = detections w" "expects w (fetchBalance a # rs) = expects v rs"
proof -
  let ?w = "w\<lparr>cw_flight := cw_flight w - 1\<rparr>"
  have "\<exists>cs st bl. poll_answered opts a w = arm (?w\<lparr>cw_status := st, cw_calls := cw_calls w @ cs, cw_baseline := bl\<rparr>)
      \<and> (\<forall>c\<in>set cs. \<exists>e. c = Errored e)
      \<and> bl = (case fetchBalance a of Inl e \<Rightarrow> cw_baseline w | Inr x \<Rightarrow> if cw_baseline w = None then Some x else cw_baseline w)"
  proof (cases rule: answer_cases [of a opts w])
    case (failed e)
    let ?st = "''Could not check payment status -- retrying...''"
    obtain cs where "call_error opts e (?w\<lparr>cw_status := ?st\<rparr>) = (Inr (), ?w\<lparr>cw_status := ?st, cw_calls := cw_calls w @ cs\<rparr>)"
      "\<forall>c\<in>set cs. \<exists>e. c = Errored e"
      using cooperative_error [OF assms(1), of e "?w\<lparr>cw_status := ?st\<rparr>"] by auto
    then show ?thesis using failed
      by (intro exI [of _ cs] exI [of _ ?st] exI [of _ "cw_baseline w"]) (simp add: poll_failed_def)
  next
    case (first x)
    then show ?thesis
      by - (rule exI [of _ "[]"], rule exI [of _ "cw_status w"], rule exI [of _ "Some x"], cases w, simp)
  next
    case (paid x b)
    then show ?thesis using assms(3) by blast
  next
    case (waiting x b)
    then show ?thesis
      by - (rule exI [of _ "[]"], rule exI [of _ "cw_status w"], rule exI [of _ "Some b"], cases w, simp)
  qed
  then obtain cs st bl where p: "poll_answered opts a w = arm (?w\<lparr>cw_status := st, cw_calls := cw_calls w @ cs, cw_baseline := bl\<rparr>)"
    and c: "\<forall>c\<in>set cs. \<exists>e. c = Errored e"
    and b: "bl = (case fetchBalance a of Inl e \<Rightarrow> cw_baseline w | Inr x \<Rightarrow> if cw_baseline w = None then Some x else cw_baseline w)"
    by blast
  have v: "v = ?w\<lparr>cw_status := st, cw_calls := cw_calls w @ cs, cw_baseline := bl, cw_timer := False, cw_flight := 1,
      cw_requests := cw_requests w @ [balance_request opts]\<rparr>"
    using assms(2) unfolding v_def round_of_def p by (simp add: fire_armed waiting_widget_def)
  show "waiting_widget v" using assms(2) by (simp add: v waiting_widget_def)
  have "filter (\<lambda>c. case c of Detected _ \<Rightarrow> True | Errored _ \<Rightarrow> False) cs = []" using c by (auto simp: filter_empty_conv)
  then show "detections v = detections w" by (simp add: v detections_def)
  show "expects w (fetchBalance a # rs) = expects v rs"
    using assms(3) by (cases "fetchBalance a"; cases "cw_baseline w")
      (auto simp: v b expects_def payment_def successes_Cons split: list.split)
qed

lemma round_pays:
  assumes "cooperative opts" "waiting_widget w" "fetchBalance a = Inr x" "cw_baseline w = Some b" "cw_amount w \<le> x - b"
  defines "v \<equiv> round_of opts a w"
  shows "cw_flight v = 0" "cw_stopped v" "detections v = detections w @ told opts x" "expects w (fetchBalance a # rs) = Some x"
proof -
  let ?w = "w\<lparr>cw_flight := cw_flight w - 1\<rparr>"
  have p: "poll_answered opts a w = payment_received opts x ?w"
    using assms(2-5) by (cases rule: answer_cases [of a opts w]) (auto simp: waiting_widget_def)
  let ?u = "?w\<lparr>cw_detected := True, cw_status := ''Payment received!'', cw_color := ''#6fcf97''\<rparr>"
  obtain u where "call_detected opts (dec_int x) ?u = (Inr (), u)"
    using cooperative_detected [OF assms(1), of "dec_int x" ?u] by (cases "call_detected opts (dec_int x) ?u") auto
  then have "payment_received opts x ?w = stop u" by (simp add: payment_received_def)
  then have v: "v = payment_received opts x ?w" "cw_stopped v" using assms(2) unfolding v_def round_of_def p
    by (auto simp: waiting_widget_def stop_def)
  then show "cw_flight v = 0" "cw_stopped v" "detections v = detections w @ told opts x"
    using moved_received(1) [where w = ?w and opts = opts and x = x] assms(2) by (auto simp: moved_def waiting_widget_def detections_def)
  show "expects w (fetchBalance a # rs) = Some x" using assms(3-5) by (simp add: expects_def successes_Cons)
qed

lemma rounds_idle: "cw_flight w = 0 \<Longrightarrow> fold (round_of opts) as w = w"
  by (induction "as") (simp_all add: round_of_def)

lemma rounds_expected:
  assumes "cooperative opts" "waiting_widget w" "detections w = []"
  defines "v as \<equiv> fold (round_of opts) as w"
  shows "case expects w (map fetchBalance as) of
      None \<Rightarrow> waiting_widget (v as) \<and> detections (v as) = []
    | Some x \<Rightarrow> cw_stopped (v as) \<and> detections (v as) = told opts x"
  using assms(2,3) unfolding v_def
proof (induction "as" arbitrary: w)
  case Nil
  then show ?case by (simp add: expects_def payment_def successes_def split: option.split)
next
  case (Cons a "as")
  show ?case
  proof (cases "\<exists>x b. fetchBalance a = Inr x \<and> cw_baseline w = Some b \<and> cw_amount w \<le> x - b")
    case True
    then obtain x b where x: "fetchBalance a = Inr x" "cw_baseline w = Some b" "cw_amount w \<le> x - b" by blast
    note p = round_pays [OF assms(1) Cons.prems(1) x]
    show ?thesis using p(1-3) p(4) [where rs = "map fetchBalance as"] Cons.prems(2) by (simp add: rounds_idle)
  next
    case False
    note r = round_waits [OF assms(1) Cons.prems(1) False]
    show ?thesis using Cons.IH [OF r(1)] r(2) r(3) [where rs = "map fetchBalance as"] Cons.prems(2) by (simp split: option.splits)
  qed
qed

lemma round_run: "checkout_run opts w \<Longrightarrow> checkout_run opts (round_of opts a w)"
  by (auto simp: round_of_def Let_def intro: checkout_run.continued checkout_step.answered checkout_step.fires)

lemma rounds_run: "checkout_run opts w \<Longrightarrow> checkout_run opts (fold (round_of opts) as w)"
  by (induction "as" arbitrary: w) (simp_all add: round_run)

lemma created_waits: "createCheckout opts found = Inr w \<Longrightarrow> waiting_widget w \<and> detections w = [] \<and> cw_baseline w = None"
  by (auto simp: createCheckout_def bindE_eq_Inr waiting_widget_def poll_def detections_def split: if_splits)

subsection \<open>A concrete shop\<close>

definition demo_shop :: checkout_opts where
  "demo_shop = \<lparr>co_address = ''m'', co_amountCac = JNum 2, co_gatewayUrl = [],
     co_onDetected = Some (\<lambda>_ _. (False, Inr ())), co_onError = None\<rparr>"

definition demo_balance :: "rat \<Rightarrow> response res" where
  "demo_balance x = Inr \<lparr>resp_ok = True, resp_status = 200, resp_json = Inr (JObj [(''confirmed'', JNum x), (''unconfirmed'', JNum 5)])\<rparr>"

definition demo_widget :: widget where
  "demo_widget = (case createCheckout demo_shop True of Inl e \<Rightarrow> undefined | Inr w \<Rightarrow> w)"

lemma demo_shop_ok: "cooperative demo_shop" "createCheckout demo_shop True = Inr demo_widget" "cw_amount demo_widget = 200000000"
proof -
  have "fl 2 = 2" using fl_int_exact [of 2] by simp
  then have "to_double 2 = Fin 2" by (simp add: to_double_def)
  then have "to_satoshis (Fin 2) = Inr 200000000" using to_satoshis_exact [of 200000000] by simp
  then show "createCheckout demo_shop True = Inr demo_widget" "cw_amount demo_widget = 200000000"
    by (simp_all add: demo_widget_def createCheckout_def demo_shop_def poll_def)
qed (simp add: cooperative_def demo_shop_def)

lemma demo_balances: "fetchBalance (demo_balance 7) = Inr 12" "fetchBalance (demo_balance 200000008) = Inr 200000013"
  by (simp_all add: fetchBalance_def demo_balance_def jget_def jBigInt_def to_BigInt_def)

lemma demo_told: "told demo_shop x = [Detected (dec_int x)]"
  by (simp add: told_def demo_shop_def)

lemmas demo_widget_waits = created_waits [OF demo_shop_ok(2)]

section \<open>Properties\<close>

text \<open>
  C10: In every state the widget can reach, whatever the merchant's callbacks do, the merchant has
  been told of a payment at most once, and only of a balance that exceeds the baseline by at least
  the amount due. At most one request is on its way, and none while the timer is set.
\<close>

theorem checkout_tells_once:
  assumes "checkout_run opts w"
  shows "(if cw_detected w then \<exists>b x. cw_baseline w = Some b \<and> cw_amount w \<le> x - b \<and> detections w = told opts x else detections w = [])
    \<and> length (detections w) \<le> 1 \<and> cw_flight w \<le> 1 \<and> (cw_timer w \<longrightarrow> cw_flight w = 0 \<and> \<not> cw_stopped w)"
  using checkout_run_ok [OF assms] by (auto simp: checkout_ok_def told_def split: if_splits)

theorem checkout_tells_once_witness: "length (detections demo_widget) \<le> 1"
  using checkout_tells_once [OF checkout_run.created [OF demo_shop_ok(2)]] by blast

text \<open>
  C12: \<open>stop\<close> ends the requests: no step of a stopped widget sends another one. It does not cancel
  a request on its way: when that is answered with a sufficient balance, the merchant is still
  told of the payment, after \<open>stop\<close>.
\<close>

theorem stop_ends_requests_only:
  assumes "checkout_run opts w"
  shows "(checkout_step opts (stop w) v \<longrightarrow> cw_stopped v \<and> \<not> cw_timer v \<and> cw_requests v = cw_requests w)
    \<and> (0 < cw_flight w \<and> \<not> cw_detected w \<and> cw_baseline w = Some b \<and> fetchBalance answer = Inr x \<and> cw_amount w \<le> x - b
        \<longrightarrow> checkout_run opts (poll_answered opts answer (stop w))
          \<and> detections (poll_answered opts answer (stop w)) = told opts x)"
proof -
  have "cw_stopped (stop w)" "\<not> cw_timer (stop w)" "cw_requests (stop w) = cw_requests w" by (simp_all add: stop_def)
  then have a: "checkout_step opts (stop w) v \<longrightarrow> cw_stopped v \<and> \<not> cw_timer v \<and> cw_requests v = cw_requests w"
    using stopped_step by metis
  have b: "checkout_run opts (poll_answered opts answer (stop w)) \<and> detections (poll_answered opts answer (stop w)) = told opts x"
    if h: "0 < cw_flight w" "\<not> cw_detected w" "cw_baseline w = Some b" "fetchBalance answer = Inr x" "cw_amount w \<le> x - b"
  proof -
    let ?w = "stop w\<lparr>cw_flight := cw_flight (stop w) - 1\<rparr>"
    have "detections ?w = []" using checkout_run_ok [OF assms] h(2) by (simp add: checkout_ok_def stop_def detections_def)
    moreover have "poll_answered opts answer (stop w) = payment_received opts x ?w"
      using h by (cases rule: answer_cases [of answer opts "stop w"]) (auto simp: stop_def)
    ultimately have "detections (poll_answered opts answer (stop w)) = told opts x"
      using moved_received(1) [where w = ?w and opts = opts and x = x] by (simp add: moved_def)
    then show ?thesis using h(1) assms
      by (auto intro!: checkout_run.continued [OF checkout_run.continued [OF assms checkout_step.stops]] checkout_step.answered simp: stop_def)
  qed
  show ?thesis using a b by blast
qed

theorem stop_ends_requests_only_witness:
  "let w = round_of demo_shop (demo_balance 7) demo_widget
   in detections (poll_answered demo_shop (demo_balance 200000008) (stop w)) = [Detected (dec_int 200000013)]"
proof -
  let ?w = "round_of demo_shop (demo_balance 7) demo_widget"
  have "0 < cw_flight ?w \<and> \<not> cw_detected ?w \<and> cw_baseline ?w = Some 12
      \<and> fetchBalance (demo_balance 200000008) = Inr 200000013 \<and> cw_amount ?w \<le> 200000013 - 12"
    using demo_balances demo_shop_ok(3) demo_widget_waits
    by (simp add: round_of_def poll_answered_def arm_def timer_fires_def poll_def waiting_widget_def)
  then show ?thesis
    using stop_ends_requests_only [OF round_run [OF checkout_run.created [OF demo_shop_ok(2)]], where answer = "demo_balance 200000008"]
    unfolding Let_def demo_told by blast
qed

text \<open>
  C11: With callbacks that return, the merchant is told of exactly the payment that is in the
  answers: the first balance that exceeds the first one received by at least the amount due,
  answers that failed being skipped. As long as there is none, the widget keeps asking.
\<close>

theorem checkout_detects_payment:
  fixes answers :: "response res list"
  assumes "createCheckout opts True = Inr w" and "cooperative opts"
  defines "v \<equiv> fold (round_of opts) answers w"
  shows "checkout_run opts v \<and> (case payment (cw_amount w) (map fetchBalance answers) of
      None \<Rightarrow> detections v = [] \<and> \<not> cw_stopped v \<and> cw_flight v = 1
    | Some x \<Rightarrow> detections v = told opts x \<and> cw_stopped v)"
proof -
  have w: "waiting_widget w" "detections w = []" "cw_baseline w = None"
    using created_waits [OF assms(1)] by simp_all
  then show ?thesis
    using rounds_expected [OF assms(2) w(1,2), of answers] rounds_run [OF checkout_run.created [OF assms(1)]]
    by (auto simp: v_def expects_def waiting_widget_def split: option.splits)
qed

theorem checkout_detects_payment_witness:
  "detections (fold (round_of demo_shop) [demo_balance 7, Inl (TypeErr ''Failed to fetch''), demo_balance 200000008] demo_widget)
     = [Detected (dec_int 200000013)]"
proof -
  have "fetchBalance (Inl e) = Inl e" for e by (simp add: fetchBalance_def)
  then show ?thesis
    using checkout_detects_payment [OF demo_shop_ok(2,1), of "[demo_balance 7, Inl (TypeErr ''Failed to fetch''), demo_balance 200000008]"]
      demo_balances demo_shop_ok(3)
    by (simp add: payment_def successes_def demo_told)
qed

end
