(* ===== verification/QrScanner.thy ===== *)
theory QrScanner
  imports Prelude
begin

text \<open>
  The camera scanner of web-wallet/qr.js as a state machine. Its steps interleave the answer of
  \<open>getUserMedia\<close>, the animation frames and \<open>stop\<close>, in any order. A frame is what the scanner
  sees of the camera in it: nothing while the video has not enough data, otherwise the size of the
  picture and what the third-party decoder \<open>jsQR\<close> finds in it. That assigning the stream to the
  video element and starting it do not throw is taken from the documentation of the browser.

  The properties: the scanner calls back at most once in its life and never with a result after
  \<open>stop\<close>; once stopped it never holds the camera, even when the camera is granted later; but the
  error callback can come after \<open>stop\<close>; and the scanner reports the first code that appears.
\<close>

section \<open>Definitions\<close>

datatype scan_call = ScanFound string | ScanFailed js_error

text \<open>
  \<open>sc_asking\<close>: the user has not yet answered about the camera. \<open>sc_camera\<close>: a track of the camera
  is live. \<open>sc_frame\<close>: an animation frame is requested.
\<close>

record scanner =
  sc_stopped :: bool
  sc_asking :: bool
  sc_camera :: bool
  sc_frame :: bool
  sc_canvas :: "nat \<times> nat"
  sc_calls :: "scan_call list"

datatype video_frame = NotReady | Picture nat nat "string option res"

definition stop_scan :: "scanner \<Rightarrow> scanner" where
  "stop_scan s = s\<lparr>sc_stopped := True, sc_frame := False, sc_camera := False\<rparr>"

text \<open>
  \<open>tick\<close>. An error of the decoder leaves the function, so no further frame is requested; an empty
  text counts as no code.
\<close>

definition scan_tick :: "video_frame \<Rightarrow> scanner \<Rightarrow> scanner" where
  "scan_tick f s0 =
     (let s = s0\<lparr>sc_frame := False\<rparr> in
      if sc_stopped s then s
      else case f of
        NotReady \<Rightarrow> s\<lparr>sc_frame := True\<rparr>
      | Picture w h code \<Rightarrow>
          let s1 = s\<lparr>sc_canvas := (w, h)\<rparr> in
          (case code of
             Inl e \<Rightarrow> s1
           | Inr None \<Rightarrow> s1\<lparr>sc_frame := True\<rparr>
           | Inr (Some data) \<Rightarrow>
               if data = [] then s1\<lparr>sc_frame := True\<rparr>
               else let s2 = stop_scan s1 in s2\<lparr>sc_calls := sc_calls s2 @ [ScanFound data]\<rparr>))"

definition scan_granted :: "scanner \<Rightarrow> scanner" where
  "scan_granted s =
     (if sc_stopped s then s\<lparr>sc_asking := False\<rparr>
      else s\<lparr>sc_asking := False, sc_camera := True, sc_frame := True\<rparr>)"

definition scan_denied :: "js_error \<Rightarrow> scanner \<Rightarrow> scanner" where
  "scan_denied e s = s\<lparr>sc_asking := False, sc_calls := sc_calls s @ [ScanFailed e]\<rparr>"

text \<open>
  \<open>available\<close> says whether the browser has \<open>navigator.mediaDevices\<close>, which it hides from insecure
  pages; without it the call throws.
\<close>

definition startQrScanner :: "bool \<Rightarrow> scanner res" where
  "startQrScanner available =
     (if available then Inr \<lparr>sc_stopped = False, sc_asking = True, sc_camera = False, sc_frame = False,
        sc_canvas = (0, 0), sc_calls = []\<rparr>
      else Inl (TypeErr ''Cannot read properties of undefined (reading getUserMedia)''))"

inductive scan_step :: "scanner \<Rightarrow> scanner \<Rightarrow> bool" where
  granted: "sc_asking s \<Longrightarrow> scan_step s (scan_granted s)"
| denied: "sc_asking s \<Longrightarrow> scan_step s (scan_denied e s)"
| frame: "sc_frame s \<Longrightarrow> scan_step s (scan_tick f s)"
| stops: "scan_step s (stop_scan s)"

inductive scan_run :: "scanner \<Rightarrow> bool" where
  started: "startQrScanner available = Inr s \<Longrightarrow> scan_run s"
| continued: "scan_run s \<Longrightarrow> scan_step s t \<Longrightarrow> scan_run t"

inductive_cases scan_stepE: "scan_step s t"

section \<open>Lemmas\<close>

text \<open>
  While the user is asked nothing was called and no camera is on; the camera and the requested
  frames belong to a scanner that is not stopped and has called nobody; a result stops the scanner.
\<close>

definition scan_ok :: "scanner \<Rightarrow> bool" where
  "scan_ok s \<longleftrightarrow> (sc_asking s \<longrightarrow> sc_calls s = [] \<and> \<not> sc_camera s \<and> \<not> sc_frame s)
     \<and> (sc_camera s \<or> sc_frame s \<longrightarrow> \<not> sc_stopped s \<and> sc_calls s = []) \<and> (sc_frame s \<longrightarrow> sc_camera s)
     \<and> length (sc_calls s) \<le> 1 \<and> (\<forall>t. ScanFound t \<in> set (sc_calls s) \<longrightarrow> sc_stopped s)"

lemma scan_ok_step: "scan_step s t \<Longrightarrow> scan_ok s \<Longrightarrow> scan_ok t"
  by (erule scan_stepE)
    (auto simp: scan_ok_def scan_granted_def scan_denied_def scan_tick_def stop_scan_def Let_def
      split: video_frame.splits sum.splits option.splits)

lemma scan_run_ok: "scan_run s \<Longrightarrow> scan_ok s"
proof (induction rule: scan_run.induct)
  case (started available s)
  then show ?case by (auto simp: startQrScanner_def scan_ok_def split: if_splits)
qed (rule scan_ok_step)

text \<open>The first code in a sequence of frames; a decoder error ends the scan.\<close>

fun first_code :: "video_frame list \<Rightarrow> string option" where
  "first_code [] = None"
| "first_code (NotReady # fs) = first_code fs"
| "first_code (Picture w h (Inl e) # fs) = None"
| "first_code (Picture w h (Inr None) # fs) = first_code fs"
| "first_code (Picture w h (Inr (Some data)) # fs) = (if data = [] then first_code fs else Some data)"

definition see_frames :: "video_frame list \<Rightarrow> scanner \<Rightarrow> scanner" where
  "see_frames fs s = fold (\<lambda>f s. if sc_frame s then scan_tick f s else s) fs s"

lemma see_frames_idle: "\<not> sc_frame s \<Longrightarrow> see_frames fs s = s"
  by (induction fs) (simp_all add: see_frames_def)

lemma see_frames_first:
  assumes "sc_frame s" "\<not> sc_stopped s" "sc_calls s = []"
  shows "sc_calls (see_frames fs s) = (case first_code fs of None \<Rightarrow> [] | Some t \<Rightarrow> [ScanFound t])"
    "first_code fs \<noteq> None \<Longrightarrow> sc_stopped (see_frames fs s) \<and> \<not> sc_camera (see_frames fs s)"
proof -
  have "sc_calls (see_frames fs s) = (case first_code fs of None \<Rightarrow> [] | Some t \<Rightarrow> [ScanFound t])
      \<and> (first_code fs \<noteq> None \<longrightarrow> sc_stopped (see_frames fs s) \<and> \<not> sc_camera (see_frames fs s))"
    using assms
  proof (induction fs arbitrary: s rule: first_code.induct)
    case 1
    then show ?case by (simp add: see_frames_def)
  next
    case (5 w h data fs)
    have "see_frames (Picture w h (Inr (Some data)) # fs) s = see_frames fs (scan_tick (Picture w h (Inr (Some data))) s)"
      using 5(2) by (simp add: see_frames_def)
    then show ?case using 5 by (cases "data = []") (simp_all add: scan_tick_def stop_scan_def Let_def see_frames_idle)
  qed (simp_all add: see_frames_def scan_tick_def Let_def see_frames_idle [unfolded see_frames_def])
  then show "sc_calls (see_frames fs s) = (case first_code fs of None \<Rightarrow> [] | Some t \<Rightarrow> [ScanFound t])"
    "first_code fs \<noteq> None \<Longrightarrow> sc_stopped (see_frames fs s) \<and> \<not> sc_camera (see_frames fs s)" by blast+
qed

definition demo_scanner :: scanner where
  "demo_scanner = \<lparr>sc_stopped = False, sc_asking = True, sc_camera = False, sc_frame = False, sc_canvas = (0, 0), sc_calls = []\<rparr>"

lemma demo_scanner_started: "startQrScanner True = Inr demo_scanner"
  by (simp add: startQrScanner_def demo_scanner_def)

section \<open>Properties\<close>

text \<open>
  In every state the scanner can reach it has called back at most once, with a result or an
  error. Once it is stopped the camera is off and no frame is requested, also when the camera is
  granted only after the stop; and whoever got a result has a stopped scanner.
\<close>

theorem scanner_calls_once_and_releases:
  assumes "scan_run s"
  shows "length (sc_calls s) \<le> 1 \<and> (sc_stopped s \<longrightarrow> \<not> sc_camera s \<and> \<not> sc_frame s)
    \<and> (\<forall>t. ScanFound t \<in> set (sc_calls s) \<longrightarrow> sc_stopped s)"
  using scan_run_ok [OF assms] by (auto simp: scan_ok_def)

theorem scanner_calls_once_and_releases_witness:
  "\<not> sc_camera (scan_granted (stop_scan demo_scanner))"
proof -
  have "scan_run (scan_granted (stop_scan demo_scanner))"
    by (intro scan_run.continued [OF scan_run.continued [OF scan_run.started [OF demo_scanner_started] scan_step.stops]] scan_step.granted)
      (simp add: stop_scan_def demo_scanner_def)
  then show ?thesis using scanner_calls_once_and_releases [of "scan_granted (stop_scan demo_scanner)"]
    by (auto simp: stop_scan_def scan_granted_def)
qed

text \<open>
  A stopped scanner never reports a result, but it can still report an error: denying the
  camera after \<open>stop\<close> calls the error callback.
\<close>

theorem stopped_scanner_reports_errors_only:
  assumes "scan_run s" and "sc_stopped s" and "scan_step s t"
  shows "sc_calls t = sc_calls s \<or> (sc_asking s \<and> (\<exists>e. sc_calls t = [ScanFailed e]))"
  using assms(3,2) scan_run_ok [OF assms(1)]
  by (elim scan_stepE) (auto simp: scan_ok_def scan_granted_def scan_denied_def scan_tick_def stop_scan_def)

theorem stopped_scanner_reports_errors_only_witness:
  "\<exists>s t. scan_run s \<and> sc_stopped s \<and> scan_step s t \<and> sc_asking s \<and> (\<exists>e. sc_calls t = [ScanFailed e])"
proof -
  let ?s = "stop_scan demo_scanner"
  have r: "scan_run ?s" by (intro scan_run.continued [OF scan_run.started [OF demo_scanner_started] scan_step.stops])
  have s: "sc_stopped ?s" "sc_asking ?s" "sc_calls ?s = []" by (simp_all add: stop_scan_def demo_scanner_def)
  have d: "scan_step ?s (scan_denied (JsError ''NotAllowedError'') ?s)" using s(2) by (rule scan_step.denied)
  moreover have "sc_calls (scan_denied (JsError ''NotAllowedError'') ?s) \<noteq> sc_calls ?s" by (simp add: scan_denied_def)
  ultimately show ?thesis using stopped_scanner_reports_errors_only [OF r s(1) d] r s by blast
qed

text \<open>
  Once the camera is granted, an undisturbed scanner reports the first code that appears in
  the frames, exactly once, and then has released the camera; without a code it reports nothing.
\<close>

theorem scanner_finds_first_code:
  "let s = see_frames fs (scan_granted demo_scanner) in
     sc_calls s = (case first_code fs of None \<Rightarrow> [] | Some t \<Rightarrow> [ScanFound t])
     \<and> (case first_code fs of None \<Rightarrow> True | Some t \<Rightarrow> sc_stopped s \<and> \<not> sc_camera s)"
  using see_frames_first [of "scan_granted demo_scanner" fs]
  by (simp add: Let_def scan_granted_def demo_scanner_def split: option.split)

end
