(* ===== verification/Spec2Isabelle.thy ===== *)
theory Spec2Isabelle
  imports App Checkout QrScanner
begin

text \<open>
  Verification of the browser software of CodexaCoin: the web wallet (src/web-wallet) and the
  merchant widget (src/checkout-widget). The definitions are a shallow embedding of the JavaScript
  sources; each keeps the name of the function it models where HOL allows it, and the handlers
  without a name in the source are named after their button.

  \<^bold>\<open>The program and its parts.\<close> The wallet is a single page. \<open>crypto.js\<close> makes addresses and signs
  transactions, \<open>message.js\<close> signs messages, \<open>storage.js\<close> keeps the recovery phrase, \<open>gateway.js\<close>
  talks to the gateway of the network, \<open>price.js\<close> estimates a price, \<open>qr.js\<close> draws and scans codes,
  and \<open>app.js\<close> holds the state and the handlers of all screens and calls the others. The widget
  stands alone.

  \<^bold>\<open>Theories.\<close>
  \<^item> \<open>Prelude\<close>, \<open>JsString\<close>, \<open>JsNumber\<close>: bytes, errors and results, positional notation (the locale
    \<open>positional\<close>, interpreted at the bases 2, 10, 16, 58 and 256), strings, and Numbers as rationals
    with IEEE rounding to double precision.
  \<^item> \<open>Externals\<close>: the third-party packages (hashes, curve, BIP32, BIP39) as a record of functions.
  \<^item> \<open>Base58\<close>, \<open>Bech32\<close>, \<open>Address\<close>, \<open>Transaction\<close>, \<open>Multisig\<close> (crypto.js), \<open>Message\<close> (message.js):
    encodings with their round trips, what \<open>decodeAddress\<close> accepts, signing with the pushes of every
    script, proposals with merging and finalizing. The byte formats of transactions share the
    contract of the locale \<open>wire_codec\<close>.
  \<^item> \<open>Amounts\<close>, \<open>PageText\<close>, \<open>Json\<close>: amounts as text, escaping, payment links, CSV, and JSON as text
    with its reader. \<open>Gateway\<close> (gateway.js), \<open>Storage\<close> (storage.js), \<open>Price\<close> (price.js).
  \<^item> \<open>AppState\<close>, \<open>Wallet\<close>: the record \<open>app\<close> of the page (the object \<open>state\<close>, the module variables,
    the storage, the parts of the document the handlers read or write, the requests sent), the
    actions on it, and key derivation. \<open>Demo\<close> is a concrete wallet for the witnesses.
  \<^item> \<open>Send\<close>, \<open>History\<close>, \<open>Screens\<close>, \<open>Settings\<close>, \<open>Staking\<close>, \<open>MultisigScreen\<close>, \<open>Onboarding\<close>: one
    theory per group of screens, every handler with all its branches.
  \<^item> \<open>Quiet\<close>, \<open>App\<close>: what every handler leaves alone, the events of the page, when the page offers
    them, the step relation and the reachable states.
  \<^item> \<open>Checkout\<close> (checkout.js) and \<open>QrScanner\<close> (qr.js): state machines of their own.

  \<^bold>\<open>State and effects.\<close> An action maps a state to a result and a state; a thrown error is the left
  summand of the result, and \<open>try\<close>, \<open>catch\<close> and \<open>finally\<close> are operations on actions. The answers
  of the network are a function of the requests sent before, so that a theorem about all
  environments covers every behaviour of the gateway. In the wallet page a handler runs to its end
  before the next event; the awaits inside one handler do not interleave with other handlers. In
  the widget and the scanner, where the source depends on it, the steps between two awaits are
  separate and every interleaving is covered.

  \<^bold>\<open>What the theorems show.\<close> Of every state the page can reach: the keys in memory are those of the
  phrase and network in memory; the phrase in memory can be recovered from the storage; a locked
  page has no phrase in \<open>state.mnemonic\<close> and no key, and opens with the right PIN only, while the
  phrase of a wallet created on the page stays in \<open>state._pendingMnemonic\<close>; the timer runs on two
  screens only (\<open>App\<close>, from the invariant \<open>page_ok\<close>, which every event keeps). Only three events
  can broadcast a transaction. A broadcast payment spends coins the gateway reported, pays every
  row of the form the amount and address typed and returns the rest to the active address; a fee
  bump moves money from the change to the fee only, or fails. Signing proposals as JSON text in turn is signing them in turn.
  The encodings are inverse to their decodings. The loops end as stated. The widget reports a
  payment once, if and only if the balances show it. Some theorems show what the code does and
  does not mean to do: the manifest lists them with the findings.

  \<^bold>\<open>Interfaces.\<close> \<open>core_predicate\<close> and \<open>wallet_predicate\<close> state which part of the page a property of
  states may depend on; what they prove for every handler is used at \<open>derived\<close> (in \<open>Wallet\<close>) and at
  \<open>held\<close> and \<open>pending\<close> (in \<open>App\<close>).

  \<^bold>\<open>Hypotheses about third-party code.\<close> \<open>hashes_ok\<close>: RIPEMD-160 gives 20 bytes. \<open>aes_ok\<close>: AES-GCM
  decrypts what it encrypted. \<open>store_ok\<close>: the storage at the first visit was left by this program.
  \<open>random_draws\<close>: the range of \<open>Math.random\<close>. The theorems about signatures name what they use of
  the curve. Witnesses discharge each of them with concrete functions.

  \<^bold>\<open>Bounds and fuel.\<close> Strings hold code units below 256. Numbers are finite rationals, infinities
  and NaN, without the sign of zero. Theorems about amounts that pass through Numbers state the
  range in which nothing is rounded (\<open>2^51\<close> to \<open>2^53\<close> satoshis). \<open>loadStaking\<close> calls itself at most once, so its model unrolls
  the call twice; the loop of the quiz is a partial function, with a theorem that says when it
  ends. No other loop needs fuel.

  \<^bold>\<open>Not modelled.\<close> Layout, styling and the wording of elements no handler touches; the drawing of QR
  codes; the service worker, which only hands push messages to the browser; interleavings of two
  handlers of the wallet page. The explorer page only renders answers of its backend. The
  deployment scripts call contracts with constants. The node, the servers, the mobile wallet and
  the documents are separate programs or no programs, and the wallet sees of them the answers of
  the gateway only.
\<close>

end
